(* ===== verification/Prelude.thy ===== *)
theory Prelude
  imports Main "HOL-Library.Word"
begin

text \<open>
  The vocabulary the whole development shares: Go's fixed-width integers and their
  conversions, errors, panics and outcomes as values, sequencing of calls that change a
  state, and the generic facts on lists and words the component theories use.

  A Go function that returns \<^verbatim>\<open>(T, error)\<close> and may panic is modelled by a value of
  \<^verbatim>\<open>'a outcome\<close>: \<open>Ok\<close> for a nil error, \<open>Err\<close> for a returned error, \<open>Panic\<close> for what ends
  the process (a run-time panic, as nothing in the program recovers one, or a log entry of level
  fatal) and \<open>Hang\<close> for a loop that never returns. A function that also reads and writes a state \<open>'s\<close> is an
  \<open>action\<close>: it returns the outcome together with the state reached, because Go keeps the
  state changes made before a returned error.
\<close>

section \<open>Machine integers and byte strings\<close>

type_synonym u64 = "64 word"
type_synonym u32 = "32 word"
type_synonym i32 = "32 word"
type_synonym bytes = "8 word list"

text \<open>A 32-byte hash (\<^verbatim>\<open>chainhash.Hash\<close>, \<^verbatim>\<open>common.Hash\<close>).\<close>

type_synonym hash = "256 word"

text \<open>
  Go's conversions: \<^verbatim>\<open>int32(x)\<close> of a \<^verbatim>\<open>uint64\<close> keeps the low 32 bits, \<^verbatim>\<open>uint64(x)\<close> of an
  \<^verbatim>\<open>int32\<close> extends the sign, \<^verbatim>\<open>int(x)\<close> of a \<^verbatim>\<open>uint64\<close> reads the bits as a signed value.
\<close>

abbreviation int32_of_uint64 :: "u64 \<Rightarrow> i32" where
  "int32_of_uint64 x \<equiv> ucast x"

abbreviation uint64_of_int32 :: "i32 \<Rightarrow> u64" where
  "uint64_of_int32 x \<equiv> scast x"

abbreviation int_of_uint64 :: "u64 \<Rightarrow> int" where
  "int_of_uint64 x \<equiv> sint x"

section \<open>Errors, panics, outcomes\<close>

text \<open>
  Error values. The sentinels of \<^verbatim>\<open>types/errors.go\<close> keep their names; a message built by
  \<^verbatim>\<open>errors.New\<close> or \<^verbatim>\<open>fmt.Errorf\<close> is an \<open>ErrMessage\<close> with its fixed part, \<^verbatim>\<open>%w\<close> wrapping is
  \<open>ErrWrapped\<close>, and an error that comes out of code not under \<^verbatim>\<open>src/\<close> is an \<open>ErrExternal\<close>.
\<close>

datatype go_error =
    ErrEmptyCache
  | ErrInvalidMaxEntries
  | ErrTooManyEntries
  | ErrorUnsortedBlocks
  | ErrMessage string
  | ErrWrapped string go_error
  | ErrExternal string

text \<open>\<open>LogFatal\<close> is no panic of Go: the logger's \<^verbatim>\<open>Fatalf\<close> calls \<^verbatim>\<open>os.Exit(1)\<close>.\<close>

datatype panic =
    PanicErr go_error
  | LogFatal go_error
  | IndexOutOfRange
  | SliceOutOfRange
  | MakeSliceOutOfRange
  | NilDereference
  | SendOnClosedChannel
  | CloseOfClosedChannel

datatype 'a outcome = Ok 'a | Err go_error | Panic panic | Hang

type_synonym ('s, 'a) action = "'s \<Rightarrow> 'a outcome \<times> 's"

text \<open>An outcome without a value, at any type.\<close>

fun reraise :: "'a outcome \<Rightarrow> 'b outcome" where
  "reraise (Err e) = Err e"
| "reraise (Panic p) = Panic p"
| "reraise Hang = Hang"
| "reraise (Ok _) = Hang"

text \<open>
  \<open>andThen m f\<close> is \<^verbatim>\<open>x, err := m(); if err != nil { return err }; f(x)\<close>; a panic or a call
  that never returns ends the computation as well.
\<close>

definition andThen :: "('s, 'a) action \<Rightarrow> ('a \<Rightarrow> ('s, 'b) action) \<Rightarrow> ('s, 'b) action" where
  "andThen m f s = (case m s of
     (Ok x, s') \<Rightarrow> f x s'
   | (Err e, s') \<Rightarrow> (Err e, s')
   | (Panic p, s') \<Rightarrow> (Panic p, s')
   | (Hang, s') \<Rightarrow> (Hang, s'))"

text \<open>The same without a state.\<close>

definition thenOk :: "'a outcome \<Rightarrow> ('a \<Rightarrow> 'b outcome) \<Rightarrow> 'b outcome" where
  "thenOk m f = (case m of Ok x \<Rightarrow> f x | Err e \<Rightarrow> Err e | Panic p \<Rightarrow> Panic p | Hang \<Rightarrow> Hang)"

text \<open>\<^verbatim>\<open>if err != nil { panic(err) }\<close> after a call.\<close>

definition orPanic :: "('s, 'a) action \<Rightarrow> ('s, 'a) action" where
  "orPanic m s = (case m s of (Err e, s') \<Rightarrow> (Panic (PanicErr e), s') | r \<Rightarrow> r)"

text \<open>\<^verbatim>\<open>if err != nil { return fmt.Errorf("...: %w", err) }\<close> after a call.\<close>

definition wrapErr :: "string \<Rightarrow> ('s, 'a) action \<Rightarrow> ('s, 'a) action" where
  "wrapErr msg m s = (case m s of (Err e, s') \<Rightarrow> (Err (ErrWrapped msg e), s') | r \<Rightarrow> r)"

text \<open>\<^verbatim>\<open>if err != nil { log(err) }\<close> after a call: the error is dropped.\<close>

definition logErr :: "('s, unit) action \<Rightarrow> ('s, unit) action" where
  "logErr m s = (case m s of (Err e, s') \<Rightarrow> (Ok (), s') | res \<Rightarrow> res)"

text \<open>The same with \<^verbatim>\<open>%v\<close>: a new error, of which the message keeps the old one only as text.\<close>

definition newErr :: "string \<Rightarrow> ('s, 'a) action \<Rightarrow> ('s, 'a) action" where
  "newErr msg m s = (case m s of (Err e, s') \<Rightarrow> (Err (ErrMessage msg), s') | r \<Rightarrow> r)"

text \<open>A computation without state effects, and one on a part of the state.\<close>

definition lift :: "'a outcome \<Rightarrow> ('s, 'a) action" where
  "lift r s = (r, s)"

definition zoom :: "('s \<Rightarrow> 't) \<Rightarrow> ('t \<Rightarrow> 's \<Rightarrow> 's) \<Rightarrow> ('t, 'a) action \<Rightarrow> ('s, 'a) action" where
  "zoom getp putp m s = (case m (getp s) of (r, t) \<Rightarrow> (r, putp t s))"

named_theorems action_simps \<open>evaluation of sequenced calls\<close>

lemma andThen_simps [action_simps]:
  "m s = (Ok x, s') \<Longrightarrow> andThen m f s = f x s'"
  "m s = (Err e, s') \<Longrightarrow> andThen m f s = (Err e, s')"
  "m s = (Panic p, s') \<Longrightarrow> andThen m f s = (Panic p, s')"
  "m s = (Hang, s') \<Longrightarrow> andThen m f s = (Hang, s')"
  by (simp_all add: andThen_def)

lemma andThen_Ok_iff:
  "andThen m f s = (Ok y, t) \<longleftrightarrow> (\<exists>x s'. m s = (Ok x, s') \<and> f x s' = (Ok y, t))"
  by (auto simp: andThen_def split: prod.splits outcome.splits)

lemma andThen_OkE:
  assumes "andThen m f s = (Ok y, t)"
  obtains x s' where "m s = (Ok x, s')" and "f x s' = (Ok y, t)"
  using assms by (auto simp: andThen_Ok_iff)

text \<open>
  An invariant of the state that holds after the first call and is kept by the rest holds
  at the end, whatever the outcome.
\<close>

lemma andThen_inv:
  assumes "P (snd (m s))"
    and "\<And>x s'. m s = (Ok x, s') \<Longrightarrow> P s' \<Longrightarrow> P (snd (f x s'))"
  shows "P (snd (andThen m f s))"
  using assms by (auto simp: andThen_def split: prod.splits outcome.splits)

text \<open>The same with a stronger fact \<open>M\<close> of the state between the two calls.\<close>

lemma andThen_via:
  assumes "M (snd (m s))" and "\<And>t. M t \<Longrightarrow> P t"
    and "\<And>x s'. m s = (Ok x, s') \<Longrightarrow> M s' \<Longrightarrow> P (snd (f x s'))"
  shows "P (snd (andThen m f s))"
  using assms by (auto simp: andThen_def split: prod.splits outcome.splits)

lemma thenOk_simps [simp]:
  "thenOk (Ok x) f = f x" "thenOk (Err e) f = Err e"
  "thenOk (Panic p) f = Panic p" "thenOk Hang f = Hang"
  by (simp_all add: thenOk_def)

lemma thenOk_Ok_iff: "thenOk m f = Ok y \<longleftrightarrow> (\<exists>x. m = Ok x \<and> f x = Ok y)"
  by (cases m) auto

lemma orPanic_Ok_iff: "orPanic m s = (Ok x, t) \<longleftrightarrow> m s = (Ok x, t)"
  by (auto simp: orPanic_def split: prod.splits outcome.splits)

lemma wrapErr_Ok_iff: "wrapErr msg m s = (Ok x, t) \<longleftrightarrow> m s = (Ok x, t)"
  by (auto simp: wrapErr_def split: prod.splits outcome.splits)

lemma newErr_Ok_iff: "newErr msg m s = (Ok x, t) \<longleftrightarrow> m s = (Ok x, t)"
  by (auto simp: newErr_def split: prod.splits outcome.splits)

lemma snd_orPanic [simp]: "snd (orPanic m s) = snd (m s)"
  by (auto simp: orPanic_def split: prod.splits outcome.splits)

lemma snd_wrapErr [simp]: "snd (wrapErr msg m s) = snd (m s)"
  by (auto simp: wrapErr_def split: prod.splits outcome.splits)

lemma snd_logErr [simp]: "snd (logErr m s) = snd (m s)"
  by (simp add: logErr_def split: prod.split outcome.split)

lemma orPanic_never_Err: "fst (orPanic m s) \<noteq> Err e"
  by (auto simp: orPanic_def split: prod.splits outcome.splits)

lemma lift_apply [simp]: "lift r s = (r, s)"
  by (simp add: lift_def)

lemmas outcome_Ok_iffs = andThen_Ok_iff thenOk_Ok_iff orPanic_Ok_iff wrapErr_Ok_iff newErr_Ok_iff

text \<open>An action on a world with a log beside it, which it leaves alone.\<close>

definition logged :: "('w, 'a) action \<Rightarrow> ('w \<times> 'm list, 'a) action" where
  "logged m st = (case m (fst st) of (out, w) \<Rightarrow> (out, (w, snd st)))"

lemma snd_logged [simp]: "snd (snd (logged m st)) = snd st"
  by (simp add: logged_def split: prod.split)

lemma logged_keeps: "logged m w = (x, w') \<Longrightarrow> snd w' = snd w"
  by (auto simp: logged_def split: prod.splits)

lemma logged_answer: "logged m w = (x, w') \<Longrightarrow> m (fst w) = (x, fst w')"
  by (auto simp: logged_def split: prod.splits)

text \<open>An action on a world with a log that leaves the log alone, and the ways to build one.\<close>

definition keeps_log :: "('w \<times> 'm list, 'a) action \<Rightarrow> bool" where
  "keeps_log m \<longleftrightarrow> (\<forall>st. snd (snd (m st)) = snd st)"

named_theorems log_keeping \<open>actions that leave the log alone\<close>

lemma keeps_log_snd: "keeps_log m \<Longrightarrow> snd (snd (m st)) = snd st"
  unfolding keeps_log_def by blast

lemma keeps_logD: "keeps_log m \<Longrightarrow> m st = (x, st') \<Longrightarrow> snd st' = snd st"
  using keeps_log_snd [of m st] by simp

lemma keeps_log_andThen [log_keeping]:
  assumes "keeps_log m" and "\<And>x. keeps_log (f x)"
  shows "keeps_log (andThen m f)"
  unfolding keeps_log_def
proof
  fix st
  show "snd (snd (andThen m f st)) = snd st"
    by (rule andThen_inv [where P = "\<lambda>st'. snd st' = snd st"])
      (simp_all add: keeps_log_snd assms)
qed

lemma keeps_log_simple [log_keeping]:
  "keeps_log (logged m')" "keeps_log (lift x)"
  "keeps_log m \<Longrightarrow> keeps_log (orPanic m)" "keeps_log m \<Longrightarrow> keeps_log (wrapErr e m)"
  by (simp_all add: keeps_log_def)

section \<open>Slices\<close>

text \<open>
  \<^verbatim>\<open>make([]*T, n)\<close> panics when \<^verbatim>\<open>n\<close> pointers of 8 bytes exceed the address space of the Go
  runtime (\<^verbatim>\<open>2^48\<close> bytes on 64-bit Linux).
\<close>

definition makeslice_panics :: "u64 \<Rightarrow> bool" where
  "makeslice_panics n \<longleftrightarrow> 2 ^ 48 < 8 * unat n"

section \<open>Words\<close>

lemma unat_less_u64 [simp]: "unat (x :: u64) < 18446744073709551616"
  using unsigned_less [of x, where ?'a = nat] by simp

lemma unat_of_nat_u64: "n < 2 ^ 64 \<Longrightarrow> unat (of_nat n :: u64) = n"
  by (simp add: unat_of_nat)

lemma unat_plus1_u64:
  fixes x :: u64
  assumes "unat x + 1 < 18446744073709551616"
  shows "unat (x + 1) = unat x + 1"
  using assms by (intro unat_add_lem [THEN iffD1, THEN trans]) simp_all

lemma unat_midpoint:
  fixes l r :: u64
  assumes "l \<le> r"
  shows "unat (l + (r - l) div 2) = unat l + (unat r - unat l) div 2"
proof -
  have le: "unat l \<le> unat r" using assms by (simp add: word_le_nat_alt)
  have half: "unat ((r - l) div 2) = (unat r - unat l) div 2"
    using assms by (simp add: unat_div unat_sub)
  have "unat l + (unat r - unat l) div 2 \<le> unat r"
    using le by linarith
  also have "unat r < 18446744073709551616" by (rule unat_less_u64)
  finally have "unat l + unat ((r - l) div 2) < 2 ^ LENGTH(64)" by (simp add: half)
  then show ?thesis by (simp add: unat_add_lem [THEN iffD1] half)
qed

lemma sint_eq_unat_u64:
  fixes x :: u64
  assumes "unat x < 2 ^ 63"
  shows "sint x = int (unat x)"
proof -
  have "int (unat x) < int (2 ^ 63)" using assms by (simp only: of_nat_less_iff)
  then have u: "uint x < 2 ^ 63" by simp
  then have "signed_take_bit (LENGTH(64) - Suc 0) (uint x) = uint x"
    by (intro signed_take_bit_int_eq_self) (simp_all add: order_trans [OF _ uint_ge_0])
  then show ?thesis
    unfolding sint_uint [of x] by simp
qed

lemma sint_inject: "sint a = sint b \<longleftrightarrow> a = b"
  by (metis signed_word_eqI)

text \<open>Comparing a length with an unsigned word, as \<^verbatim>\<open>uint\<close> or as \<^verbatim>\<open>unat\<close>.\<close>

lemma int_uint_compare [simp]:
  "int n < uint m \<longleftrightarrow> n < unat m" "uint m < int n \<longleftrightarrow> unat m < n"
  "int n \<le> uint m \<longleftrightarrow> n \<le> unat m" "uint m \<le> int n \<longleftrightarrow> unat m \<le> n"
  by (simp_all flip: of_nat_less_iff [where ?'a = int] of_nat_le_iff [where ?'a = int])

text \<open>
  An \<^verbatim>\<open>int64\<close> in the range of \<^verbatim>\<open>int32\<close> keeps its value under \<^verbatim>\<open>int32(x)\<close>, and an \<^verbatim>\<open>int32\<close>
  that is not negative keeps it under \<^verbatim>\<open>uint64(x)\<close>.
\<close>

lemma sint_word_of_int_i32:
  "- (2 ^ 31) \<le> x \<Longrightarrow> x < 2 ^ 31 \<Longrightarrow> sint (word_of_int x :: i32) = x"
  by (simp add: signed_of_int signed_take_bit_int_eq_self)

lemma ucast_i32_eq: "(ucast (v :: u64) :: i32) = word_of_int (sint v)"
  by (rule bit_word_eqI) (auto simp: bit_unsigned_iff bit_word_of_int_iff bit_signed_iff min_def)

lemma sint_ucast_i32:
  fixes v :: u64
  shows "- (2 ^ 31) \<le> sint v \<Longrightarrow> sint v < 2 ^ 31 \<Longrightarrow> sint (ucast v :: i32) = sint v"
  unfolding ucast_i32_eq by (rule sint_word_of_int_i32)

lemma uint_scast_i32:
  fixes x :: i32
  assumes "0 \<le> sint x"
  shows "uint (scast x :: u64) = sint x"
proof -
  have "sint x < 2 ^ (LENGTH(32) - 1)" by (rule sint_lt)
  then have "sint x < 2 ^ 64" by (rule less_le_trans) simp
  then have "sint x mod 2 ^ LENGTH(64) = sint x"
    by (intro mod_pos_pos_trivial) (simp_all only: assms len_num0 len_num1 len_bit0 len_bit1, simp)
  then show ?thesis unfolding scast_eq uint_word_of_int .
qed

lemma ucast_scast_i32 [simp]: "(ucast (scast (x :: i32) :: u64) :: i32) = x"
proof (rule bit_word_eqI)
  fix n assume "n < LENGTH(32)"
  then have "n < 32" by simp
  then show "bit (ucast (scast x :: u64) :: i32) n = bit x n"
    by (cases "n = 31") (auto simp: bit_unsigned_iff bit_signed_iff min_def)
qed

lemma ucast_i32_plus1: "(ucast (y + 1 :: u64) :: i32) = ucast y + 1"
proof -
  have m: "(2::int) ^ 32 dvd 2 ^ 64" by (rule le_imp_power_dvd) simp
  have "uint (ucast (y + 1) :: 32 word) = (uint y + 1) mod 2 ^ 64 mod 2 ^ 32"
    by (simp add: uint_word_ariths unsigned_ucast_eq take_bit_eq_mod)
  also have "\<dots> = (uint y + 1) mod 2 ^ 32" using m by (rule mod_mod_cancel)
  also have "\<dots> = (uint y mod 2 ^ 32 + 1) mod 2 ^ 32" by (simp only: mod_add_left_eq)
  also have "\<dots> = uint (ucast y + 1 :: 32 word)"
    by (simp add: uint_word_ariths unsigned_ucast_eq take_bit_eq_mod)
  finally show ?thesis by (simp only: word_uint_eq_iff)
qed

lemma ucast_i32_pred: "(ucast (y - 1 :: u64) :: i32) + 1 = ucast y"
  using ucast_i32_plus1 [of "y - 1"] by simp

end
