(* ===== verification/Config.thy ===== *)
theory Config
  imports Prelude
begin

text \<open>
  The configuration (\<^verbatim>\<open>config/*.go\<close>), the networks and backends it may name (\<^verbatim>\<open>types/utils.go\<close>,
  \<^verbatim>\<open>netparams/bitcoin.go\<close>), its defaults and its validation. The file system, viper, the check of the
  Lorenzo SDK's own section and \<^verbatim>\<open>net.ParseIP\<close> are a parameter.
\<close>

section \<open>Networks and backends\<close>

definition BtcMainnet :: string where "BtcMainnet = ''mainnet''"
definition BtcTestnet :: string where "BtcTestnet = ''testnet''"
definition BtcSimnet :: string where "BtcSimnet = ''simnet''"
definition BtcRegtest :: string where "BtcRegtest = ''regtest''"
definition BtcSignet :: string where "BtcSignet = ''signet''"
definition Btcd :: string where "Btcd = ''btcd''"
definition Bitcoind :: string where "Bitcoind = ''bitcoind''"

lemmas network_defs = BtcMainnet_def BtcTestnet_def BtcSimnet_def BtcRegtest_def BtcSignet_def
lemmas backend_defs = Btcd_def Bitcoind_def

definition GetValidNetParams :: "string \<rightharpoonup> bool" where
  "GetValidNetParams =
     [BtcMainnet \<mapsto> True, BtcTestnet \<mapsto> True, BtcSimnet \<mapsto> True, BtcRegtest \<mapsto> True, BtcSignet \<mapsto> True]"

definition GetValidBtcBackends :: "string \<rightharpoonup> bool" where
  "GetValidBtcBackends = [Bitcoind \<mapsto> True, Btcd \<mapsto> True]"

text \<open>The parameters of \<^verbatim>\<open>btcd/chaincfg\<close>, by name.\<close>

datatype chain_params =
    MainNetParams
  | TestNet3Params
  | SimNetParams
  | RegressionNetParams
  | SigNetParams

definition GetBTCParams :: "string \<Rightarrow> chain_params outcome" where
  "GetBTCParams net =
     (if net = BtcMainnet then Ok MainNetParams
      else if net = BtcTestnet then Ok TestNet3Params
      else if net = BtcSimnet then Ok SimNetParams
      else if net = BtcRegtest then Ok RegressionNetParams
      else if net = BtcSignet then Ok SigNetParams
      else Err (ErrMessage ''BTC network with name does not exist''))"

lemma GetBTCParams_iff: "(\<exists>p. GetBTCParams net = Ok p) \<longleftrightarrow> GetValidNetParams net \<noteq> None"
  by (auto simp: GetBTCParams_def GetValidNetParams_def)

section \<open>The sections of the configuration\<close>

text \<open>A \<^verbatim>\<open>time.Duration\<close> and an \<^verbatim>\<open>int\<close> are signed 64-bit integers.\<close>

type_synonym i64 = "64 word"

record common_config =
  LogFormat :: string
  LogLevel :: string
  RetrySleepTime :: i64
  MaxRetrySleepTime :: i64

record btc_config =
  DisableClientTLS :: bool
  CAFile :: string
  Endpoint :: string
  BtcNetParams :: string
  Username :: string
  Password :: string
  ReconnectAttempts :: i64
  BtcBackend :: string
  ZmqSeqEndpoint :: string

record reporter_config =
  RepNetParams :: string
  BTCCacheSize :: u64
  MaxHeadersInMsg :: u32
  RepDelayBlocks :: u64

record bnb_reporter_config =
  RpcUrl :: string
  BnbDelayBlocks :: u64
  BaseHeight :: u64

record metrics_config =
  Host :: string
  ServerPort :: i64

record 'l config =
  Common :: common_config
  BTC :: btc_config
  Lorenzo :: 'l
  Metrics :: metrics_config
  Reporter :: reporter_config
  BNBReporter :: bnb_reporter_config

section \<open>Validation\<close>

fun isOneOf :: "string \<Rightarrow> string list \<Rightarrow> bool" where
  "isOneOf v [] = False"
| "isOneOf v (item # list) = (if v = item then True else isOneOf v list)"

lemma isOneOf_iff: "isOneOf v list \<longleftrightarrow> v \<in> set list"
  by (induction list) auto

definition CommonConfig_Validate :: "common_config \<Rightarrow> unit outcome" where
  "CommonConfig_Validate cfg =
     (if \<not> isOneOf (LogFormat cfg) [''json'', ''auto'', ''console'', ''logfmt'']
      then Err (ErrMessage ''log-format is not one of json|auto|console|logfmt'')
      else if \<not> isOneOf (LogLevel cfg) [''debug'', ''warn'', ''error'', ''panic'', ''fatal'']
      then Err (ErrMessage ''log-level is not one of debug|warn|error|panic|fatal'')
      else if sint (RetrySleepTime cfg) < 0
      then Err (ErrMessage ''retry-sleep-time can't be negative'')
      else if sint (MaxRetrySleepTime cfg) < 0
      then Err (ErrMessage ''max-retry-sleep-time can't be negative'')
      else Ok ())"

definition BTCConfig_Validate :: "btc_config \<Rightarrow> unit outcome" where
  "BTCConfig_Validate cfg =
     (if sint (ReconnectAttempts cfg) < 0
      then Err (ErrMessage ''reconnect-attempts must be non-negative'')
      else if GetValidNetParams (BtcNetParams cfg) = None then Err (ErrMessage ''invalid net params'')
      else if GetValidBtcBackends (BtcBackend cfg) = None then Err (ErrMessage ''invalid btc backend'')
      else if BtcBackend cfg = Bitcoind \<and> ZmqSeqEndpoint cfg = ''''
      then Err (ErrMessage ''zmq seq endpoint cannot be empty'')
      else Ok ())"

definition minBTCCacheSize :: u64 where "minBTCCacheSize = 1000"
definition maxHeadersInMsg :: u32 where "maxHeadersInMsg = 100"

definition ReporterConfig_Validate :: "reporter_config \<Rightarrow> unit outcome" where
  "ReporterConfig_Validate cfg =
     (if GetValidNetParams (RepNetParams cfg) = None then Err (ErrMessage ''invalid net params'')
      else if BTCCacheSize cfg < minBTCCacheSize
      then Err (ErrMessage ''BTC cache size has to be at least 1000'')
      else if MaxHeadersInMsg cfg < maxHeadersInMsg
      then Err (ErrMessage ''max_headers_in_msg has to be at least 100'')
      else Ok ())"

definition BNBReporterConfig_Validate :: "bnb_reporter_config \<Rightarrow> unit outcome" where
  "BNBReporterConfig_Validate cfg =
     (if RpcUrl cfg = '''' then Err (ErrMessage ''rpc url cannot be empty'')
      else if BaseHeight cfg = 0 then Err (ErrMessage ''BNB base height cannot be 0'')
      else if BnbDelayBlocks cfg = 0 then Err (ErrMessage ''BNB delay blocks cannot be 0'')
      else Ok ())"

definition MetricsConfig_Validate :: "(string \<Rightarrow> bool) \<Rightarrow> metrics_config \<Rightarrow> unit outcome" where
  "MetricsConfig_Validate parsesIP cfg =
     (if sint (ServerPort cfg) < 0 \<or> sint (ServerPort cfg) > 65535 then Err (ErrMessage ''invalid port'')
      else if \<not> parsesIP (Host cfg) then Err (ErrMessage ''invalid host'')
      else Ok ())"

text \<open>\<^verbatim>\<open>if err := v(); err != nil { return fmt.Errorf("...: %w", err) }\<close> without a state.\<close>

definition wrapped :: "string \<Rightarrow> 'a outcome \<Rightarrow> 'a outcome" where
  "wrapped msg r = (case r of Err e \<Rightarrow> Err (ErrWrapped msg e) | _ \<Rightarrow> r)"

definition Config_Validate ::
  "('l \<Rightarrow> unit outcome) \<Rightarrow> (string \<Rightarrow> bool) \<Rightarrow> 'l config \<Rightarrow> unit outcome" where
  "Config_Validate lorenzoValidate parsesIP cfg =
     thenOk (wrapped ''invalid config in common'' (CommonConfig_Validate (Common cfg))) (\<lambda>_.
     thenOk (wrapped ''invalid config in lorenzo'' (lorenzoValidate (Lorenzo cfg))) (\<lambda>_.
     thenOk (wrapped ''invalid config in metrics'' (MetricsConfig_Validate parsesIP (Metrics cfg))) (\<lambda>_.
     Ok ())))"

lemma wrapped_Ok [simp]: "wrapped msg r = Ok x \<longleftrightarrow> r = Ok x"
  by (cases r) (simp_all add: wrapped_def)

section \<open>Defaults\<close>

definition defaultRetrySleepTime :: i64 where "defaultRetrySleepTime = 5 * 1000000000"
definition defaultMaxRetrySleepTime :: i64 where "defaultMaxRetrySleepTime = 5 * 60 * 1000000000"

definition DefaultCommonConfig :: common_config where
  "DefaultCommonConfig = \<lparr>LogFormat = ''auto'', LogLevel = ''debug'',
     RetrySleepTime = defaultRetrySleepTime, MaxRetrySleepTime = defaultMaxRetrySleepTime\<rparr>"

text \<open>The CA file is below btcd's data directory, which the environment decides.\<close>

definition DefaultBTCConfig :: "string \<Rightarrow> btc_config" where
  "DefaultBTCConfig defaultBtcCAFile =
     \<lparr>DisableClientTLS = False, CAFile = defaultBtcCAFile, Endpoint = ''127.0.01:18556'',
      BtcNetParams = BtcSimnet, Username = ''rpcuser'', Password = ''rpcpass'', ReconnectAttempts = 3,
      BtcBackend = Btcd, ZmqSeqEndpoint = ''tcp://127.0.0.1:29000''\<rparr>"

definition DefaultMetricsConfig :: metrics_config where
  "DefaultMetricsConfig = \<lparr>Host = ''0.0.0.0'', ServerPort = 2112\<rparr>"

text \<open>The defaults pass their own validation.\<close>

lemma defaults_validate:
  "CommonConfig_Validate DefaultCommonConfig = Ok ()"
  "BTCConfig_Validate (DefaultBTCConfig ca) = Ok ()"
  "parsesIP ''0.0.0.0'' \<Longrightarrow> MetricsConfig_Validate parsesIP DefaultMetricsConfig = Ok ()"
  by (simp_all add: CommonConfig_Validate_def DefaultCommonConfig_def defaultRetrySleepTime_def
      defaultMaxRetrySleepTime_def BTCConfig_Validate_def DefaultBTCConfig_def GetValidNetParams_def
      GetValidBtcBackends_def network_defs backend_defs MetricsConfig_Validate_def DefaultMetricsConfig_def)

section \<open>Loading\<close>

text \<open>
  \<^verbatim>\<open>config.New\<close>: the file is read by viper when it exists. An error of \<^verbatim>\<open>os.Stat\<close> that says that
  the file does not exist is told apart from the others.
\<close>

record ('w, 'l) config_env =
  osStat :: "string \<Rightarrow> ('w, unit) action"
  isNotExist :: "go_error \<Rightarrow> bool"
  ReadInConfig :: "string \<Rightarrow> ('w, unit) action"
  Unmarshal :: "('w, 'l config) action"
  lorenzoValidate :: "'l \<Rightarrow> unit outcome"
  parsesIP :: "string \<Rightarrow> bool"
  osReadFile :: "string \<Rightarrow> ('w, bytes option) action"

definition config_New :: "('w, 'l) config_env \<Rightarrow> string \<Rightarrow> ('w, 'l config) action" where
  "config_New env configFile w =
     (case osStat env configFile w of
        (Ok _, w1) \<Rightarrow>
          andThen (ReadInConfig env configFile) (\<lambda>_.
          andThen (Unmarshal env) (\<lambda>cfg.
          andThen (lift (Config_Validate (lorenzoValidate env) (parsesIP env) cfg)) (\<lambda>_.
          lift (Ok cfg)))) w1
      | (Err e, w1) \<Rightarrow>
          if isNotExist env e then (Err (ErrMessage ''no config file found''), w1) else (Err e, w1)
      | (r, w1) \<Rightarrow> (reraise r, w1))"

text \<open>The certificates: none without TLS, and a read of nothing is refused.\<close>

definition ReadCAFile :: "('w, 'l) config_env \<Rightarrow> btc_config \<Rightarrow> ('w, bytes option) action" where
  "ReadCAFile env cfg =
     (if DisableClientTLS cfg then lift (Ok None)
      else andThen (osReadFile env (CAFile cfg)) (\<lambda>certs.
        if certs = None then lift (Err (ErrMessage ''empty certificate file'')) else lift (Ok certs)))"

lemma config_New_Ok:
  assumes "config_New env file w = (Ok cfg, w')"
  shows "Config_Validate (lorenzoValidate env) (parsesIP env) cfg = Ok ()"
    and "CommonConfig_Validate (Common cfg) = Ok ()"
proof -
  show *: "Config_Validate (lorenzoValidate env) (parsesIP env) cfg = Ok ()"
    using assms by (auto simp: config_New_def outcome_Ok_iffs split: prod.splits outcome.splits if_splits)
  show "CommonConfig_Validate (Common cfg) = Ok ()"
    using * by (auto simp: Config_Validate_def thenOk_Ok_iff)
qed

end
