(* ===== verification/Logger.thy ===== *)
theory Logger
  imports Config
begin

text \<open>
  The root logger (\<^verbatim>\<open>config/log.go\<close>): which encoder and level a configuration chooses, and which
  entries the logger writes. Writing itself is zap's.
\<close>

section \<open>Levels\<close>

datatype log_level = DebugLevel | InfoLevel | WarnLevel | ErrorLevel | PanicLevel | FatalLevel

text \<open>zap's levels are ordered by severity; its \<^verbatim>\<open>DPanicLevel\<close>, between error and panic, is never chosen.\<close>

fun severity :: "log_level \<Rightarrow> int" where
  "severity DebugLevel = -1"
| "severity InfoLevel = 0"
| "severity WarnLevel = 1"
| "severity ErrorLevel = 2"
| "severity PanicLevel = 4"
| "severity FatalLevel = 5"

lemma severity_inject: "severity l = severity l' \<Longrightarrow> l = l'"
  by (cases l; cases l'; simp)

instantiation log_level :: linorder
begin

definition less_eq_log_level :: "log_level \<Rightarrow> log_level \<Rightarrow> bool" where
  "less_eq_log_level l l' = (severity l \<le> severity l')"

definition less_log_level :: "log_level \<Rightarrow> log_level \<Rightarrow> bool" where
  "less_log_level l l' = (severity l < severity l')"

instance
  by standard (auto simp: less_eq_log_level_def less_log_level_def intro: severity_inject)

end

section \<open>The logger\<close>

datatype encoder = JSONEncoder | ConsoleEncoder | LogfmtEncoder

text \<open>The fields of zap's production encoder configuration that the code sets.\<close>

record encoder_config =
  LevelKey :: string
  TimeLayout :: string

record root_logger =
  rl_encoder :: encoder
  rl_config :: encoder_config
  rl_sink :: string
  rl_level :: log_level

definition encoderConfig :: encoder_config where
  "encoderConfig = \<lparr>LevelKey = ''lvl'', TimeLayout = ''2006-01-02T15:04:05.000000Z07:00''\<rparr>"

definition encoderOf :: "string \<Rightarrow> encoder outcome" where
  "encoderOf format =
     (if format = ''json'' then Ok JSONEncoder
      else if format = ''auto'' \<or> format = ''console'' then Ok ConsoleEncoder
      else if format = ''logfmt'' then Ok LogfmtEncoder
      else Err (ErrMessage ''unrecognized log format''))"

definition levelOf :: "string \<Rightarrow> log_level" where
  "levelOf logLevel =
     (if logLevel = ''debug'' then DebugLevel else if logLevel = ''warn'' then WarnLevel
      else if logLevel = ''error'' then ErrorLevel else if logLevel = ''panic'' then PanicLevel
      else if logLevel = ''fatal'' then FatalLevel else InfoLevel)"

definition NewRootLogger :: "string \<Rightarrow> string \<Rightarrow> root_logger outcome" where
  "NewRootLogger format logLevel =
     thenOk (encoderOf format) (\<lambda>enc.
     Ok \<lparr>rl_encoder = enc, rl_config = encoderConfig, rl_sink = ''stderr'', rl_level = levelOf logLevel\<rparr>)"

definition CreateLogger :: "'l config \<Rightarrow> root_logger outcome" where
  "CreateLogger cfg = NewRootLogger (LogFormat (Common cfg)) (LogLevel (Common cfg))"

text \<open>An entry is written when its level is at least the logger's.\<close>

definition writes :: "root_logger \<Rightarrow> log_level \<Rightarrow> bool" where
  "writes lg l \<longleftrightarrow> rl_level lg \<le> l"

text \<open>
  A configuration that passed its validation gives a logger. None of the levels it may name is the
  info level: what the code logs at that level is written at the level debug only.
\<close>

lemma validated_logger:
  assumes "CommonConfig_Validate (Common cfg) = Ok ()"
  shows "\<exists>lg. CreateLogger cfg = Ok lg \<and> writes lg FatalLevel
    \<and> (writes lg InfoLevel \<longleftrightarrow> LogLevel (Common cfg) = ''debug'')"
  using assms
  by (auto simp: CommonConfig_Validate_def CreateLogger_def NewRootLogger_def encoderOf_def levelOf_def
      writes_def less_eq_log_level_def split: if_splits)

end
