(* ===== verification/Step_Runs.thy ===== *)
theory Step_Runs
  imports Prelude
begin

text \<open>
  The interface of the step relations: goroutines that share state are a relation of one step, and
  a relation of the states that are reached. A provider gives the two with the rules of
  reachability; what every step keeps, every run keeps.
\<close>

locale stepping =
  fixes step :: "'s \<Rightarrow> 's \<Rightarrow> bool" and reaches :: "'s \<Rightarrow> 's \<Rightarrow> bool"
  assumes reaches_here: "reaches s s"
    and reaches_step: "reaches s t \<Longrightarrow> step t u \<Longrightarrow> reaches s u"
    and reaches_least: "reaches s t \<Longrightarrow> P s \<Longrightarrow> (\<And>t u. P t \<Longrightarrow> step t u \<Longrightarrow> P u) \<Longrightarrow> P t"
begin

lemma reaches_one: "step s t \<Longrightarrow> reaches s t"
  by (rule reaches_step [OF reaches_here])

lemma reaches_trans: "reaches s t \<Longrightarrow> reaches t u \<Longrightarrow> reaches s u"
  by (rule reaches_least [where P = "reaches s"]) (auto intro: reaches_step)

text \<open>An invariant holds in every state a run reaches, and a value no step changes is the same.\<close>

lemma keeps:
  assumes "reaches s t" and "I s" and "\<And>t u. step t u \<Longrightarrow> I t \<Longrightarrow> I u"
  shows "I t"
  by (rule reaches_least [where P = I]) (use assms in blast)+

lemma keeps_value:
  assumes "reaches s t" and "\<And>t u. step t u \<Longrightarrow> f u = f t"
  shows "f t = f s"
  by (rule keeps [where I = "\<lambda>u. f u = f s", OF assms(1)]) (simp_all add: assms(2))

text \<open>An invariant that needs another one is kept with it.\<close>

lemma keeps_under:
  assumes "reaches s t" and "I s" and "\<And>t u. step t u \<Longrightarrow> I t \<Longrightarrow> I u"
    and "Q s" and "\<And>t u. step t u \<Longrightarrow> I t \<Longrightarrow> Q t \<Longrightarrow> Q u"
  shows "I t \<and> Q t"
  by (rule keeps [where I = "\<lambda>u. I u \<and> Q u", OF assms(1)]) (use assms in blast)+

end

end
