(* ===== verification/Btc_Types.thy ===== *)
theory Btc_Types
  imports Prelude
begin

text \<open>
  The data of package \<^verbatim>\<open>types\<close>: Bitcoin headers and blocks as the relayer holds them
  (\<^verbatim>\<open>types/indexed_block.go\<close>), block events (\<^verbatim>\<open>types/blockevent.go\<close>), the wrapped
  transactions (\<^verbatim>\<open>types/utils.go\<close>) and the Lorenzo message that carries headers
  (\<^verbatim>\<open>types/btclightclient.go\<close>), with the notion of a linked chain of blocks.

  \<^verbatim>\<open>wire.BlockHeader\<close> is the record of its six documented fields; a transaction
  (\<^verbatim>\<open>wire.MsgTx\<close>) is opaque, kept as its serialisation. The double-SHA256 of a header
  (\<^verbatim>\<open>BlockHash\<close>), its wire encoding (\<^verbatim>\<open>NewBTCHeaderBytesFromBlockHeader\<close>), the hash of such
  an encoding, the work of a header (\<^verbatim>\<open>CalcHeaderWork\<close>) and the accumulation of work
  (\<^verbatim>\<open>CumulativeWork\<close>) are code of btcd and of Lorenzo: parameters of the definitions that
  use them, gathered in the record \<open>header_funs\<close>. Work is a Cosmos \<^verbatim>\<open>Uint\<close>, a natural number.
\<close>

section \<open>Headers, blocks, transactions\<close>

record block_header =
  hdr_Version :: i32
  PrevBlock :: hash
  hdr_MerkleRoot :: hash
  hdr_Timestamp :: u32
  hdr_Bits :: u32
  hdr_Nonce :: u32

record header_funs =
  hf_BlockHash :: "block_header \<Rightarrow> hash"
  hf_Encode :: "block_header \<Rightarrow> bytes"
  hf_BytesHash :: "bytes \<Rightarrow> hash"
  hf_CalcHeaderWork :: "block_header \<Rightarrow> nat"
  hf_CumulativeWork :: "nat \<Rightarrow> nat \<Rightarrow> nat"

type_synonym msg_tx = bytes

record msg_block =
  mb_Header :: block_header
  mb_Transactions :: "msg_tx list"

record btc_tx =
  tx_MsgTx :: msg_tx
  tx_Index :: int

record indexed_block =
  Height :: i32
  Header :: block_header
  Txs :: "btc_tx list"

definition NewIndexedBlock :: "i32 \<Rightarrow> block_header \<Rightarrow> btc_tx list \<Rightarrow> indexed_block" where
  "NewIndexedBlock height header txs = \<lparr>Height = height, Header = header, Txs = txs\<rparr>"

text \<open>\<^verbatim>\<open>GetWrappedTxs\<close>: the loop appends each transaction with its position as its index.\<close>

fun wrapTxsFrom :: "nat \<Rightarrow> msg_tx list \<Rightarrow> btc_tx list" where
  "wrapTxsFrom i [] = []"
| "wrapTxsFrom i (t # ts) = \<lparr>tx_MsgTx = t, tx_Index = int i\<rparr> # wrapTxsFrom (Suc i) ts"

definition GetWrappedTxs :: "msg_block \<Rightarrow> btc_tx list" where
  "GetWrappedTxs msg = wrapTxsFrom 0 (mb_Transactions msg)"

definition NewIndexedBlockFromMsgBlock :: "i32 \<Rightarrow> msg_block \<Rightarrow> indexed_block" where
  "NewIndexedBlockFromMsgBlock height block =
     \<lparr>Height = height, Header = mb_Header block, Txs = GetWrappedTxs block\<rparr>"

definition MsgBlock :: "indexed_block \<Rightarrow> msg_block" where
  "MsgBlock ib = \<lparr>mb_Header = Header ib, mb_Transactions = map tx_MsgTx (Txs ib)\<rparr>"

definition BlockHash :: "(block_header \<Rightarrow> hash) \<Rightarrow> indexed_block \<Rightarrow> hash" where
  "BlockHash H ib = H (Header ib)"

section \<open>Block events\<close>

datatype event_type = BlockDisconnected | BlockConnected

record block_event =
  EventType :: event_type
  ev_Height :: i32
  ev_Header :: block_header

definition NewBlockEvent :: "event_type \<Rightarrow> i32 \<Rightarrow> block_header \<Rightarrow> block_event" where
  "NewBlockEvent t height header = \<lparr>EventType = t, ev_Height = height, ev_Header = header\<rparr>"

section \<open>The message that inserts headers into Lorenzo\<close>

record msg_insert_headers =
  Signer :: string
  Headers :: "bytes list"

definition NewMsgInsertHeaders ::
  "(block_header \<Rightarrow> bytes) \<Rightarrow> string \<Rightarrow> indexed_block list \<Rightarrow> msg_insert_headers" where
  "NewMsgInsertHeaders enc signer headers =
     \<lparr>Signer = signer, Headers = map (\<lambda>h. enc (Header h)) headers\<rparr>"

section \<open>Linked chains\<close>

text \<open>
  \<open>linked H a b\<close>: the block \<open>b\<close> sits on top of \<open>a\<close>. A list of blocks is a chain when each
  block sits on top of the one before it.
\<close>

abbreviation ht :: "indexed_block \<Rightarrow> int" where
  "ht b \<equiv> sint (Height b)"

definition linked :: "(block_header \<Rightarrow> hash) \<Rightarrow> indexed_block \<Rightarrow> indexed_block \<Rightarrow> bool" where
  "linked H a b \<longleftrightarrow> PrevBlock (Header b) = BlockHash H a \<and> ht b = ht a + 1"

definition chain :: "(block_header \<Rightarrow> hash) \<Rightarrow> indexed_block list \<Rightarrow> bool" where
  "chain H bs \<longleftrightarrow> successively (linked H) bs"

lemma chain_simps [simp]:
  "chain H []" "chain H [b]"
  "chain H (a # b # bs) \<longleftrightarrow> linked H a b \<and> chain H (b # bs)"
  by (simp_all add: chain_def)

lemma chain_append_iff:
  "chain H (as @ bs) \<longleftrightarrow>
     chain H as \<and> chain H bs \<and> (as = [] \<or> bs = [] \<or> linked H (last as) (hd bs))"
  by (simp add: chain_def successively_append_iff)

lemma chain_snoc: "chain H bs \<Longrightarrow> bs \<noteq> [] \<Longrightarrow> linked H (last bs) b \<Longrightarrow> chain H (bs @ [b])"
  by (simp add: chain_append_iff)

lemma chain_drop: "chain H bs \<Longrightarrow> chain H (drop n bs)"
  by (metis append_take_drop_id chain_append_iff)

lemma chain_take: "chain H bs \<Longrightarrow> chain H (take n bs)"
  by (metis append_take_drop_id chain_append_iff)

lemma chain_tl: "chain H bs \<Longrightarrow> chain H (tl bs)"
  by (metis chain_drop drop_Suc drop_0)

lemma chain_butlast: "chain H bs \<Longrightarrow> chain H (butlast bs)"
  by (simp add: butlast_conv_take chain_take)

lemma chain_ConsD: "chain H (b # bs) \<Longrightarrow> chain H bs"
  using chain_tl by fastforce

text \<open>Heights along a chain are consecutive.\<close>

lemma chain_ht_nth: "chain H bs \<Longrightarrow> i < length bs \<Longrightarrow> ht (bs ! i) = ht (hd bs) + int i"
proof (induction bs arbitrary: i)
  case Nil
  then show ?case by simp
next
  case (Cons a bs)
  show ?case
  proof (cases i)
    case 0
    then show ?thesis by simp
  next
    case (Suc j)
    with Cons.prems obtain b bs' where bs: "bs = b # bs'" by (cases bs) auto
    with Cons.prems have "ht b = ht a + 1" and "chain H bs" by (auto simp: linked_def)
    with Cons.IH [of j] Cons.prems Suc bs show ?thesis by simp
  qed
qed

lemma chain_ht_last: "chain H bs \<Longrightarrow> bs \<noteq> [] \<Longrightarrow> ht (last bs) = ht (hd bs) + int (length bs) - 1"
  using chain_ht_nth [of H bs "length bs - 1"] by (simp add: last_conv_nth of_nat_diff Suc_le_eq)

lemma chain_ht_inj:
  "chain H bs \<Longrightarrow> i < length bs \<Longrightarrow> j < length bs \<Longrightarrow> Height (bs ! i) = Height (bs ! j) \<Longrightarrow> i = j"
proof -
  assume c: "chain H bs" and i: "i < length bs" and j: "j < length bs"
    and eq: "Height (bs ! i) = Height (bs ! j)"
  have "ht (hd bs) + int i = ht (hd bs) + int j"
    using chain_ht_nth [OF c i] chain_ht_nth [OF c j] by (simp only: eq)
  then show "i = j" by simp
qed

text \<open>In a chain the parent of each block but the first is its predecessor.\<close>

lemma chain_parent:
  "chain H bs \<Longrightarrow> Suc i < length bs \<Longrightarrow> PrevBlock (Header (bs ! Suc i)) = BlockHash H (bs ! i)"
  by (simp add: chain_def successively_conv_nth linked_def)

section \<open>Properties of the conversions\<close>

lemma wrapTxsFrom_MsgTx: "map tx_MsgTx (wrapTxsFrom i ts) = ts"
  by (induction ts arbitrary: i) auto

lemma length_wrapTxsFrom [simp]: "length (wrapTxsFrom i ts) = length ts"
  by (induction ts arbitrary: i) auto

lemma wrapTxsFrom_nth:
  "j < length ts \<Longrightarrow> wrapTxsFrom i ts ! j = \<lparr>tx_MsgTx = ts ! j, tx_Index = int (i + j)\<rparr>"
  by (induction ts arbitrary: i j) (auto simp: nth_Cons split: nat.splits)

lemma MsgBlock_wrapped: "MsgBlock (NewIndexedBlock h (mb_Header mb) (GetWrappedTxs mb)) = mb"
  by (simp add: MsgBlock_def NewIndexedBlock_def GetWrappedTxs_def wrapTxsFrom_MsgTx)

end
