(* ===== verification/Parent_Walk.thy ===== *)
theory Parent_Walk
  imports Prelude
begin

text \<open>
  The interface of a walk along parent hashes: the loop that the Bitcoin client
  (\<^verbatim>\<open>getChainBlocks\<close>) and the BNB client (\<^verbatim>\<open>RangeHeaders\<close>) both use to fill an array from
  its last slot down, each slot with the answer for the parent hash of the slot above. A
  provider gives its loop \<open>walk\<close> with the two equations of the loop; the client lemmas say
  that a walk which succeeds returns one entry per slot, each the node's answer for the
  parent hash of the next, and that it fails only when a fetch fails.
\<close>

text \<open>\<open>answers fetch h x\<close>: the node has answered \<open>x\<close> for the hash \<open>h\<close>.\<close>

definition answers :: "(hash \<Rightarrow> ('w, 'x) action) \<Rightarrow> hash \<Rightarrow> 'x \<Rightarrow> bool" where
  "answers fetch h x \<longleftrightarrow> (\<exists>w w'. fetch h w = (Ok x, w'))"

locale parent_walk =
  fixes fetch :: "hash \<Rightarrow> ('w, 'x) action"
    and entry :: "'x \<Rightarrow> 'b"
    and parent :: "'x \<Rightarrow> hash"
    and walk :: "nat \<Rightarrow> hash \<Rightarrow> 'b list \<Rightarrow> ('w, 'b list) action"
  assumes walk_done: "walk 0 h acc w = (Ok acc, w)"
    and walk_step: "walk (Suc i) h acc w =
      andThen (fetch h) (\<lambda>x. walk i (parent x) (entry x # acc)) w"
begin

lemma walk_entries:
  assumes "walk n h acc w = (Ok bs, w')"
  shows "\<exists>xs. length xs = n \<and> bs = map entry xs @ acc
    \<and> (xs \<noteq> [] \<longrightarrow> answers fetch h (last xs))
    \<and> successively (\<lambda>x y. answers fetch (parent y) x) xs"
  using assms
proof (induction n arbitrary: h acc w)
  case 0
  then show ?case by (auto simp: walk_done)
next
  case (Suc n)
  from Suc.prems obtain x w1 where x: "fetch h w = (Ok x, w1)"
    and rest: "walk n (parent x) (entry x # acc) w1 = (Ok bs, w')"
    by (auto simp: walk_step andThen_Ok_iff)
  from Suc.IH [OF rest] obtain xs where xs: "length xs = n" "bs = map entry xs @ entry x # acc"
    "xs \<noteq> [] \<longrightarrow> answers fetch (parent x) (last xs)" "successively (\<lambda>x y. answers fetch (parent y) x) xs"
    by auto
  have "answers fetch h x" using x by (auto simp: answers_def)
  with xs show ?case
    by (intro exI [of _ "xs @ [x]"]) (auto simp: successively_append_iff)
qed

lemma walk_length: "walk n h acc w = (Ok bs, w') \<Longrightarrow> length bs = n + length acc"
  using walk_entries by fastforce

lemma walk_last: "walk n h acc w = (Ok bs, w') \<Longrightarrow> acc \<noteq> [] \<Longrightarrow> last bs = last acc"
  using walk_entries by fastforce

lemma walk_set:
  assumes "walk n h acc w = (Ok bs, w')" and "b \<in> set bs"
  shows "b \<in> set acc \<or> (\<exists>g x. answers fetch g x \<and> b = entry x)"
  using assms
proof (induction n arbitrary: h acc w)
  case 0
  then show ?case by (simp add: walk_done)
next
  case (Suc n)
  from Suc.prems(1) obtain x w1 where x: "fetch h w = (Ok x, w1)"
    and rest: "walk n (parent x) (entry x # acc) w1 = (Ok bs, w')"
    by (auto simp: walk_step andThen_Ok_iff)
  from Suc.IH [OF rest Suc.prems(2)] x show ?case
    by (auto simp: answers_def)
qed

text \<open>A walk over a node that answers every hash succeeds, and an error is a fetch's error.\<close>

lemma walk_returns:
  assumes "\<And>h w. \<exists>x w'. fetch h w = (Ok x, w')"
  shows "\<exists>bs w'. walk n h acc w = (Ok bs, w')"
proof (induction n arbitrary: h acc w)
  case 0
  then show ?case by (simp add: walk_done)
next
  case (Suc n)
  obtain x w1 where "fetch h w = (Ok x, w1)" using assms by blast
  with Suc.IH [of "parent x" "entry x # acc" w1] show ?case
    by (simp add: walk_step action_simps)
qed

lemma walk_Err:
  assumes "walk n h acc w = (Err e, w')"
  shows "\<exists>h0 w0 w1. fetch h0 w0 = (Err e, w1)"
  using assms
proof (induction n arbitrary: h acc w)
  case 0
  then show ?case by (simp add: walk_done)
next
  case (Suc n)
  then show ?case
    by (auto simp: walk_step andThen_def split: prod.splits outcome.splits)
qed

lemma walk_no_panic:
  assumes "\<And>h w p w'. fetch h w \<noteq> (Panic p, w')"
  shows "walk n h acc w \<noteq> (Panic p, w')"
  using assms
  by (induction n arbitrary: h acc w)
    (auto simp: walk_done walk_step andThen_def split: prod.splits outcome.splits)

text \<open>
  With a relation that every answer for a hash satisfies, neighbours in the result are
  related, and so are the last entry and what was there before.
\<close>

lemma walk_linked:
  assumes "walk n h (b # acc) w = (Ok bs, w')"
    and link: "\<And>g x y. answers fetch (parent y) x \<Longrightarrow> answers fetch g y \<Longrightarrow> R (entry x) (entry y)"
    and top: "\<And>x. answers fetch h x \<Longrightarrow> R (entry x) b"
    and acc: "successively R (b # acc)"
  shows "successively R bs"
proof -
  obtain xs where xs: "bs = map entry xs @ b # acc" "xs \<noteq> [] \<longrightarrow> answers fetch h (last xs)"
    "successively (\<lambda>x y. answers fetch (parent y) x) xs"
    using walk_entries [OF assms(1)] by auto
  have "successively (\<lambda>x y. R (entry x) (entry y)) xs"
    using xs(2,3)
  proof (induction xs)
    case Nil
    then show ?case by simp
  next
    case (Cons x xs)
    show ?case
    proof (cases xs)
      case Nil
      then show ?thesis by simp
    next
      case (Cons y ys)
      with Cons.prems have "answers fetch (parent y) x" by simp
      moreover obtain g where "answers fetch g y"
        using Cons Cons.prems by (cases ys) auto
      ultimately show ?thesis
        using Cons Cons.prems Cons.IH by (auto intro: link)
    qed
  qed
  then have "successively R (map entry xs)" by (simp add: successively_map)
  moreover have "xs \<noteq> [] \<Longrightarrow> R (last (map entry xs)) b"
    using xs(2) top by (simp add: last_map)
  ultimately show ?thesis
    using xs(1) acc by (auto simp: successively_append_iff)
qed

end

end
