(* ===== verification/Btc_Client.thy ===== *)
theory Btc_Client
  imports Btc_Types Parent_Walk
begin

text \<open>
  The Bitcoin client (package \<^verbatim>\<open>btcclient\<close>): the interface the reporter uses
  (\<^verbatim>\<open>btcclient/interface.go\<close>), its implementation over an RPC connection
  (\<^verbatim>\<open>btcclient/query.go\<close>, \<^verbatim>\<open>btcclient/client.go\<close>), and the proof that over a node that
  behaves as a Bitcoin node does the implementation keeps what the interface promises.

  The RPC calls are btcd's \<^verbatim>\<open>rpcclient\<close>: a parameter, the record \<open>rpc_client\<close>, of actions on
  a state \<open>'w\<close> of the outside world, so that two calls may get different answers.
\<close>

section \<open>The interface and the RPC connection\<close>

record 'w btc_client =
  GetBestBlock :: "('w, hash \<times> u64) action"
  GetBlockByHash :: "hash \<Rightarrow> ('w, indexed_block \<times> msg_block) action"
  GetBlockByHeight :: "u64 \<Rightarrow> ('w, indexed_block \<times> msg_block) action"
  FindTailBlocksByHeight :: "u64 \<Rightarrow> ('w, indexed_block list) action"
  FindRangeBlocksByHeight :: "u64 \<Rightarrow> u64 \<Rightarrow> ('w, indexed_block list) action"
  MustSubscribeBlocks :: "('w, unit) action"

text \<open>\<^verbatim>\<open>GetBlockVerbose\<close> is used for its height only, an \<^verbatim>\<open>int64\<close>.\<close>

record 'w rpc_client =
  GetBestBlockHash :: "('w, hash) action"
  GetBlockVerbose :: "hash \<Rightarrow> ('w, 64 word) action"
  GetBlock :: "hash \<Rightarrow> ('w, msg_block) action"
  GetBlockHash :: "64 word \<Rightarrow> ('w, hash) action"
  NotifyBlocks :: "('w, unit) action"

section \<open>Queries\<close>

definition GetTipBlockVerbose :: "'w rpc_client \<Rightarrow> ('w, 64 word) action" where
  "GetTipBlockVerbose c =
     andThen (wrapErr ''failed to obtain BTC block tip'' (GetBestBlockHash c)) (\<lambda>tipBtcHash.
     wrapErr ''failed to obtain BTC tip block'' (GetBlockVerbose c tipBtcHash))"

definition client_GetBestBlock :: "'w rpc_client \<Rightarrow> ('w, hash \<times> u64) action" where
  "client_GetBestBlock c =
     andThen (GetBestBlockHash c) (\<lambda>btcLatestBlockHash.
     andThen (GetBlockVerbose c btcLatestBlockHash) (\<lambda>btcLatestBlockHeight.
     lift (Ok (btcLatestBlockHash, btcLatestBlockHeight))))"

definition client_GetBlockByHash ::
  "'w rpc_client \<Rightarrow> hash \<Rightarrow> ('w, indexed_block \<times> msg_block) action" where
  "client_GetBlockByHash c blockHash =
     andThen (wrapErr ''failed to get block verbose by hash'' (GetBlockVerbose c blockHash)) (\<lambda>height.
     andThen (wrapErr ''failed to get block by hash'' (GetBlock c blockHash)) (\<lambda>mBlock.
     lift (Ok (NewIndexedBlock (ucast height) (mb_Header mBlock) (GetWrappedTxs mBlock), mBlock))))"

definition client_GetBlockByHeight ::
  "'w rpc_client \<Rightarrow> u64 \<Rightarrow> ('w, indexed_block \<times> msg_block) action" where
  "client_GetBlockByHeight c height =
     andThen (wrapErr ''failed to get block by height'' (GetBlockHash c height)) (\<lambda>blockHash.
     client_GetBlockByHash c blockHash)"

text \<open>The loop of \<^verbatim>\<open>getChainBlocks\<close> that fills the slots below the tip.\<close>

fun chainLoop ::
  "'w rpc_client \<Rightarrow> nat \<Rightarrow> hash \<Rightarrow> indexed_block list \<Rightarrow> ('w, indexed_block list) action" where
  "chainLoop c 0 prevHash chainBlocks w = (Ok chainBlocks, w)"
| "chainLoop c (Suc i) prevHash chainBlocks w =
     andThen (wrapErr ''failed to get block by hash'' (client_GetBlockByHash c prevHash))
       (\<lambda>(ib, mb). chainLoop c i (PrevBlock (mb_Header mb)) (ib # chainBlocks)) w"

definition getChainBlocks ::
  "'w rpc_client \<Rightarrow> u64 \<Rightarrow> indexed_block \<Rightarrow> ('w, indexed_block list) action" where
  "getChainBlocks c baseHeight tipBlock =
     (let tipHeight = uint64_of_int32 (Height tipBlock);
          n = tipHeight - baseHeight + 1 in
      if tipHeight < baseHeight
      then lift (Err (ErrMessage ''the tip block height is less than the base height''))
      else if makeslice_panics n then lift (Panic MakeSliceOutOfRange)
      else if n = 0 then lift (Panic IndexOutOfRange)
      else if tipHeight = baseHeight then lift (Ok [tipBlock])
      else chainLoop c (unat n - 1) (PrevBlock (Header tipBlock)) [tipBlock])"

definition getBestIndexedBlock :: "'w rpc_client \<Rightarrow> ('w, indexed_block) action" where
  "getBestIndexedBlock c =
     andThen (wrapErr ''failed to get the best block'' (GetBestBlockHash c)) (\<lambda>tipHash.
     andThen (wrapErr ''failed to get the block by hash'' (client_GetBlockByHash c tipHash)) (\<lambda>(tipIb, mb).
     lift (Ok tipIb)))"

definition client_FindTailBlocksByHeight ::
  "'w rpc_client \<Rightarrow> u64 \<Rightarrow> ('w, indexed_block list) action" where
  "client_FindTailBlocksByHeight c baseHeight =
     andThen (getBestIndexedBlock c) (\<lambda>tipIb.
     if baseHeight > uint64_of_int32 (Height tipIb)
     then lift (Err (ErrMessage ''invalid base height, should not be higher than tip block''))
     else getChainBlocks c baseHeight tipIb)"

definition client_FindRangeBlocksByHeight ::
  "'w rpc_client \<Rightarrow> u64 \<Rightarrow> u64 \<Rightarrow> ('w, indexed_block list) action" where
  "client_FindRangeBlocksByHeight c startHeight endHeight =
     andThen (client_GetBlockByHeight c endHeight) (\<lambda>(endId, mb).
     getChainBlocks c startHeight endId)"

section \<open>Subscription\<close>

text \<open>
  \<^verbatim>\<open>MustSubscribeBlocks\<close> of \<^verbatim>\<open>btcclient/client_block_subscriber.go\<close>: by the backend's name,
  with Lorenzo's retry loop around the websocket call and the subscription of the ZMQ client
  as parameters. Each panics on an error; another backend name does nothing.
\<close>

definition mustSubscribeBlocksByWebSocket ::
  "(('w, unit) action \<Rightarrow> ('w, unit) action) \<Rightarrow> 'w rpc_client \<Rightarrow> ('w, unit) action" where
  "mustSubscribeBlocksByWebSocket retry c = orPanic (retry (NotifyBlocks c))"

definition mustSubscribeBlocksByZmq :: "('w, unit) action \<Rightarrow> ('w, unit) action" where
  "mustSubscribeBlocksByZmq subscribeSequence = orPanic subscribeSequence"

definition client_MustSubscribeBlocks ::
  "string \<Rightarrow> (('w, unit) action \<Rightarrow> ('w, unit) action) \<Rightarrow> ('w, unit) action \<Rightarrow> 'w rpc_client
    \<Rightarrow> ('w, unit) action" where
  "client_MustSubscribeBlocks backend retry subscribeSequence c =
     (if backend = ''btcd'' then mustSubscribeBlocksByWebSocket retry c
      else if backend = ''bitcoind'' then mustSubscribeBlocksByZmq subscribeSequence
      else lift (Ok ()))"

definition client_of ::
  "string \<Rightarrow> (('w, unit) action \<Rightarrow> ('w, unit) action) \<Rightarrow> ('w, unit) action \<Rightarrow> 'w rpc_client
    \<Rightarrow> 'w btc_client" where
  "client_of backend retry subscribeSequence c =
     \<lparr>GetBestBlock = client_GetBestBlock c,
      GetBlockByHash = client_GetBlockByHash c,
      GetBlockByHeight = client_GetBlockByHeight c,
      FindTailBlocksByHeight = client_FindTailBlocksByHeight c,
      FindRangeBlocksByHeight = client_FindRangeBlocksByHeight c,
      MustSubscribeBlocks = client_MustSubscribeBlocks backend retry subscribeSequence c\<rparr>"

section \<open>What the interface promises\<close>

text \<open>
  A Bitcoin node indexes its blocks by hash in a tree: the block it returns for a hash has
  that hash, the height it reports is a function \<open>hgt\<close> of the hash, one more than its
  parent's (the hash before the genesis block counts as -1), and heights fit an \<^verbatim>\<open>int32\<close>.
\<close>

definition node_lawful :: "header_funs \<Rightarrow> (hash \<Rightarrow> int) \<Rightarrow> 'w rpc_client \<Rightarrow> bool" where
  "node_lawful hf hgt c \<longleftrightarrow>
     (\<forall>h. - 1 \<le> hgt h \<and> hgt h < 2 ^ 31)
     \<and> (\<forall>h w v w'. GetBlockVerbose c h w = (Ok v, w') \<longrightarrow> sint v = hgt h)
     \<and> (\<forall>h w mb w'. GetBlock c h w = (Ok mb, w') \<longrightarrow>
          hf_BlockHash hf (mb_Header mb) = h \<and> hgt h = hgt (PrevBlock (mb_Header mb)) + 1)"

text \<open>A block at the height the node knows it by.\<close>

definition on_node :: "header_funs \<Rightarrow> (hash \<Rightarrow> int) \<Rightarrow> indexed_block \<Rightarrow> bool" where
  "on_node hf hgt b \<longleftrightarrow> ht b = hgt (BlockHash (hf_BlockHash hf) b)
     \<and> hgt (BlockHash (hf_BlockHash hf) b) = hgt (PrevBlock (Header b)) + 1"

text \<open>
  The promises of the interface to its clients: an answer for a hash is the block with that
  hash; a tail or a range is a non-empty chain of blocks of the node that starts at the
  asked height.
\<close>

locale block_source =
  fixes hf :: header_funs and hgt :: "hash \<Rightarrow> int" and ok :: "'n \<Rightarrow> bool"
    and byHash :: "'n \<Rightarrow> hash \<Rightarrow> ('w, indexed_block \<times> msg_block) action"
    and findTail :: "'n \<Rightarrow> u64 \<Rightarrow> ('w, indexed_block list) action"
    and findRange :: "'n \<Rightarrow> u64 \<Rightarrow> u64 \<Rightarrow> ('w, indexed_block list) action"
  assumes byHash: "ok c \<Longrightarrow> byHash c h w = (Ok (ib, mb), w') \<Longrightarrow>
      BlockHash (hf_BlockHash hf) ib = h \<and> Header ib = mb_Header mb \<and> on_node hf hgt ib"
    and findTail: "ok c \<Longrightarrow> findTail c base w = (Ok bs, w') \<Longrightarrow>
      bs \<noteq> [] \<and> chain (hf_BlockHash hf) bs \<and> (\<forall>b \<in> set bs. on_node hf hgt b)
      \<and> ht (hd bs) = uint base"
    and findRange: "ok c \<Longrightarrow> findRange c base high w = (Ok bs, w') \<Longrightarrow>
      bs \<noteq> [] \<and> chain (hf_BlockHash hf) bs \<and> (\<forall>b \<in> set bs. on_node hf hgt b)
      \<and> ht (hd bs) = uint base"
begin

text \<open>A block fetched by hash sits on any block of the node its header names as parent.\<close>

lemma byHash_linked:
  assumes "ok c" and "byHash c h w = (Ok (ib, mb), w')"
    and "on_node hf hgt t" and "PrevBlock (mb_Header mb) = BlockHash (hf_BlockHash hf) t"
  shows "linked (hf_BlockHash hf) t ib"
  using byHash [OF assms(1,2)] assms(3,4) by (auto simp: linked_def on_node_def)

lemma byHash_on_node: "ok c \<Longrightarrow> byHash c h w = (Ok (ib, mb), w') \<Longrightarrow> on_node hf hgt ib"
  using byHash by blast

lemma tail_nth:
  assumes "ok c" and "findTail c base w = (Ok bs, w')" and "i < length bs"
  shows "ht (bs ! i) = uint base + int i"
  using findTail [OF assms(1,2)] chain_ht_nth [OF _ assms(3)] by auto

end

text \<open>The client's loop is a walk along parent hashes.\<close>

abbreviation chainFetch :: "'w rpc_client \<Rightarrow> hash \<Rightarrow> ('w, indexed_block \<times> msg_block) action" where
  "chainFetch c h \<equiv> wrapErr ''failed to get block by hash'' (client_GetBlockByHash c h)"

interpretation btc_walk: parent_walk "chainFetch c" fst
  "\<lambda>x. PrevBlock (mb_Header (snd x))" "chainLoop c"
  for c :: "'w rpc_client"
  by unfold_locales (simp_all add: split_def)

lemma client_GetBlockByHash_lawful:
  assumes "node_lawful hf hgt c" and "client_GetBlockByHash c h w = (Ok (ib, mb), w')"
  shows "BlockHash (hf_BlockHash hf) ib = h" and "Header ib = mb_Header mb" and "on_node hf hgt ib"
proof -
  from assms(2) obtain v w1 w2 where v: "GetBlockVerbose c h w = (Ok v, w1)"
    and mb: "GetBlock c h w1 = (Ok mb, w2)"
    and ib: "ib = NewIndexedBlock (ucast v) (mb_Header mb) (GetWrappedTxs mb)"
    by (auto simp: client_GetBlockByHash_def outcome_Ok_iffs)
  from assms(1) v mb have law: "sint v = hgt h" "- 1 \<le> hgt h" "hgt h < 2 ^ 31"
    "hf_BlockHash hf (mb_Header mb) = h" "hgt h = hgt (PrevBlock (mb_Header mb)) + 1"
    unfolding node_lawful_def by blast+
  then have "sint (ucast v :: i32) = hgt h"
    by (intro sint_ucast_i32 [THEN trans]) auto
  then show "BlockHash (hf_BlockHash hf) ib = h" and "Header ib = mb_Header mb"
    and "on_node hf hgt ib"
    using law by (simp_all add: ib BlockHash_def NewIndexedBlock_def on_node_def)
qed

lemma on_node_height_nonneg:
  assumes "node_lawful hf hgt c" and "on_node hf hgt b"
  shows "0 \<le> ht b"
proof -
  have "- 1 \<le> hgt (PrevBlock (Header b))" using assms(1) by (simp add: node_lawful_def)
  then show ?thesis using assms(2) by (simp add: on_node_def)
qed

lemma getChainBlocks_lawful:
  assumes law: "node_lawful hf hgt c" and tip: "on_node hf hgt tip"
    and run: "getChainBlocks c base tip w = (Ok bs, w')"
  shows "bs \<noteq> []" and "chain (hf_BlockHash hf) bs" and "\<forall>b \<in> set bs. on_node hf hgt b"
    and "ht (hd bs) = uint base" and "last bs = tip"
proof -
  let ?t = "uint64_of_int32 (Height tip)" and ?H = "hf_BlockHash hf"
  define n where "n = ?t - base + 1"
  have ht_tip: "uint ?t = ht tip"
    using on_node_height_nonneg [OF law tip] by (rule uint_scast_i32)
  have le: "base \<le> ?t" and n0: "n \<noteq> 0"
    and walk: "chainLoop c (unat n - 1) (PrevBlock (Header tip)) [tip] w = (Ok bs, w')
      \<or> (?t = base \<and> bs = [tip])"
    using run by (auto simp: getChainBlocks_def Let_def n_def not_less split: if_splits)
  have n: "unat n = unat ?t - unat base + 1"
    using le n0 unfolding n_def by (subst (asm) add.commute, subst add.commute) (simp add: unatSuc unat_sub)
  have tip1: "?t = base \<Longrightarrow> chainLoop c (unat n - 1) (PrevBlock (Header tip)) [tip] w = (Ok [tip], w)"
    using n by simp
  then obtain w1 where run': "chainLoop c (unat n - 1) (PrevBlock (Header tip)) [tip] w = (Ok bs, w1)"
    using walk by auto
  have ans: "on_node hf hgt (fst x) \<and> BlockHash ?H (fst x) = g \<and> Header (fst x) = mb_Header (snd x)"
    if "answers (chainFetch c) g x" for g x
    using that client_GetBlockByHash_lawful [OF law]
    by (cases x) (auto simp: answers_def wrapErr_Ok_iff)
  show ch: "chain ?H bs"
    unfolding chain_def
  proof (rule btc_walk.walk_linked [OF run'])
    show "linked ?H (fst x) (fst y)"
      if "answers (chainFetch c) (PrevBlock (mb_Header (snd y))) x" "answers (chainFetch c) g y" for g x y
      using ans [OF that(1)] ans [OF that(2)] by (auto simp: linked_def on_node_def)
    show "linked ?H (fst x) tip" if "answers (chainFetch c) (PrevBlock (Header tip)) x" for x
      using ans [OF that] tip by (auto simp: linked_def on_node_def)
  qed simp
  show "\<forall>b \<in> set bs. on_node hf hgt b"
    using btc_walk.walk_set [OF run'] ans tip by fastforce
  have len: "length bs = unat n"
    using btc_walk.walk_length [OF run'] n by simp
  then show ne: "bs \<noteq> []" using n by auto
  show last: "last bs = tip"
    using btc_walk.walk_last [OF run'] by simp
  have "uint base \<le> uint ?t" using le by (simp add: word_le_def)
  then have "int (length bs) = uint ?t - uint base + 1"
    using le by (simp add: len n of_nat_diff word_le_nat_alt)
  then show "ht (hd bs) = uint base"
    using chain_ht_last [OF ch ne] by (simp add: last ht_tip)
qed

interpretation client_source: block_source hf hgt "node_lawful hf hgt"
  client_GetBlockByHash client_FindTailBlocksByHeight client_FindRangeBlocksByHeight
  for hf hgt
proof
  fix c :: "'w rpc_client" and h base high w ib mb w' bs
  assume law: "node_lawful hf hgt c"
  show "BlockHash (hf_BlockHash hf) ib = h \<and> Header ib = mb_Header mb \<and> on_node hf hgt ib"
    if "client_GetBlockByHash c h w = (Ok (ib, mb), w')"
    using client_GetBlockByHash_lawful [OF law that] by blast
  show "bs \<noteq> [] \<and> chain (hf_BlockHash hf) bs \<and> (\<forall>b \<in> set bs. on_node hf hgt b)
      \<and> ht (hd bs) = uint base"
    if tail: "client_FindTailBlocksByHeight c base w = (Ok bs, w')"
  proof -
    obtain tip w1 where tip: "getBestIndexedBlock c w = (Ok tip, w1)"
      and run: "getChainBlocks c base tip w1 = (Ok bs, w')"
      using tail by (auto simp: client_FindTailBlocksByHeight_def andThen_Ok_iff split: if_splits)
    from tip have "on_node hf hgt tip"
      using client_GetBlockByHash_lawful(3) [OF law]
      by (auto simp: getBestIndexedBlock_def outcome_Ok_iffs)
    from getChainBlocks_lawful [OF law this run] show ?thesis by simp
  qed
  show "bs \<noteq> [] \<and> chain (hf_BlockHash hf) bs \<and> (\<forall>b \<in> set bs. on_node hf hgt b)
      \<and> ht (hd bs) = uint base"
    if range: "client_FindRangeBlocksByHeight c base high w = (Ok bs, w')"
  proof -
    obtain tip mb w0 w1 where tip: "client_GetBlockByHeight c high w = (Ok (tip, mb), w1)"
      and run: "getChainBlocks c base tip w1 = (Ok bs, w')"
      using range by (auto simp: client_FindRangeBlocksByHeight_def andThen_Ok_iff)
    from tip have "on_node hf hgt tip"
      using client_GetBlockByHash_lawful(3) [OF law]
      by (auto simp: client_GetBlockByHeight_def outcome_Ok_iffs)
    from getChainBlocks_lawful [OF law this run] show ?thesis by simp
  qed
qed

text \<open>
  The reporter holds a client behind the interface: the promises as a predicate on it, which
  the implementation satisfies over a lawful node.
\<close>

definition client_lawful :: "header_funs \<Rightarrow> (hash \<Rightarrow> int) \<Rightarrow> 'w btc_client \<Rightarrow> bool" where
  "client_lawful hf hgt c \<longleftrightarrow>
     (\<forall>h w ib mb w'. GetBlockByHash c h w = (Ok (ib, mb), w') \<longrightarrow>
        BlockHash (hf_BlockHash hf) ib = h \<and> Header ib = mb_Header mb \<and> on_node hf hgt ib)
     \<and> (\<forall>base w bs w'. FindTailBlocksByHeight c base w = (Ok bs, w') \<longrightarrow>
        bs \<noteq> [] \<and> chain (hf_BlockHash hf) bs \<and> (\<forall>b \<in> set bs. on_node hf hgt b)
        \<and> ht (hd bs) = uint base)
     \<and> (\<forall>base high w bs w'. FindRangeBlocksByHeight c base high w = (Ok bs, w') \<longrightarrow>
        bs \<noteq> [] \<and> chain (hf_BlockHash hf) bs \<and> (\<forall>b \<in> set bs. on_node hf hgt b)
        \<and> ht (hd bs) = uint base)"

interpretation held_source: block_source hf hgt "client_lawful hf hgt"
  GetBlockByHash FindTailBlocksByHeight FindRangeBlocksByHeight
  for hf hgt
  by unfold_locales (unfold client_lawful_def, blast+)

lemma client_of_lawful:
  "node_lawful hf hgt c \<Longrightarrow> client_lawful hf hgt (client_of backend retry sub c)"
  unfolding client_lawful_def client_of_def
  by (auto dest: client_source.byHash client_source.findTail client_source.findRange)

end
