(* ===== verification/Hex.thy ===== *)
theory Hex
  imports Prelude
begin

text \<open>
  Go's \<^verbatim>\<open>encoding/hex\<close>, as far as the program uses it: \<^verbatim>\<open>EncodeToString\<close> and \<^verbatim>\<open>DecodeString\<close>. A Go
  string is a string of bytes, here a \<^verbatim>\<open>string\<close> of 8-bit characters. Decoding what was encoded
  gives it back, which the ZMQ handler and the UTXO constructor rely on.
\<close>

definition hexDigit :: "nat \<Rightarrow> char" where
  "hexDigit n = ''0123456789abcdef'' ! n"

fun EncodeToString :: "string \<Rightarrow> string" where
  "EncodeToString [] = []"
| "EncodeToString (c # cs) =
     hexDigit (of_char c div 16) # hexDigit (of_char c mod 16) # EncodeToString cs"

definition fromHexChar :: "char \<Rightarrow> nat option" where
  "fromHexChar c =
     (let n = of_char c in
      if 48 \<le> n \<and> n \<le> 57 then Some (n - 48)
      else if 97 \<le> n \<and> n \<le> 102 then Some (n - 87)
      else if 65 \<le> n \<and> n \<le> 70 then Some (n - 55)
      else None)"

fun DecodeString :: "string \<Rightarrow> string outcome" where
  "DecodeString [] = Ok []"
| "DecodeString [c] = (case fromHexChar c of
     None \<Rightarrow> Err (ErrMessage ''encoding/hex: invalid byte'')
   | Some _ \<Rightarrow> Err (ErrMessage ''encoding/hex: odd length hex string''))"
| "DecodeString (c # d # cs) =
     (case (fromHexChar c, fromHexChar d) of
        (Some m, Some n) \<Rightarrow> thenOk (DecodeString cs) (\<lambda>rest. Ok (char_of (16 * m + n) # rest))
      | _ \<Rightarrow> Err (ErrMessage ''encoding/hex: invalid byte''))"

lemma length_EncodeToString [simp]: "length (EncodeToString s) = 2 * length s"
  by (induction s) simp_all

lemma fromHexChar_all: "list_all (\<lambda>n. fromHexChar (hexDigit n) = Some n) [0..<16]"
  by code_simp

lemma fromHexChar_hexDigit [simp]: "n < 16 \<Longrightarrow> fromHexChar (hexDigit n) = Some n"
  using fromHexChar_all by (simp add: list_all_iff)

lemma of_char_less_256: "(of_char c :: nat) < 256"
  by (metis nat_of_char_less_256)

lemma DecodeString_EncodeToString [simp]: "DecodeString (EncodeToString s) = Ok s"
proof (induction s)
  case (Cons c cs)
  have "(of_char c :: nat) div 16 < 16"
    by (rule less_mult_imp_div_less) (simp add: of_char_less_256)
  then show ?case using Cons by simp
qed simp

end
