(* ===== verification/Zmq.thy ===== *)
theory Zmq
  imports Step_Runs Btc_Client Hex
begin

text \<open>
  The ZMQ client (\<^verbatim>\<open>zmq/client.go\<close>, \<^verbatim>\<open>zmq/subscribe.go\<close>): its construction, the subscription to
  bitcoind's \<^verbatim>\<open>sequence\<close> messages, the handler goroutine that turns them into block events, and
  \<^verbatim>\<open>Close\<close>. The sockets of \<^verbatim>\<open>zmq4\<close>, the hash parser of btcd and the RPC client are a parameter.

  The mutex of \<^verbatim>\<open>subscriptions\<close> is a flag. Every critical section that releases it is one atomic step,
  since nothing in it waits for another goroutine; a section that returns without releasing it leaves
  the flag set, and a later \<^verbatim>\<open>Lock\<close> waits forever.
\<close>

section \<open>State\<close>

datatype zmq_socket = ZSub | ZBack

datatype zmq_setup = NewContext | NewSocket string | Connect string | Bind string

record 'w zmq_lib =
  Setup :: "zmq_setup \<Rightarrow> ('w, unit) action"
  Poll :: "('w, zmq_socket list) action"
  RecvSub :: "('w, string list) action"
  RecvBack :: "('w, string list) action"
  SendFront :: "string list \<Rightarrow> ('w, unit) action"
  SetSubscribe :: "string \<Rightarrow> ('w, unit) action"
  SetUnsubscribe :: "string \<Rightarrow> ('w, unit) action"
  CloseFront :: "('w, unit) action"
  CloseBack :: "('w, unit) action"
  CloseSub :: "('w, unit) action"
  Term :: "('w, unit) action"
  NewHashFromStr :: "string \<Rightarrow> hash outcome"
  rpcClient :: "'w rpc_client"

text \<open>
  Where the handler goroutine is: waiting in \<^verbatim>\<open>Poll\<close>, at the sockets that were polled, at the send of
  an event to the channel, past the loop, returned, or dead of a panic.
\<close>

datatype handler_pc =
    Polling
  | Serving "zmq_socket list"
  | SendingEvent block_event "zmq_socket list"
  | Leaving
  | Ended
  | Died panic

text \<open>Where a call of \<^verbatim>\<open>Close\<close> is: none made, waiting for \<^verbatim>\<open>exited\<close>, waiting for the handler, returned.\<close>

datatype closer_pc = NotClosing | AwaitingExit | AwaitingHandler | CloseReturned

record 'w zmq_client =
  hasSub :: bool
  hasFront :: bool
  hasCtx :: bool
  zclosed :: bool
  quitted :: bool
  locked :: bool
  exited :: bool
  active :: bool
  handler :: handler_pc
  closer :: closer_pc
  eventChan :: "block_event list"
  eventChanClosed :: bool
  taken :: "block_event list"
  zworld :: 'w

text \<open>The capacity \<^verbatim>\<open>NewWithBlockSubscriber\<close> gives the event channel.\<close>

definition eventChanCapacity :: nat where "eventChanCapacity = 10000"

definition zcall :: "('w, 'a) action \<Rightarrow> ('w zmq_client, 'a) action" where
  "zcall m c = (case m (zworld c) of (r, w) \<Rightarrow> (r, c\<lparr>zworld := w\<rparr>))"

section \<open>Errors\<close>

definition ErrSubscribeDisabled :: go_error where
  "ErrSubscribeDisabled = ErrMessage ''subscribe disabled (ZmqEndpoint was not set)''"

definition ErrSubscribeExited :: go_error where
  "ErrSubscribeExited = ErrMessage ''subscription backend has exited''"

definition ErrSubscriptionAlreadyActive :: go_error where
  "ErrSubscriptionAlreadyActive = ErrMessage ''active subscription already exists''"

section \<open>Construction\<close>

definition zmqSetups :: "string \<Rightarrow> zmq_setup list" where
  "zmqSetups zmqEndpoint =
     [NewContext, NewSocket ''SUB'', Connect zmqEndpoint, NewSocket ''PAIR'', Bind ''inproc://channel'',
      NewSocket ''PAIR'', Connect ''inproc://channel'']"

fun runSetups :: "'w zmq_lib \<Rightarrow> zmq_setup list \<Rightarrow> ('w, unit) action" where
  "runSetups lib [] w = (Ok (), w)"
| "runSetups lib (a # as) w = andThen (Setup lib a) (\<lambda>_. runSetups lib as) w"

definition newZmqClient :: "'w \<Rightarrow> 'w zmq_client" where
  "newZmqClient w =
     \<lparr>hasSub = True, hasFront = True, hasCtx = True, zclosed = False, quitted = False, locked = False,
      exited = False, active = False, handler = Polling, closer = NotClosing, eventChan = [],
      eventChanClosed = False, taken = [], zworld = w\<rparr>"

definition zmqNew :: "'w zmq_lib \<Rightarrow> string \<Rightarrow> ('w, 'w zmq_client) action" where
  "zmqNew lib zmqEndpoint =
     andThen (runSetups lib (zmqSetups zmqEndpoint)) (\<lambda>_ w. (Ok (newZmqClient w), w))"

section \<open>Subscription\<close>

text \<open>
  The two returns without \<^verbatim>\<open>Unlock\<close>, of an active subscription and of a missing socket, keep the lock.
\<close>

definition SubscribeSequence :: "'w zmq_lib \<Rightarrow> ('w zmq_client, unit) action" where
  "SubscribeSequence lib c =
     (if \<not> hasSub c then (Err ErrSubscribeDisabled, c)
      else if locked c then (Hang, c)
      else if exited c then (Err ErrSubscribeExited, c)
      else if active c then (Err ErrSubscriptionAlreadyActive, c\<lparr>locked := True\<rparr>)
      else if \<not> hasFront c then (Err (ErrMessage ''zfront is not initialized''), c\<lparr>locked := True\<rparr>)
      else case zcall (SendFront lib [''subscribe'', ''sequence'']) c of
          (Ok _, c') \<Rightarrow> (Ok (), c'\<lparr>active := True\<rparr>)
        | r \<Rightarrow> r)"

section \<open>The handler goroutine\<close>

definition zmq_getBlockByHash :: "'w rpc_client \<Rightarrow> hash \<Rightarrow> ('w, indexed_block \<times> msg_block) action" where
  "zmq_getBlockByHash c blockHash =
     andThen (GetBlockVerbose c blockHash) (\<lambda>height.
     andThen (GetBlock c blockHash) (\<lambda>mBlock.
     lift (Ok (NewIndexedBlock (ucast height) (mb_Header mBlock) (GetWrappedTxs mBlock), mBlock))))"

text \<open>\<^verbatim>\<open>sendBlockEvent\<close> up to the send itself, which is a step of its own since it may have to wait.\<close>

definition sendBlockEvent ::
  "'w zmq_lib \<Rightarrow> string \<Rightarrow> event_type \<Rightarrow> zmq_socket list \<Rightarrow> ('w zmq_client, handler_pc) action" where
  "sendBlockEvent lib hsh event ps =
     andThen (orPanic (lift (NewHashFromStr lib (EncodeToString hsh)))) (\<lambda>blockHash.
     andThen (orPanic (zcall (zmq_getBlockByHash (rpcClient lib) blockHash))) (\<lambda>(ib, _).
     lift (Ok (SendingEvent (NewBlockEvent event (Height ib) (Header ib)) ps))))"

text \<open>
  A \<^verbatim>\<open>sequence\<close> message: 32 bytes of the block hash, then the label. The label is read at index 32,
  whatever the length of the message.
\<close>

definition labelEvent :: "char \<Rightarrow> event_type option" where
  "labelEvent l =
     (if l = CHR ''C'' then Some BlockConnected
      else if l = CHR ''D'' then Some BlockDisconnected else None)"

definition onSequence ::
  "'w zmq_lib \<Rightarrow> string \<Rightarrow> zmq_socket list \<Rightarrow> ('w zmq_client, handler_pc) action" where
  "onSequence lib body ps =
     (if length body \<le> 32 then lift (Panic IndexOutOfRange)
      else case labelEvent (body ! 32) of
          None \<Rightarrow> lift (Ok (Serving ps))
        | Some event \<Rightarrow> sendBlockEvent lib (take 32 body) event ps)"

definition onMessage ::
  "'w zmq_lib \<Rightarrow> zmq_socket list \<Rightarrow> string list \<Rightarrow> ('w zmq_client, handler_pc) action" where
  "onMessage lib ps msg = (case msg of
     [] \<Rightarrow> lift (Panic IndexOutOfRange)
   | topic # parts \<Rightarrow>
       if topic = ''sequence''
       then (case parts of [] \<Rightarrow> lift (Panic IndexOutOfRange) | body # _ \<Rightarrow> onSequence lib body ps)
       else lift (Ok (Serving ps)))"

definition serveSub :: "'w zmq_lib \<Rightarrow> zmq_socket list \<Rightarrow> ('w zmq_client, handler_pc) action" where
  "serveSub lib ps = andThen (zcall (RecvSub lib)) (onMessage lib ps)"

definition onCommand ::
  "'w zmq_lib \<Rightarrow> zmq_socket list \<Rightarrow> string list \<Rightarrow> ('w zmq_client, handler_pc) action" where
  "onCommand lib ps msg = (case msg of
     [] \<Rightarrow> lift (Panic IndexOutOfRange)
   | topic # parts \<Rightarrow>
       if topic = ''subscribe''
       then (case parts of
           [] \<Rightarrow> lift (Panic IndexOutOfRange)
         | opt # _ \<Rightarrow> andThen (zcall (SetSubscribe lib opt)) (\<lambda>_. lift (Ok (Serving ps))))
       else if topic = ''term'' then lift (Ok Leaving)
       else lift (Ok (Serving ps)))"

definition serveBack :: "'w zmq_lib \<Rightarrow> zmq_socket list \<Rightarrow> ('w zmq_client, handler_pc) action" where
  "serveBack lib ps = andThen (zcall (RecvBack lib)) (onCommand lib ps)"

text \<open>
  Past the loop: the lock is taken, \<^verbatim>\<open>exited\<close> closed, \<^verbatim>\<open>zfront\<close> closed and an active subscription
  cancelled; an error of either is logged and returns with the lock held. The deferred closes follow.
\<close>

definition deferredCloses :: "'w zmq_lib \<Rightarrow> ('w zmq_client, handler_pc) action" where
  "deferredCloses lib =
     andThen (logErr (zcall (CloseBack lib))) (\<lambda>_.
     andThen (logErr (zcall (CloseSub lib))) (\<lambda>_.
     lift (Ok Ended)))"

definition branch :: "('s, 'a) action \<Rightarrow> ('s, 'b) action \<Rightarrow> ('s, 'b) action \<Rightarrow> ('s, 'b) action" where
  "branch m f g s = (case m s of (Ok _, s') \<Rightarrow> f s' | (Err _, s') \<Rightarrow> g s' | (e, s') \<Rightarrow> (reraise e, s'))"

definition lockAndExit :: "('w zmq_client, unit) action" where
  "lockAndExit c = (Ok (), c\<lparr>locked := True, exited := True\<rparr>)"

definition unlock :: "('w zmq_client, unit) action" where
  "unlock c = (Ok (), c\<lparr>locked := False\<rparr>)"

definition leave :: "'w zmq_lib \<Rightarrow> ('w zmq_client, handler_pc) action" where
  "leave lib =
     andThen lockAndExit (\<lambda>_.
     branch (zcall (CloseFront lib))
       (\<lambda>c. if active c
            then branch (zcall (SetUnsubscribe lib ''sequence''))
              (andThen unlock (\<lambda>_. deferredCloses lib)) (deferredCloses lib) c
            else andThen unlock (\<lambda>_. deferredCloses lib) c)
       (deferredCloses lib))"

text \<open>
  One step of the handler, \<open>None\<close> while it has to wait. Every error of the loop's body breaks out of
  the loop, a panic ends the process.
\<close>

definition proceed :: "('w zmq_client, handler_pc) action \<Rightarrow> 'w zmq_client \<Rightarrow> 'w zmq_client option" where
  "proceed m c = (case m c of
     (Ok q, c') \<Rightarrow> Some (c'\<lparr>handler := q\<rparr>)
   | (Err _, c') \<Rightarrow> Some (c'\<lparr>handler := Leaving\<rparr>)
   | (Panic p, c') \<Rightarrow> Some (c'\<lparr>handler := Died p\<rparr>)
   | (Hang, _) \<Rightarrow> None)"

definition sendEvent :: "block_event \<Rightarrow> zmq_socket list \<Rightarrow> 'w zmq_client \<Rightarrow> 'w zmq_client option" where
  "sendEvent e ps c =
     (if eventChanClosed c then Some (c\<lparr>handler := Died SendOnClosedChannel\<rparr>)
      else if length (eventChan c) < eventChanCapacity
      then Some (c\<lparr>eventChan := eventChan c @ [e], handler := Serving ps\<rparr>)
      else None)"

definition handlerStep :: "'w zmq_lib \<Rightarrow> 'w zmq_client \<Rightarrow> 'w zmq_client option" where
  "handlerStep lib c = (case handler c of
     Polling \<Rightarrow> proceed (andThen (zcall (Poll lib)) (\<lambda>polled. lift (Ok (Serving polled)))) c
   | Serving [] \<Rightarrow> Some (c\<lparr>handler := Polling\<rparr>)
   | Serving (ZSub # ps) \<Rightarrow> proceed (serveSub lib ps) c
   | Serving (ZBack # ps) \<Rightarrow> proceed (serveBack lib ps) c
   | SendingEvent e ps \<Rightarrow> sendEvent e ps c
   | Leaving \<Rightarrow> if locked c then None else proceed (leave lib) c
   | _ \<Rightarrow> None)"

section \<open>Close\<close>

text \<open>The first call of \<^verbatim>\<open>Close\<close>, up to its wait for \<^verbatim>\<open>exited\<close>; a later one is refused.\<close>

definition closeBegin :: "'w zmq_lib \<Rightarrow> ('w zmq_client, unit) action" where
  "closeBegin lib c =
     (if zclosed c then (Err (ErrMessage ''client already closed''), c)
      else if \<not> hasCtx c then (Ok (), c\<lparr>zclosed := True, closer := AwaitingHandler, quitted := True\<rparr>)
      else if locked c then (Hang, c\<lparr>zclosed := True\<rparr>)
      else if exited c then (Ok (), c\<lparr>zclosed := True, closer := AwaitingExit\<rparr>)
      else case zcall (SendFront lib [''term'']) (c\<lparr>zclosed := True\<rparr>) of
          (Ok _, c') \<Rightarrow> (Ok (), c'\<lparr>closer := AwaitingExit\<rparr>)
        | (e, c') \<Rightarrow> (e, c'\<lparr>locked := True\<rparr>))"

text \<open>After \<^verbatim>\<open>exited\<close> was closed.\<close>

definition closeTerm :: "'w zmq_lib \<Rightarrow> ('w zmq_client, unit) action" where
  "closeTerm lib c =
     (case zcall (Term lib) c of
        (Ok _, c') \<Rightarrow> (Ok (), c'\<lparr>quitted := True, closer := AwaitingHandler\<rparr>)
      | (e, c') \<Rightarrow> (e, c'\<lparr>closer := CloseReturned\<rparr>))"

text \<open>
  The steps of the client: its handler's, the reads of the channel by the reporter (which \<open>taken\<close>
  records), and the calls of the other goroutines; \<open>stopped\<close> is \<^verbatim>\<open>Client.Stop\<close> of the Bitcoin client,
  which closes the channel under the handler.
\<close>

inductive zmq_step :: "'w zmq_lib \<Rightarrow> 'w zmq_client \<Rightarrow> 'w zmq_client \<Rightarrow> bool" for lib where
  handle: "handlerStep lib c = Some c' \<Longrightarrow> zmq_step lib c c'"
| receive: "eventChan c = e # es \<Longrightarrow>
    zmq_step lib c (c\<lparr>eventChan := es, taken := taken c @ [e]\<rparr>)"
| subscribe: "zmq_step lib c (snd (SubscribeSequence lib c))"
| close: "zmq_step lib c (snd (closeBegin lib c))"
| terminate: "closer c = AwaitingExit \<Longrightarrow> exited c \<Longrightarrow> zmq_step lib c (snd (closeTerm lib c))"
| stopped: "zmq_step lib c (c\<lparr>eventChanClosed := True\<rparr>)"
| wait: "closer c = AwaitingHandler \<Longrightarrow> handler c = Ended \<Longrightarrow>
    zmq_step lib c (c\<lparr>closer := CloseReturned\<rparr>)"

inductive_cases zmq_stepE: "zmq_step lib c c'"

abbreviation zmq_reaches :: "'w zmq_lib \<Rightarrow> 'w zmq_client \<Rightarrow> 'w zmq_client \<Rightarrow> bool" where
  "zmq_reaches lib \<equiv> (zmq_step lib)\<^sup>*\<^sup>*"

interpretation zmq_runs: stepping "zmq_step lib" "zmq_reaches lib" for lib
proof
  show "zmq_reaches lib s u" if "zmq_reaches lib s t" "zmq_step lib t u" for s t u :: "'a zmq_client"
    using that by (rule rtranclp.rtrancl_into_rtrancl)
  show "P t" if "zmq_reaches lib s t" "P s" "\<And>t u. P t \<Longrightarrow> zmq_step lib t u \<Longrightarrow> P u"
    for s t :: "'a zmq_client" and P
    using that by (induction rule: rtranclp_induct) auto
qed simp

end
