(* ===== verification/Zmq_Runs.thy ===== *)
theory Zmq_Runs
  imports Zmq
begin

text \<open>
  What holds in every state the ZMQ client reaches: a lock that was left held stays held, with the
  handler and \<^verbatim>\<open>Close\<close> waiting for it; and the events that reach the reporter are those of the
  messages of bitcoind, in their order.
\<close>

section \<open>Calls that touch only the outside world\<close>

text \<open>An action of the client that changes nothing of its state.\<close>

definition outer :: "('w zmq_client, 'a) action \<Rightarrow> bool" where
  "outer m \<longleftrightarrow> (\<forall>c. \<exists>w. snd (m c) = c\<lparr>zworld := w\<rparr>)"

named_theorems outer_intros \<open>actions of the ZMQ client on the world only\<close>

lemma outerD: "outer m \<Longrightarrow> m c = (x, c') \<Longrightarrow> \<exists>w. c' = c\<lparr>zworld := w\<rparr>"
  unfolding outer_def by (metis snd_conv)

lemma outer_zcall [outer_intros]: "outer (zcall m)"
  by (auto simp: outer_def zcall_def split: prod.splits)

lemma outer_lift [outer_intros]: "outer (lift r)"
proof -
  have "snd (lift r c) = c\<lparr>zworld := zworld c\<rparr>" for c by simp
  then show ?thesis unfolding outer_def by blast
qed

lemma outer_andThen [outer_intros]:
  assumes "outer m" and "\<And>x. outer (f x)"
  shows "outer (andThen m f)"
  unfolding outer_def
proof
  fix c
  obtain r c' where m: "m c = (r, c')" by (cases "m c")
  then obtain w where w: "c' = c\<lparr>zworld := w\<rparr>" using outerD [OF assms(1)] by blast
  show "\<exists>w. snd (andThen m f c) = c\<lparr>zworld := w\<rparr>"
  proof (cases r)
    case (Ok x)
    obtain w' where "snd (f x c') = c'\<lparr>zworld := w'\<rparr>" using assms(2) unfolding outer_def by blast
    then show ?thesis using m Ok w by (auto simp: andThen_def)
  qed (use m w in \<open>auto simp: andThen_def\<close>)
qed

lemma outer_orPanic [outer_intros]: "outer m \<Longrightarrow> outer (orPanic m)"
  by (simp add: outer_def)

lemma outer_logErr [outer_intros]: "outer m \<Longrightarrow> outer (logErr m)"
  by (simp add: outer_def)

lemma outer_serveSub [outer_intros]: "outer (serveSub lib ps)"
  unfolding serveSub_def onMessage_def onSequence_def sendBlockEvent_def
  by (auto intro!: outer_intros split: list.splits option.splits prod.splits if_splits)

lemma outer_serveBack [outer_intros]: "outer (serveBack lib ps)"
  unfolding serveBack_def onCommand_def
  by (rule outer_andThen) (simp_all add: outer_zcall outer_lift outer_andThen split: list.split)

lemma outer_deferredCloses [outer_intros]: "outer (deferredCloses lib)"
  unfolding deferredCloses_def by (auto intro!: outer_intros)

lemma proceed_outer:
  assumes "proceed m c = Some c'" and "outer m"
  shows "\<exists>w q. c' = c\<lparr>zworld := w, handler := q\<rparr>"
  using assms(1) outerD [OF assms(2)]
  by (fastforce simp: proceed_def split: prod.splits outcome.splits)

text \<open>A step of the handler before it leaves the loop: a step in the world, or a send.\<close>

lemma handlerStep_cases:
  assumes "handlerStep lib c = Some c'"
  obtains (outside) w q where "c' = c\<lparr>zworld := w, handler := q\<rparr>" and "handler c \<noteq> Leaving"
  | (sent) e ps where "handler c = SendingEvent e ps" and "c' = c\<lparr>eventChan := eventChan c @ [e], handler := Serving ps\<rparr>"
  | (left) "handler c = Leaving" and "\<not> locked c" and "proceed (leave lib) c = Some c'"
proof (cases "handler c")
  case (Serving ps)
  show ?thesis
  proof (cases ps)
    case Nil
    then show ?thesis using assms Serving
      by (intro outside [where w = "zworld c" and q = Polling]) (simp_all add: handlerStep_def)
  next
    case (Cons p qs)
    then have "proceed (if p = ZSub then serveSub lib qs else serveBack lib qs) c = Some c'"
      using assms Serving by (cases p) (simp_all add: handlerStep_def)
    moreover have "outer (if p = ZSub then serveSub lib qs else serveBack lib qs)"
      by (simp add: outer_serveSub outer_serveBack)
    ultimately obtain w q where "c' = c\<lparr>zworld := w, handler := q\<rparr>"
    using proceed_outer by blast
  then show ?thesis using Serving by (intro outside) simp_all
  qed
next
  case Polling
  then have "proceed (andThen (zcall (Poll lib)) (\<lambda>polled. lift (Ok (Serving polled)))) c = Some c'"
    using assms by (simp add: handlerStep_def)
  moreover have "outer (andThen (zcall (Poll lib)) (\<lambda>polled. lift (Ok (Serving polled))))"
    by (intro outer_intros)
  ultimately obtain w q where "c' = c\<lparr>zworld := w, handler := q\<rparr>"
    using proceed_outer by blast
  then show ?thesis using Polling by (intro outside) simp_all
next
  case (SendingEvent e ps)
  then consider "c' = c\<lparr>handler := Died SendOnClosedChannel\<rparr>"
    | "c' = c\<lparr>eventChan := eventChan c @ [e], handler := Serving ps\<rparr>"
    using assms by (auto simp: handlerStep_def sendEvent_def split: if_splits)
  then show ?thesis
  proof cases
    case 1
    then show ?thesis using SendingEvent by (intro outside [where w = "zworld c"]) simp_all
  next
    case 2
    then show ?thesis using SendingEvent by (intro sent)
  qed
qed (use assms left in \<open>auto simp: handlerStep_def split: if_splits\<close>)

section \<open>A lock that is never released\<close>

text \<open>The mutex held by nobody who will release it, and nobody past it.\<close>

definition wedged :: "'w zmq_client \<Rightarrow> bool" where
  "wedged c \<longleftrightarrow> hasSub c \<and> hasCtx c \<and> locked c \<and> \<not> exited c \<and> \<not> quitted c
     \<and> (closer c = NotClosing \<or> closer c = AwaitingExit)"

lemma wedged_SubscribeSequence: "wedged c \<Longrightarrow> SubscribeSequence lib c = (Hang, c)"
  by (simp add: wedged_def SubscribeSequence_def)

lemma wedged_closeBegin:
  assumes "wedged c"
  shows "closeBegin lib c = (if zclosed c then (Err (ErrMessage ''client already closed''), c)
    else (Hang, c\<lparr>zclosed := True\<rparr>))"
  using assms by (simp add: wedged_def closeBegin_def)

lemma wedged_step:
  assumes "zmq_step lib c c'" and "wedged c"
  shows "wedged c'"
  using assms(1)
proof cases
  case handle
  then show ?thesis using assms(2) by (cases rule: handlerStep_cases) (simp_all add: wedged_def)
next
  case subscribe
  then show ?thesis using assms(2) by (simp add: wedged_SubscribeSequence)
next
  case close
  then show ?thesis using assms(2) by (simp add: wedged_closeBegin) (simp add: wedged_def)
qed (use assms(2) in \<open>simp_all add: wedged_def\<close>)

lemma wedged_reaches: "zmq_reaches lib c c' \<Longrightarrow> wedged c \<Longrightarrow> wedged c'"
  by (rule zmq_runs.keeps [where I = wedged]) (auto intro: wedged_step)

section \<open>The events the reporter gets\<close>

text \<open>
  The handler with every message it receives of bitcoind written to a log, which nothing else touches.
\<close>

definition rpc_logged :: "'w rpc_client \<Rightarrow> ('w \<times> 'm list) rpc_client" where
  "rpc_logged c =
     \<lparr>GetBestBlockHash = logged (GetBestBlockHash c), GetBlockVerbose = (\<lambda>h. logged (GetBlockVerbose c h)),
      GetBlock = (\<lambda>h. logged (GetBlock c h)), GetBlockHash = (\<lambda>n. logged (GetBlockHash c n)),
      NotifyBlocks = logged (NotifyBlocks c)\<rparr>"

definition tapped :: "'w zmq_lib \<Rightarrow> ('w \<times> string list list) zmq_lib" where
  "tapped lib =
     \<lparr>Setup = (\<lambda>a. logged (Setup lib a)), Poll = logged (Poll lib),
      RecvSub = (\<lambda>st. case RecvSub lib (fst st) of
          (Ok msg, w) \<Rightarrow> (Ok msg, (w, snd st @ [msg]))
        | (r, w) \<Rightarrow> (r, (w, snd st))),
      RecvBack = logged (RecvBack lib), SendFront = (\<lambda>m. logged (SendFront lib m)),
      SetSubscribe = (\<lambda>m. logged (SetSubscribe lib m)), SetUnsubscribe = (\<lambda>m. logged (SetUnsubscribe lib m)),
      CloseFront = logged (CloseFront lib), CloseBack = logged (CloseBack lib),
      CloseSub = logged (CloseSub lib), Term = logged (Term lib),
      NewHashFromStr = NewHashFromStr lib, rpcClient = rpc_logged (rpcClient lib)\<rparr>"

abbreviation received :: "('w \<times> 'm list) zmq_client \<Rightarrow> 'm list" where
  "received c \<equiv> snd (zworld c)"

text \<open>What a message announces: a block connected or disconnected, by its hash.\<close>

fun announced :: "(string \<Rightarrow> hash outcome) \<Rightarrow> string list \<Rightarrow> (event_type \<times> hash) list" where
  "announced parse (topic # body # _) =
     (if topic \<noteq> ''sequence'' \<or> length body \<le> 32 then []
      else case parse (EncodeToString (take 32 body)) of
          Ok h \<Rightarrow>
            (if body ! 32 = CHR ''C'' then [(BlockConnected, h)]
             else if body ! 32 = CHR ''D'' then [(BlockDisconnected, h)] else [])
        | _ \<Rightarrow> [])"
| "announced parse _ = []"

definition pendingEvents :: "handler_pc \<Rightarrow> block_event list" where
  "pendingEvents q = (case q of SendingEvent e _ \<Rightarrow> [e] | _ \<Rightarrow> [])"

text \<open>The events made so far, from those the reporter took to the one that waits to be sent.\<close>

definition madeEvents :: "'w zmq_client \<Rightarrow> block_event list" where
  "madeEvents c = taken c @ eventChan c @ pendingEvents (handler c)"

definition carries :: "header_funs \<Rightarrow> (hash \<Rightarrow> int) \<Rightarrow> event_type \<times> hash \<Rightarrow> block_event \<Rightarrow> bool" where
  "carries hf hgt a e \<longleftrightarrow> EventType e = fst a \<and> hf_BlockHash hf (ev_Header e) = snd a
     \<and> sint (ev_Height e) = hgt (snd a)"

text \<open>
  The events made carry what the messages announced, one by one; only a handler that died may have
  left an announcement without an event.
\<close>

definition faithful :: "header_funs \<Rightarrow> (hash \<Rightarrow> int) \<Rightarrow> 'w zmq_lib \<Rightarrow> ('w \<times> string list list) zmq_client \<Rightarrow> bool" where
  "faithful hf hgt lib c \<longleftrightarrow> (\<exists>made lost.
     concat (map (announced (NewHashFromStr lib)) (received c)) = made @ lost
     \<and> list_all2 (carries hf hgt) made (madeEvents c)
     \<and> (lost \<noteq> [] \<longrightarrow> (\<exists>p. handler c = Died p)))"

text \<open>Actions that neither receive a message nor touch the channel.\<close>

definition unheard :: "(('w \<times> 'm list) zmq_client, 'a) action \<Rightarrow> bool" where
  "unheard m \<longleftrightarrow> (\<forall>c. received (snd (m c)) = received c \<and> taken (snd (m c)) = taken c
     \<and> eventChan (snd (m c)) = eventChan c)"

named_theorems unheard_intros \<open>actions that receive and send nothing\<close>

lemma unheard_zcall [unheard_intros]: "unheard (zcall (logged m))"
  by (simp add: unheard_def zcall_def logged_def split: prod.split)

lemma unheard_lift [unheard_intros]: "unheard (lift r)"
  by (simp add: unheard_def)

lemma unheard_andThen [unheard_intros]:
  assumes "unheard m" and "\<And>x. unheard (f x)"
  shows "unheard (andThen m f)"
proof -
  have "received (snd (andThen m f c)) = received c \<and> taken (snd (andThen m f c)) = taken c
     \<and> eventChan (snd (andThen m f c)) = eventChan c" for c
    using assms by (intro andThen_inv [where P = "\<lambda>d. received d = received c \<and> taken d = taken c
      \<and> eventChan d = eventChan c"]) (simp_all add: unheard_def)
  then show ?thesis by (simp add: unheard_def)
qed

lemma unheard_orPanic [unheard_intros]: "unheard m \<Longrightarrow> unheard (orPanic m)"
  by (simp add: unheard_def)

lemma unheard_logErr [unheard_intros]: "unheard m \<Longrightarrow> unheard (logErr m)"
  by (simp add: unheard_def)

lemma logged_lift: "logged (lift r) = lift r"
  by (simp add: logged_def fun_eq_iff)

lemma logged_andThen: "andThen (logged m) (\<lambda>x. logged (f x)) = logged (andThen m f)"
  by (auto simp: fun_eq_iff logged_def andThen_def split: prod.splits outcome.splits)

lemma zmq_getBlockByHash_logged:
  "zmq_getBlockByHash (rpc_logged c) h = logged (zmq_getBlockByHash c h)"
  unfolding zmq_getBlockByHash_def logged_andThen [symmetric] logged_lift by (simp add: rpc_logged_def)

lemma zmq_getBlockByHash_lawful:
  assumes "node_lawful hf hgt c" and "zmq_getBlockByHash c h w = (Ok (ib, mb), w')"
  shows "hf_BlockHash hf (Header ib) = h" and "ht ib = hgt h"
proof -
  have "client_GetBlockByHash c h w = (Ok (ib, mb), w')"
    using assms(2) by (simp add: client_GetBlockByHash_def zmq_getBlockByHash_def outcome_Ok_iffs)
  then have "BlockHash (hf_BlockHash hf) ib = h" "on_node hf hgt ib"
    using client_GetBlockByHash_lawful [OF assms(1)] by blast+
  then show "hf_BlockHash hf (Header ib) = h" and "ht ib = hgt h"
    by (simp_all add: BlockHash_def on_node_def)
qed

lemma unheard_proceed:
  assumes "proceed m c = Some c'" and "unheard m"
  shows "received c' = received c" and "taken c' = taken c" and "eventChan c' = eventChan c"
proof -
  obtain r d where m: "m c = (r, d)" by (cases "m c")
  then have d: "received d = received c" "taken d = taken c" "eventChan d = eventChan c"
    using assms(2) unfolding unheard_def by (metis snd_conv)+
  obtain q where "c' = d\<lparr>handler := q\<rparr>"
    using assms(1) m by (auto simp: proceed_def split: outcome.splits)
  then show "received c' = received c" and "taken c' = taken c" and "eventChan c' = eventChan c"
    using d by simp_all
qed

lemma unheard_onMessage [unheard_intros]: "unheard (onMessage (tapped lib) ps msg)"
  unfolding onMessage_def onSequence_def sendBlockEvent_def
  by (auto simp: tapped_def zmq_getBlockByHash_logged intro!: unheard_intros
      split: list.splits option.splits prod.splits if_splits)

text \<open>What the handler does with one message.\<close>

lemma onMessage_carries:
  assumes law: "node_lawful hf hgt (rpcClient lib)"
    and m: "onMessage (tapped lib) ps msg c = (Ok q, d)"
  shows "list_all2 (carries hf hgt) (announced (NewHashFromStr lib) msg) (pendingEvents q)"
proof (cases msg)
  case Nil
  then show ?thesis using m by (simp add: onMessage_def)
next
  case (Cons topic parts)
  note msg = this
  show ?thesis
  proof (cases "topic = ''sequence''")
    case False
    then have "q = Serving ps" using m msg by (simp add: onMessage_def)
    then show ?thesis using False msg by (cases parts) (simp_all add: pendingEvents_def)
  next
    case True
    then obtain body rest where parts: "parts = body # rest"
      using m msg by (cases parts) (simp_all add: onMessage_def)
    then have on: "onSequence (tapped lib) body ps c = (Ok q, d)"
      using m msg True by (simp add: onMessage_def)
    then have len: "\<not> length body \<le> 32" by (auto simp: onSequence_def)
    show ?thesis
    proof (cases "labelEvent (body ! 32)")
      case None
      then have "q = Serving ps" using on len by (simp add: onSequence_def)
      then show ?thesis using None msg parts True
        by (auto simp: pendingEvents_def labelEvent_def split: outcome.split if_splits)
    next
      case (Some t)
      then have "sendBlockEvent (tapped lib) (take 32 body) t ps c = (Ok q, d)"
        using on len by (simp add: onSequence_def)
      then obtain h ib mb c1 where h: "NewHashFromStr lib (EncodeToString (take 32 body)) = Ok h"
        and get: "zcall (logged (zmq_getBlockByHash (rpcClient lib) h)) c = (Ok (ib, mb), c1)"
        and q: "q = SendingEvent (NewBlockEvent t (Height ib) (Header ib)) ps"
        by (auto simp: sendBlockEvent_def outcome_Ok_iffs tapped_def zmq_getBlockByHash_logged)
      from get obtain w w' where "zmq_getBlockByHash (rpcClient lib) h w = (Ok (ib, mb), w')"
        by (auto simp: zcall_def logged_def split: prod.splits)
      from zmq_getBlockByHash_lawful [OF law this]
      have "carries hf hgt (t, h) (NewBlockEvent t (Height ib) (Header ib))"
        by (simp add: carries_def NewBlockEvent_def)
      then show ?thesis using Some h q msg parts True len
        by (auto simp: pendingEvents_def labelEvent_def split: if_splits)
    qed
  qed
qed

lemma faithfulI:
  assumes "faithful hf hgt lib c" and "\<forall>p. handler c \<noteq> Died p"
    and "received c' = received c @ msgs"
    and "list_all2 (carries hf hgt) new es" and "madeEvents c' = madeEvents c @ es"
    and "concat (map (announced (NewHashFromStr lib)) msgs) = new @ lost"
    and "lost \<noteq> [] \<Longrightarrow> \<exists>p. handler c' = Died p"
  shows "faithful hf hgt lib c'"
proof -
  from assms(1,2) obtain made where "concat (map (announced (NewHashFromStr lib)) (received c)) = made"
    and "list_all2 (carries hf hgt) made (madeEvents c)"
    by (auto simp: faithful_def)
  then show ?thesis unfolding faithful_def using assms(3-7)
    by (intro exI [of _ "made @ new"] exI [of _ lost]) (simp add: list_all2_appendI)
qed

lemma faithful_unheard:
  assumes "faithful hf hgt lib c" and "proceed m c = Some c'" and "unheard m"
    and "\<forall>p. handler c \<noteq> Died p" and "pendingEvents (handler c) = []"
    and "\<And>q d. m c = (Ok q, d) \<Longrightarrow> pendingEvents q = []"
  shows "faithful hf hgt lib c'"
proof -
  have "pendingEvents (handler c') = []"
    using assms(2,6) by (auto simp: proceed_def pendingEvents_def split: prod.splits outcome.splits)
  then have "madeEvents c' = madeEvents c"
    using assms(5) unheard_proceed [OF assms(2,3)] by (simp add: madeEvents_def)
  then show ?thesis using unheard_proceed(1) [OF assms(2,3)]
    by (intro faithfulI [OF assms(1,4), where msgs = "[]" and es = "[]" and new = "[]" and lost = "[]"]) simp_all
qed

lemma onMessage_never_Err: "fst (onMessage lib ps msg c) \<noteq> Err e"
  by (auto simp: onMessage_def onSequence_def sendBlockEvent_def andThen_def orPanic_def
      split: list.splits option.splits prod.splits outcome.splits)

lemma faithful_served:
  assumes "faithful hf hgt lib c" and "handler c = Serving qs"
    and "received c' = received c @ msgs" and "taken c' = taken c" and "eventChan c' = eventChan c"
    and "(\<exists>p. handler c' = Died p)
      \<or> list_all2 (carries hf hgt) (concat (map (announced (NewHashFromStr lib)) msgs)) (pendingEvents (handler c'))"
  shows "faithful hf hgt lib c'"
  using assms(6)
proof
  assume "\<exists>p. handler c' = Died p"
  then show ?thesis using assms(2-5)
    by (intro faithfulI [OF assms(1), where msgs = msgs and new = "[]" and es = "[]"
        and lost = "concat (map (announced (NewHashFromStr lib)) msgs)"])
      (auto simp: madeEvents_def pendingEvents_def)
next
  assume "list_all2 (carries hf hgt) (concat (map (announced (NewHashFromStr lib)) msgs))
    (pendingEvents (handler c'))"
  then show ?thesis using assms(2-5)
    by (intro faithfulI [OF assms(1), where msgs = msgs and lost = "[]" and es = "pendingEvents (handler c')"
        and new = "concat (map (announced (NewHashFromStr lib)) msgs)"])
      (auto simp: madeEvents_def pendingEvents_def)
qed

lemma faithful_serveSub:
  assumes "faithful hf hgt lib c" and law: "node_lawful hf hgt (rpcClient lib)"
    and step: "proceed (serveSub (tapped lib) ps) c = Some c'" and c: "handler c = Serving qs"
  shows "faithful hf hgt lib c'"
proof -
  obtain r w where r: "RecvSub lib (fst (zworld c)) = (r, w)" by (cases "RecvSub lib (fst (zworld c))")
  define msgs where "msgs = (case r of Ok msg \<Rightarrow> [msg] | _ \<Rightarrow> [])"
  define c1 where "c1 = c\<lparr>zworld := (w, received c @ msgs)\<rparr>"
  have recv: "zcall (RecvSub (tapped lib)) c = (r, c1)"
    using r by (simp add: zcall_def tapped_def c1_def msgs_def split: outcome.split)
  have c1: "received c1 = received c @ msgs" "taken c1 = taken c" "eventChan c1 = eventChan c"
    by (simp_all add: c1_def)
  show ?thesis
  proof (cases "\<exists>msg. r = Ok msg")
    case True
    then obtain msg where msg: "r = Ok msg" ..
    then have step': "proceed (onMessage (tapped lib) ps msg) c1 = Some c'"
      using step recv by (simp add: serveSub_def proceed_def andThen_def)
    obtain out d where out: "onMessage (tapped lib) ps msg c1 = (out, d)" by fastforce
    then have "(\<exists>q. out = Ok q \<and> handler c' = q) \<or> (\<exists>p. handler c' = Died p)"
      using step' onMessage_never_Err [of "tapped lib" ps msg c1]
      by (auto simp: proceed_def split: outcome.splits)
    then have "(\<exists>p. handler c' = Died p)
      \<or> list_all2 (carries hf hgt) (announced (NewHashFromStr lib) msg) (pendingEvents (handler c'))"
      using onMessage_carries [OF law] out by blast
    then show ?thesis using unheard_proceed [OF step' unheard_onMessage, unfolded c1] msg c
      by (intro faithful_served [OF assms(1) c, where msgs = "[msg]"]) (simp_all add: msgs_def)
  next
    case False
    then have "received c' = received c @ []" "taken c' = taken c" "eventChan c' = eventChan c"
      and "handler c' = Leaving \<or> (\<exists>p. handler c' = Died p)"
      using step recv c1 by (auto simp: serveSub_def proceed_def andThen_def msgs_def split: outcome.splits)
    then show ?thesis by (intro faithful_served [OF assms(1) c]) (auto simp: pendingEvents_def)
  qed
qed

lemma unheard_branch [unheard_intros]:
  assumes "unheard m" and "unheard f" and "unheard g"
  shows "unheard (branch m f g)"
  unfolding unheard_def
proof
  fix c
  obtain r d where "m c = (r, d)" by (cases "m c")
  moreover from this have "received d = received c" "taken d = taken c" "eventChan d = eventChan c"
    using assms(1) unfolding unheard_def by (metis snd_conv)+
  ultimately show "received (snd (branch m f g c)) = received c \<and> taken (snd (branch m f g c)) = taken c
      \<and> eventChan (snd (branch m f g c)) = eventChan c"
    using assms(2,3) by (cases r) (simp_all add: branch_def unheard_def)
qed

lemma unheard_if [unheard_intros]:
  "unheard f \<Longrightarrow> unheard g \<Longrightarrow> unheard (\<lambda>c. if b c then f c else g c)"
  by (simp add: unheard_def)

lemma unheard_locks [unheard_intros]: "unheard lockAndExit" "unheard unlock"
  by (simp_all add: unheard_def lockAndExit_def unlock_def)

lemma unheard_tapped [unheard_intros]:
  "unheard (zcall (Poll (tapped lib)))" "unheard (zcall (RecvBack (tapped lib)))"
  "unheard (zcall (SendFront (tapped lib) m))" "unheard (zcall (SetSubscribe (tapped lib) opt))"
  "unheard (zcall (SetUnsubscribe (tapped lib) opt))" "unheard (zcall (CloseFront (tapped lib)))"
  "unheard (zcall (CloseBack (tapped lib)))" "unheard (zcall (CloseSub (tapped lib)))"
  "unheard (zcall (Term (tapped lib)))"
  by (simp_all add: tapped_def unheard_zcall)

lemma unheard_leave: "unheard (leave (tapped lib))"
  unfolding leave_def deferredCloses_def by (intro unheard_intros)

lemma branch_Ok_iff: "branch m f g s = (Ok y, t) \<longleftrightarrow>
    (\<exists>x s'. m s = (Ok x, s') \<and> f s' = (Ok y, t)) \<or> (\<exists>e s'. m s = (Err e, s') \<and> g s' = (Ok y, t))"
  by (auto simp: branch_def split: prod.splits outcome.splits)

lemma no_pending_leave: "leave lib c = (Ok q, d) \<Longrightarrow> q = Ended"
  by (auto simp: leave_def deferredCloses_def outcome_Ok_iffs branch_Ok_iff split: if_splits)

lemma unheard_serveBack: "unheard (serveBack (tapped lib) ps)"
  unfolding serveBack_def onCommand_def
  by (rule unheard_andThen) (simp_all add: unheard_tapped unheard_lift unheard_andThen split: list.split)

lemma onCommand_goes:
  assumes "onCommand lib ps msg c = (Ok q, d)"
  shows "q = Serving ps \<or> q = Leaving"
proof (cases msg)
  case (Cons topic parts)
  then show ?thesis using assms
    by (cases parts; cases "topic = ''subscribe''"; cases "topic = ''term''")
      (simp_all add: onCommand_def andThen_Ok_iff)
qed (use assms in \<open>simp add: onCommand_def\<close>)

lemma no_pending_serveBack: "serveBack lib ps c = (Ok q, d) \<Longrightarrow> q = Serving ps \<or> q = Leaving"
  unfolding serveBack_def by (erule andThen_OkE) (rule onCommand_goes)

lemma faithful_serving:
  assumes "handlerStep (tapped lib) c = Some c'" and f: "faithful hf hgt lib c"
    and law: "node_lawful hf hgt (rpcClient lib)" and Serving: "handler c = Serving ps"
  shows "faithful hf hgt lib c'"
proof (cases ps)
  case Nil
  then have "c' = c\<lparr>handler := Polling\<rparr>" using assms(1) Serving by (simp add: handlerStep_def)
  then show ?thesis using Serving
    by (intro faithful_served [OF f Serving, where msgs = "[]"]) (simp_all add: pendingEvents_def)
next
  case (Cons p qs)
  show ?thesis
  proof (cases p)
    case ZSub
    then show ?thesis using assms(1) Serving Cons
      by (intro faithful_serveSub [OF f law _ Serving]) (simp add: handlerStep_def)
  next
    case ZBack
    then have "proceed (serveBack (tapped lib) qs) c = Some c'"
      using assms(1) Serving Cons by (simp add: handlerStep_def)
    then show ?thesis using Serving unheard_serveBack
      by (intro faithful_unheard [OF f]) (auto simp: pendingEvents_def dest!: no_pending_serveBack)
  qed
qed

text \<open>The event whose send panics is the one that is lost.\<close>

lemma faithful_sending:
  assumes "handlerStep lib' c = Some c'" and f: "faithful hf hgt lib c"
    and SendingEvent: "handler c = SendingEvent e ps"
  shows "faithful hf hgt lib c'"
proof -
  consider "c' = c\<lparr>handler := Died SendOnClosedChannel\<rparr>"
    | "c' = c\<lparr>eventChan := eventChan c @ [e], handler := Serving ps\<rparr>"
    using assms(1) SendingEvent by (auto simp: handlerStep_def sendEvent_def split: if_splits)
  then show ?thesis
  proof cases
    case 1
    from f SendingEvent obtain made where made: "concat (map (announced (NewHashFromStr lib)) (received c)) = made"
      and "list_all2 (carries hf hgt) made ((taken c @ eventChan c) @ [e])"
      by (auto simp: faithful_def madeEvents_def pendingEvents_def)
    from this(2) obtain kept lost where "made = kept @ lost"
      and "list_all2 (carries hf hgt) kept (taken c @ eventChan c)"
      unfolding list_all2_append2 [of _ _ "taken c @ eventChan c"] by blast
    then show ?thesis using 1 made unfolding faithful_def
      by (intro exI [of _ kept] exI [of _ lost]) (simp add: madeEvents_def pendingEvents_def)
  next
    case 2
    then show ?thesis using SendingEvent
      by (intro faithfulI [OF f, where msgs = "[]" and new = "[]" and es = "[]" and lost = "[]"])
        (simp_all add: madeEvents_def pendingEvents_def)
  qed
qed

lemma faithful_handle:
  assumes "handlerStep (tapped lib) c = Some c'" and f: "faithful hf hgt lib c"
    and law: "node_lawful hf hgt (rpcClient lib)"
  shows "faithful hf hgt lib c'"
proof (cases "handler c")
  case Polling
  then have "proceed (andThen (zcall (Poll (tapped lib))) (\<lambda>polled. lift (Ok (Serving polled)))) c = Some c'"
    using assms(1) by (simp add: handlerStep_def)
  moreover have "unheard (andThen (zcall (Poll (tapped lib))) (\<lambda>polled. lift (Ok (Serving polled))))"
    by (intro unheard_intros)
  ultimately show ?thesis using Polling
    by (intro faithful_unheard [OF f]) (auto simp: outcome_Ok_iffs pendingEvents_def)
next
  case (Serving ps)
  then show ?thesis by (rule faithful_serving [OF assms])
next
  case (SendingEvent e ps)
  then show ?thesis by (rule faithful_sending [OF assms(1,2)])
next
  case Leaving
  then have "proceed (leave (tapped lib)) c = Some c'"
    using assms(1) by (simp add: handlerStep_def split: if_splits)
  then show ?thesis using Leaving unheard_leave
    by (intro faithful_unheard [OF f]) (auto simp: pendingEvents_def dest!: no_pending_leave)
qed (use assms(1) in \<open>simp_all add: handlerStep_def\<close>)

lemma faithful_same:
  assumes "faithful hf hgt lib c" and "received c' = received c" and "madeEvents c' = madeEvents c"
    and "handler c' = handler c"
  shows "faithful hf hgt lib c'"
  using assms by (simp add: faithful_def)

text \<open>A call of another goroutine: nothing of the handler's changes.\<close>

definition aside :: "('w \<times> 'm list) zmq_client \<Rightarrow> ('w \<times> 'm list) zmq_client \<Rightarrow> bool" where
  "aside c c' \<longleftrightarrow> received c' = received c \<and> taken c' = taken c \<and> eventChan c' = eventChan c
     \<and> handler c' = handler c"

lemma aside_logged:
  assumes "zcall (logged m) c = (r, d)"
  shows "aside c d"
  using assms by (auto simp: aside_def zcall_def logged_def split: prod.splits)

lemma aside_calls:
  "aside c (snd (SubscribeSequence (tapped lib) c))" (is ?sub)
  "aside c (snd (closeBegin (tapped lib) c))" (is ?close)
  "aside c (snd (closeTerm (tapped lib) c))" (is ?fin)
proof -
  have send: "zcall (SendFront (tapped lib) m) = zcall (logged (SendFront lib m))"
    and fin: "zcall (Term (tapped lib)) = zcall (logged (Term lib))" for m
    by (simp_all add: tapped_def)
  show ?sub ?close ?fin
    unfolding SubscribeSequence_def closeBegin_def closeTerm_def send fin
    by (auto split: prod.splits outcome.splits dest!: aside_logged) (simp_all add: aside_def)
qed

lemma faithful_aside: "faithful hf hgt lib c \<Longrightarrow> aside c c' \<Longrightarrow> faithful hf hgt lib c'"
  by (rule faithful_same) (simp_all add: aside_def madeEvents_def)

lemma faithful_step:
  assumes "zmq_step (tapped lib) c c'" and "faithful hf hgt lib c"
    and "node_lawful hf hgt (rpcClient lib)"
  shows "faithful hf hgt lib c'"
  using assms(1)
proof cases
  case handle
  then show ?thesis using faithful_handle assms(2,3) by blast
next
  case subscribe
  then show ?thesis using faithful_aside [OF assms(2) aside_calls(1)] by simp
next
  case close
  then show ?thesis using faithful_aside [OF assms(2) aside_calls(2)] by simp
next
  case terminate
  then show ?thesis using faithful_aside [OF assms(2) aside_calls(3)] by simp
qed (rule faithful_same [OF assms(2)]; simp add: madeEvents_def)+

lemma faithful_reaches:
  "zmq_reaches (tapped lib) c c' \<Longrightarrow> faithful hf hgt lib c \<Longrightarrow> node_lawful hf hgt (rpcClient lib)
    \<Longrightarrow> faithful hf hgt lib c'"
  by (rule zmq_runs.keeps [where I = "faithful hf hgt lib"]) (auto intro: faithful_step)

end
