(* ===== verification/Subscriber.thy ===== *)
theory Subscriber
  imports Config Zmq_Runs
begin

text \<open>
  The Bitcoin client with its subscription (\<^verbatim>\<open>btcclient/client_block_subscriber.go\<close>,
  \<^verbatim>\<open>btcclient/client.go\<close>): the constructor for either backend, the notification handlers of the
  WebSocket, and \<^verbatim>\<open>Stop\<close>. Dialling the node is a parameter.
\<close>

text \<open>What \<^verbatim>\<open>BackendVersion\<close> of the RPC client tells apart.\<close>

datatype backend_version = BitcoindVersion | BtcdVersion | OtherVersion

record conn_config =
  connHost :: string
  connEndpoint :: string
  HTTPPostMode :: bool
  connUser :: string
  connPass :: string
  DisableTLS :: bool
  Certificates :: "bytes option"

record ('w, 'l) dial_env =
  rpcNew :: "conn_config \<Rightarrow> ('w, 'w rpc_client) action"
  BackendVersion :: "'w rpc_client \<Rightarrow> ('w, backend_version) action"
  zmqLibOf :: "'w rpc_client \<Rightarrow> 'w zmq_lib"
  fileEnv :: "('w, 'l) config_env"

record 'w btc_handle =
  Params :: chain_params
  Cfg :: btc_config
  rpc :: "'w rpc_client option"
  zmqClient :: "'w zmq_client option"

definition bitcoindConn :: "btc_config \<Rightarrow> conn_config" where
  "bitcoindConn cfg =
     \<lparr>connHost = Endpoint cfg, connEndpoint = '''', HTTPPostMode = True, connUser = Username cfg,
      connPass = Password cfg, DisableTLS = DisableClientTLS cfg, Certificates = None\<rparr>"

definition btcdConn :: "btc_config \<Rightarrow> bytes option \<Rightarrow> conn_config" where
  "btcdConn cfg certificates =
     \<lparr>connHost = Endpoint cfg, connEndpoint = ''ws'', HTTPPostMode = False, connUser = Username cfg,
      connPass = Password cfg, DisableTLS = DisableClientTLS cfg, Certificates = certificates\<rparr>"

text \<open>A connection to a node of the expected kind.\<close>

definition connect ::
  "('w, 'l) dial_env \<Rightarrow> conn_config \<Rightarrow> backend_version \<Rightarrow> string \<Rightarrow> ('w, 'w rpc_client) action" where
  "connect env conn expected complaint =
     andThen (rpcNew env conn) (\<lambda>c.
     andThen (newErr ''failed to get BTC backend'' (BackendVersion env c)) (\<lambda>backend.
     if backend = expected then lift (Ok c) else lift (Err (ErrMessage complaint))))"

definition NewWithBlockSubscriber :: "('w, 'l) dial_env \<Rightarrow> btc_config \<Rightarrow> ('w, 'w btc_handle) action" where
  "NewWithBlockSubscriber env cfg =
     andThen (lift (GetBTCParams (BtcNetParams cfg))) (\<lambda>params.
     if BtcBackend cfg = Bitcoind
     then andThen (connect env (bitcoindConn cfg) BitcoindVersion ''zmq is only supported by bitcoind'') (\<lambda>c.
          andThen (zmqNew (zmqLibOf env c) (ZmqSeqEndpoint cfg)) (\<lambda>z.
          lift (Ok \<lparr>Params = params, Cfg = cfg, rpc = Some c, zmqClient = Some z\<rparr>)))
     else if BtcBackend cfg = Btcd
     then andThen (ReadCAFile (fileEnv env) cfg) (\<lambda>certificates.
          andThen (connect env (btcdConn cfg certificates) BtcdVersion ''websocket is only supported by btcd'') (\<lambda>c.
          lift (Ok \<lparr>Params = params, Cfg = cfg, rpc = Some c, zmqClient = None\<rparr>)))
     else lift (Ok \<lparr>Params = params, Cfg = cfg, rpc = None, zmqClient = None\<rparr>))"

text \<open>
  A client that was made for a validated configuration has a connection, and a ZMQ client when and
  only when the backend is bitcoind: neither \<^verbatim>\<open>MustSubscribeBlocks\<close> nor a query meets a nil one.
\<close>

lemma NewWithBlockSubscriber_connected:
  assumes "BTCConfig_Validate cfg = Ok ()" and "NewWithBlockSubscriber env cfg w = (Ok h, w')"
  shows "rpc h \<noteq> None" and "zmqClient h \<noteq> None \<longleftrightarrow> BtcBackend cfg = Bitcoind" and "Cfg h = cfg"
    and "GetBTCParams (BtcNetParams cfg) = Ok (Params h)"
proof -
  have "BtcBackend cfg = Bitcoind \<or> BtcBackend cfg = Btcd"
    using assms(1) by (auto simp: BTCConfig_Validate_def GetValidBtcBackends_def split: if_splits)
  moreover have "Bitcoind \<noteq> Btcd" by (simp add: backend_defs)
  ultimately show "rpc h \<noteq> None" and "zmqClient h \<noteq> None \<longleftrightarrow> BtcBackend cfg = Bitcoind"
    and "Cfg h = cfg" and "GetBTCParams (BtcNetParams cfg) = Ok (Params h)"
    using assms(2) by (auto simp: NewWithBlockSubscriber_def outcome_Ok_iffs)
qed

section \<open>The WebSocket's notifications\<close>

record event_chan =
  waiting :: "block_event list"
  isClosed :: bool

text \<open>A send to the event channel, \<open>None\<close> while it is full.\<close>

definition chanSend :: "block_event \<Rightarrow> event_chan \<Rightarrow> (unit outcome \<times> event_chan) option" where
  "chanSend e ch =
     (if isClosed ch then Some (Panic SendOnClosedChannel, ch)
      else if length (waiting ch) < eventChanCapacity
      then Some (Ok (), ch\<lparr>waiting := waiting ch @ [e]\<rparr>)
      else None)"

definition OnFilteredBlockConnected ::
  "i32 \<Rightarrow> block_header \<Rightarrow> event_chan \<Rightarrow> (unit outcome \<times> event_chan) option" where
  "OnFilteredBlockConnected height header = chanSend (NewBlockEvent BlockConnected height header)"

definition OnFilteredBlockDisconnected ::
  "i32 \<Rightarrow> block_header \<Rightarrow> event_chan \<Rightarrow> (unit outcome \<times> event_chan) option" where
  "OnFilteredBlockDisconnected height header = chanSend (NewBlockEvent BlockDisconnected height header)"

section \<open>Stop\<close>

text \<open>\<^verbatim>\<open>Client.Stop\<close> on a client with an event channel or without; Go panics when a channel is closed twice.\<close>

definition closeChan :: "event_chan \<Rightarrow> unit outcome \<times> event_chan" where
  "closeChan ch = (if isClosed ch then (Panic CloseOfClosedChannel, ch) else (Ok (), ch\<lparr>isClosed := True\<rparr>))"

definition Client_Stop :: "('w, unit) action \<Rightarrow> ('w \<times> event_chan option, unit) action" where
  "Client_Stop shutdown st =
     (case shutdown (fst st) of
        (Ok _, w) \<Rightarrow>
          (case snd st of
             None \<Rightarrow> (Ok (), (w, None))
           | Some ch \<Rightarrow> (case closeChan ch of (r, ch') \<Rightarrow> (r, (w, Some ch'))))
      | (r, w) \<Rightarrow> (r, (w, snd st)))"

text \<open>
  Once the client was stopped a notification that still arrives panics, and so does a second stop.
\<close>

lemma stopped_client:
  assumes "Client_Stop shutdown (w, Some ch) = (Ok (), (w', Some ch'))"
  shows "OnFilteredBlockConnected height header ch' = Some (Panic SendOnClosedChannel, ch')"
    and "\<And>w''. shutdown w' = (Ok (), w'') \<Longrightarrow>
      Client_Stop shutdown (w', Some ch') = (Panic CloseOfClosedChannel, (w'', Some ch'))"
proof -
  have "isClosed ch'"
    using assms by (auto simp: Client_Stop_def closeChan_def split: prod.splits outcome.splits if_splits)
  then show "OnFilteredBlockConnected height header ch' = Some (Panic SendOnClosedChannel, ch')"
    and "\<And>w''. shutdown w' = (Ok (), w'') \<Longrightarrow>
      Client_Stop shutdown (w', Some ch') = (Panic CloseOfClosedChannel, (w'', Some ch'))"
    by (simp_all add: OnFilteredBlockConnected_def chanSend_def Client_Stop_def closeChan_def)
qed

end
