(* ===== verification/Interrupts.thy ===== *)
theory Interrupts
  imports Prelude
begin

text \<open>
  The interrupt handlers of the command line (\<^verbatim>\<open>cmd/lrzrelayer/cmd/utils.go\<close>): callbacks registered
  with \<^verbatim>\<open>addInterruptHandler\<close> and run, the newest first, when a signal or a simulated interrupt arrives.
  A callback is an action on the state \<open>'s\<close> of the program.
\<close>

text \<open>
  \<open>mainStarted\<close> says that \<^verbatim>\<open>interruptChannel\<close> was made and the goroutine \<^verbatim>\<open>mainInterruptHandler\<close>
  started, \<open>mainReturned\<close> that the goroutine has returned, \<open>handlersDone\<close> that \<^verbatim>\<open>interruptHandlersDone\<close>
  was closed.
\<close>

record 's interrupts =
  mainStarted :: bool
  mainReturned :: bool
  handlersDone :: bool
  interruptCallbacks :: "('s, unit) action list"
  program :: 's

definition noInterrupts :: "'s \<Rightarrow> 's interrupts" where
  "noInterrupts s = \<lparr>mainStarted = False, mainReturned = False, handlersDone = False,
     interruptCallbacks = [], program = s\<rparr>"

text \<open>
  Registration sends on an unbuffered channel: it waits forever (\<open>None\<close>) once the goroutine that
  receives has returned.
\<close>

definition addInterruptHandler :: "('s, unit) action \<Rightarrow> 's interrupts \<Rightarrow> 's interrupts option" where
  "addInterruptHandler h i =
     (let i' = i\<lparr>mainStarted := True\<rparr> in
      if mainReturned i then None
      else Some (i'\<lparr>interruptCallbacks := interruptCallbacks i @ [h]\<rparr>))"

text \<open>The loop over \<open>i\<close> from \<open>0\<close>, which runs the callback at \<^verbatim>\<open>len(interruptCallbacks) - 1 - i\<close>.\<close>

function callbackLoop :: "('s, unit) action list \<Rightarrow> nat \<Rightarrow> ('s, unit) action" where
  "callbackLoop callbacks i s =
     (if i < length callbacks
      then andThen (callbacks ! (length callbacks - 1 - i)) (\<lambda>_. callbackLoop callbacks (i + 1)) s
      else (Ok (), s))"
  by pat_completeness auto
termination
  by (relation "measure (\<lambda>(callbacks, i, s). length callbacks - i)") auto

definition invokeCallbacks :: "'s interrupts \<Rightarrow> unit outcome \<times> 's interrupts" where
  "invokeCallbacks i =
     (case callbackLoop (interruptCallbacks i) 0 (program i) of
        (Ok _, s) \<Rightarrow> (Ok (), i\<lparr>program := s, handlersDone := True\<rparr>)
      | (e, s) \<Rightarrow> (e, i\<lparr>program := s\<rparr>))"

text \<open>One turn of \<^verbatim>\<open>mainInterruptHandler\<close> that receives an interrupt: the callbacks run and it returns.\<close>

definition onInterrupt :: "'s interrupts \<Rightarrow> unit outcome \<times> 's interrupts" where
  "onInterrupt i = (case invokeCallbacks i of
     (Ok _, i') \<Rightarrow> (Ok (), i'\<lparr>mainReturned := True\<rparr>)
   | r \<Rightarrow> r)"

fun registerAll :: "('s, unit) action list \<Rightarrow> 's interrupts \<Rightarrow> 's interrupts option" where
  "registerAll [] i = Some i"
| "registerAll (h # hs) i = Option.bind (addInterruptHandler h i) (registerAll hs)"

fun runInOrder :: "('s, unit) action list \<Rightarrow> ('s, unit) action" where
  "runInOrder [] s = (Ok (), s)"
| "runInOrder (h # hs) s = andThen h (\<lambda>_. runInOrder hs) s"

declare callbackLoop.simps [simp del]

lemma callbackLoop_reverse:
  assumes "i \<le> length callbacks"
  shows "callbackLoop callbacks i s = runInOrder (rev (take (length callbacks - i) callbacks)) s"
  using assms
proof (induction "length callbacks - i" arbitrary: i s)
  case 0
  then show ?case by (simp add: callbackLoop.simps)
next
  case (Suc n)
  then have i: "i < length callbacks" and n: "length callbacks - (i + 1) = n" by simp_all
  have "take (Suc n) callbacks = take n callbacks @ [callbacks ! n]"
    using Suc.hyps(2) by (intro take_Suc_conv_app_nth) simp
  moreover have "length callbacks - 1 - i = n" using Suc.hyps(2) by simp
  moreover have "callbackLoop callbacks (i + 1) = runInOrder (rev (take n callbacks))"
    using Suc.hyps(1) [OF n [symmetric]] i n by (simp add: fun_eq_iff)
  ultimately show ?case using i Suc.hyps(2) by (simp add: callbackLoop.simps [of callbacks i])
qed

lemma registerAll_from:
  "\<not> mainReturned i \<Longrightarrow> registerAll hs i = Some (if hs = [] then i else
     i\<lparr>mainStarted := True, interruptCallbacks := interruptCallbacks i @ hs\<rparr>)"
  by (induction hs arbitrary: i) (auto simp: addInterruptHandler_def Let_def)

end
