(* ===== verification/Block_Buffer.thy ===== *)
theory Block_Buffer
  imports Prelude
begin

text \<open>
  The interface a bounded buffer of blocks offers its clients (the reporter): what an added
  block does to the content, when the oldest entry makes room for it, and what taking the
  newest entry back gives. The client lemmas, proved once here, say that a buffer is a
  sliding window over what was added and that a relation between neighbours (in the relayer:
  each block sits on its parent) survives every operation.
\<close>

fun pushAll :: "('b \<Rightarrow> 'c \<Rightarrow> 'c outcome) \<Rightarrow> 'b list \<Rightarrow> 'c \<Rightarrow> 'c outcome" where
  "pushAll push [] c = Ok c"
| "pushAll push (b # bs) c = thenOk (push b c) (pushAll push bs)"

locale block_buffer =
  fixes content :: "'c \<Rightarrow> 'b list"
    and capacity :: "'c \<Rightarrow> nat"
    and wf :: "'c \<Rightarrow> bool"
    and push :: "'b \<Rightarrow> 'c \<Rightarrow> 'c outcome"
    and pop :: "'c \<Rightarrow> 'c outcome"
    and oldest newest :: "'c \<Rightarrow> 'b option"
  assumes wf_capacity: "wf c \<Longrightarrow> 0 < capacity c \<and> length (content c) \<le> capacity c"
    and push: "wf c \<Longrightarrow> \<exists>c'. push b c = Ok c' \<and> wf c' \<and> capacity c' = capacity c \<and>
      content c' = (if length (content c) < capacity c then content c else tl (content c)) @ [b]"
    and pop: "wf c \<Longrightarrow> content c \<noteq> [] \<Longrightarrow> \<exists>c'. pop c = Ok c' \<and> wf c' \<and>
      capacity c' = capacity c \<and> content c' = butlast (content c)"
    and pop_empty: "wf c \<Longrightarrow> content c = [] \<Longrightarrow> pop c = Err ErrEmptyCache"
    and oldest: "wf c \<Longrightarrow> oldest c = (if content c = [] then None else Some (hd (content c)))"
    and newest: "wf c \<Longrightarrow> newest c = (if content c = [] then None else Some (last (content c)))"
begin

lemma push_content:
  assumes "wf c" and "push b c = Ok c'"
  shows "wf c'" and "capacity c' = capacity c"
    and "content c' = (if length (content c) < capacity c then content c else tl (content c)) @ [b]"
  using push [OF assms(1), of b] assms(2) by auto

lemma push_newest: "wf c \<Longrightarrow> push b c = Ok c' \<Longrightarrow> newest c' = Some b"
  by (simp add: newest push_content)

lemma push_returns: "wf c \<Longrightarrow> \<exists>c'. push b c = Ok c'"
  using push by blast

lemma pop_content:
  assumes "wf c" and "pop c = Ok c'"
  shows "wf c'" and "capacity c' = capacity c" and "content c' = butlast (content c)"
    and "content c \<noteq> []"
  using pop [OF assms(1)] pop_empty [OF assms(1)] assms(2) by auto

lemma newest_None: "wf c \<Longrightarrow> newest c = None \<longleftrightarrow> content c = []"
  by (simp add: newest)

lemma newest_Some: "wf c \<Longrightarrow> newest c = Some b \<longleftrightarrow> content c \<noteq> [] \<and> b = last (content c)"
  by (auto simp: newest)

lemma oldest_None: "wf c \<Longrightarrow> oldest c = None \<longleftrightarrow> content c = []"
  by (simp add: oldest)

lemma oldest_Some: "wf c \<Longrightarrow> oldest c = Some b \<longleftrightarrow> content c \<noteq> [] \<and> b = hd (content c)"
  by (auto simp: oldest)

lemma push_linked:
  assumes "wf c" and "push b c = Ok c'" and "successively R (content c)"
    and "content c \<noteq> [] \<Longrightarrow> R (last (content c)) b"
  shows "successively R (content c')"
proof (cases "content c")
  case Nil
  then show ?thesis using assms by (simp add: push_content)
next
  case (Cons x xs)
  then have "successively R xs" and "xs \<noteq> [] \<Longrightarrow> R (last xs) b" and "R (last (x # xs)) b"
    using assms(3,4) by (auto simp: successively_Cons)
  then show ?thesis
    using Cons assms(3) push_content(3) [OF assms(1,2)] by (auto simp: successively_append_iff)
qed

lemma pop_linked:
  assumes "wf c" and "pop c = Ok c'" and "successively R (content c)"
  shows "successively R (content c')"
proof -
  have c: "content c = butlast (content c) @ [last (content c)]"
    using assms pop_content(4) by simp
  from assms(3) have "successively R (butlast (content c))"
    by (subst (asm) c) (simp add: successively_append_iff)
  then show ?thesis using assms by (simp add: pop_content)
qed

lemma pop_after_push:
  assumes "wf c" and "push b c = Ok c'" and "length (content c) < capacity c"
  shows "\<exists>c''. pop c' = Ok c'' \<and> content c'' = content c"
  using assms pop [of c'] by (auto simp: push_content)

text \<open>A buffer keeps the newest \<open>capacity\<close> of what was added: a sliding window.\<close>

lemma pushAll_window:
  assumes "wf c"
  shows "\<exists>c'. pushAll push bs c = Ok c' \<and> wf c' \<and> capacity c' = capacity c \<and>
    content c' = drop (length (content c @ bs) - capacity c) (content c @ bs)"
  using assms
proof (induction bs arbitrary: c)
  case Nil
  then show ?case using wf_capacity [of c] by simp
next
  case (Cons b bs)
  obtain c1 where c1: "push b c = Ok c1" "wf c1" "capacity c1 = capacity c"
    "content c1 = (if length (content c) < capacity c then content c else tl (content c)) @ [b]"
    using push [OF Cons.prems, of b] by auto
  from Cons.IH [OF c1(2)] obtain c' where c': "pushAll push bs c1 = Ok c'" "wf c'"
    "capacity c' = capacity c"
    "content c' = drop (length (content c1 @ bs) - capacity c) (content c1 @ bs)"
    using c1(3) by auto
  have "drop (length (content c1 @ bs) - capacity c) (content c1 @ bs)
      = drop (length (content c @ b # bs) - capacity c) (content c @ b # bs)"
  proof (cases "length (content c) < capacity c")
    case True
    then show ?thesis by (simp add: c1(4))
  next
    case False
    then have full: "length (content c) = capacity c" "content c \<noteq> []"
      using wf_capacity [OF Cons.prems] by auto
    then obtain x xs where "content c = x # xs" by (cases "content c") auto
    then show ?thesis using full by (simp add: c1(4) flip: full(1))
  qed
  with c1 c' show ?case by simp
qed

end

end
