(* ===== verification/Btc_Cache.thy ===== *)
theory Btc_Cache
  imports Btc_Types Block_Buffer
begin

text \<open>
  The BTC cache (\<^verbatim>\<open>types/btccache.go\<close>): a bounded list of the latest blocks. Every method
  takes the lock for its whole body, so each is one atomic step; the model is a function on
  the cache. A method that fails leaves the cache unchanged, so an outcome carries the new
  cache only on success. The slots that the code sets to nil before re-slicing are outside
  the slice afterwards, so the list holds no nil entry.
\<close>

record btc_cache =
  blocks :: "indexed_block list"
  maxEntries :: u64

section \<open>Operations\<close>

definition NewBTCCache :: "u64 \<Rightarrow> btc_cache outcome" where
  "NewBTCCache maxEntries' =
     (if maxEntries' = 0 then Err ErrInvalidMaxEntries
      else if makeslice_panics maxEntries' then Panic MakeSliceOutOfRange
      else Ok \<lparr>blocks = [], maxEntries = maxEntries'\<rparr>)"

definition cache_size :: "btc_cache \<Rightarrow> u64" where
  "cache_size b = of_nat (length (blocks b))"

definition Size :: "btc_cache \<Rightarrow> u64" where
  "Size b = cache_size b"

definition add :: "indexed_block \<Rightarrow> btc_cache \<Rightarrow> btc_cache outcome" where
  "add ib b =
     (if cache_size b > maxEntries b then Panic (PanicErr ErrTooManyEntries)
      else if cache_size b = maxEntries b
      then (if blocks b = [] then Panic IndexOutOfRange
            else Ok (b\<lparr>blocks := tl (blocks b) @ [ib]\<rparr>))
      else Ok (b\<lparr>blocks := blocks b @ [ib]\<rparr>))"

definition Add :: "indexed_block \<Rightarrow> btc_cache \<Rightarrow> btc_cache outcome" where
  "Add ib b = add ib b"

text \<open>
  \<^verbatim>\<open>sort.SliceIsSorted(ibs, less)\<close>: no element is less than the one before it.
\<close>

definition sorted_by_height :: "indexed_block list \<Rightarrow> bool" where
  "sorted_by_height ibs = successively (\<lambda>a b. \<not> ht b < ht a) ibs"

fun add_all :: "indexed_block list \<Rightarrow> btc_cache \<Rightarrow> btc_cache outcome" where
  "add_all [] b = Ok b"
| "add_all (ib # ibs) b = thenOk (add ib b) (add_all ibs)"

definition Init :: "indexed_block list \<Rightarrow> btc_cache \<Rightarrow> btc_cache outcome" where
  "Init ibs b =
     (if int (length ibs) > int_of_uint64 (maxEntries b) then Err ErrTooManyEntries
      else if \<not> sorted_by_height ibs then Err ErrorUnsortedBlocks
      else add_all ibs b)"

definition First :: "btc_cache \<Rightarrow> indexed_block option" where
  "First b = (if cache_size b = 0 then None else Some (blocks b ! 0))"

definition Tip :: "btc_cache \<Rightarrow> indexed_block option" where
  "Tip b = (if cache_size b = 0 then None else Some (blocks b ! (length (blocks b) - 1)))"

definition RemoveLast :: "btc_cache \<Rightarrow> btc_cache outcome" where
  "RemoveLast b =
     (if cache_size b = 0 then Err ErrEmptyCache
      else Ok (b\<lparr>blocks := take (length (blocks b) - 1) (blocks b)\<rparr>))"

definition RemoveAll :: "btc_cache \<Rightarrow> btc_cache" where
  "RemoveAll b = b\<lparr>blocks := []\<rparr>"

text \<open>
  The loop of \<^verbatim>\<open>GetLastBlocks\<close>: \<open>i\<close> runs down from the last index; \<^verbatim>\<open>j\<close> stays 0 when no
  block has the height.
\<close>

fun scan_down :: "indexed_block list \<Rightarrow> i32 \<Rightarrow> nat \<Rightarrow> nat" where
  "scan_down bs h 0 = 0"
| "scan_down bs h (Suc i) = (if Height (bs ! i) = h then i else scan_down bs h i)"

definition outOfRange :: "btc_cache \<Rightarrow> u64 \<Rightarrow> bool" where
  "outOfRange b h =
     (sint (int32_of_uint64 h) < ht (blocks b ! 0)
      \<or> ht (blocks b ! (length (blocks b) - 1)) < sint (int32_of_uint64 h))"

definition GetLastBlocks :: "u64 \<Rightarrow> btc_cache \<Rightarrow> indexed_block list outcome" where
  "GetLastBlocks stopHeight b =
     (if blocks b = [] then Panic IndexOutOfRange
      else if outOfRange b stopHeight
      then Err (ErrMessage ''the given stopHeight is out of range of BTC cache'')
      else Ok (drop (scan_down (blocks b) (int32_of_uint64 stopHeight) (length (blocks b)))
                 (blocks b)))"

definition GetAllBlocks :: "btc_cache \<Rightarrow> indexed_block list" where
  "GetAllBlocks b = blocks b"

text \<open>
  \<^verbatim>\<open>TrimConfirmedBlocks\<close> returns the blocks taken off. A negative \<^verbatim>\<open>k\<close> makes the re-slicing
  \<^verbatim>\<open>b.blocks[l-k:]\<close> go past the end.
\<close>

definition TrimConfirmedBlocks :: "int \<Rightarrow> btc_cache \<Rightarrow> (indexed_block list \<times> btc_cache) outcome" where
  "TrimConfirmedBlocks k b =
     (let l = int (length (blocks b)) in
      if l \<le> k then Ok ([], b)
      else if k < 0 then Panic SliceOutOfRange
      else Ok (take (nat (l - k)) (blocks b), b\<lparr>blocks := drop (nat (l - k)) (blocks b)\<rparr>))"

text \<open>The binary search of \<^verbatim>\<open>FindBlock\<close>, on \<^verbatim>\<open>uint64\<close> bounds as in the code.\<close>

partial_function (option) find_loop ::
  "indexed_block list \<Rightarrow> i32 \<Rightarrow> u64 \<Rightarrow> u64 \<Rightarrow> indexed_block option outcome option" where
  "find_loop bs h leftBound rightBound =
     (if leftBound \<le> rightBound
      then (let midPoint = leftBound + (rightBound - leftBound) div 2 in
            if length bs \<le> unat midPoint then Some (Panic IndexOutOfRange)
            else if Height (bs ! unat midPoint) = h then Some (Ok (Some (bs ! unat midPoint)))
            else if sint h < ht (bs ! unat midPoint)
            then find_loop bs h leftBound (midPoint - 1)
            else find_loop bs h (midPoint + 1) rightBound)
      else Some (Ok None))"

definition FindBlock :: "u64 \<Rightarrow> btc_cache \<Rightarrow> indexed_block option outcome" where
  "FindBlock blockHeight b =
     (if blocks b = [] then Panic IndexOutOfRange
      else if outOfRange b blockHeight then Ok None
      else case find_loop (blocks b) (int32_of_uint64 blockHeight) 0 (cache_size b - 1) of
             Some r \<Rightarrow> r
           | None \<Rightarrow> Hang)"

definition Resize :: "u64 \<Rightarrow> btc_cache \<Rightarrow> btc_cache outcome" where
  "Resize maxEntries' b =
     (if maxEntries' = 0 then Err ErrInvalidMaxEntries else Ok (b\<lparr>maxEntries := maxEntries'\<rparr>))"

definition Trim :: "btc_cache \<Rightarrow> btc_cache outcome" where
  "Trim b =
     (if cache_size b < maxEntries b then Ok b
      else (let from = int (length (blocks b)) - int_of_uint64 (maxEntries b) in
            if from < 0 \<or> int (length (blocks b)) < from then Panic SliceOutOfRange
            else Ok (b\<lparr>blocks := drop (nat from) (blocks b)\<rparr>)))"

section \<open>The invariant and the size\<close>

text \<open>
  The well-formed caches: the bound is positive (\<^verbatim>\<open>NewBTCCache\<close> and \<^verbatim>\<open>Resize\<close> refuse 0), it is
  a length a Go slice can have, and the size is within it.
\<close>

definition cache_wf :: "btc_cache \<Rightarrow> bool" where
  "cache_wf b \<longleftrightarrow> 0 < unat (maxEntries b) \<and> unat (maxEntries b) < 2 ^ 63
     \<and> length (blocks b) \<le> unat (maxEntries b)"

lemma cache_wfD:
  assumes "cache_wf b"
  shows "0 < unat (maxEntries b)" and "unat (maxEntries b) < 2 ^ 63"
    and "length (blocks b) \<le> unat (maxEntries b)" and "length (blocks b) < 2 ^ 63"
  using assms by (auto simp: cache_wf_def)

lemma unat_cache_size: "length (blocks b) < 2 ^ 63 \<Longrightarrow> unat (cache_size b) = length (blocks b)"
  by (simp add: cache_size_def unat_of_nat_u64)

lemma cache_size_compare:
  assumes "length (blocks b) < 2 ^ 63"
  shows "cache_size b > maxEntries b \<longleftrightarrow> length (blocks b) > unat (maxEntries b)"
    and "cache_size b < maxEntries b \<longleftrightarrow> length (blocks b) < unat (maxEntries b)"
    and "cache_size b = maxEntries b \<longleftrightarrow> length (blocks b) = unat (maxEntries b)"
    and "cache_size b = 0 \<longleftrightarrow> blocks b = []"
  using unat_cache_size [OF assms]
  by (auto simp: word_less_nat_alt word_unat_eq_iff)

lemma add_wf:
  assumes "cache_wf b"
  shows "add ib b = Ok (b\<lparr>blocks :=
    (if length (blocks b) < unat (maxEntries b) then blocks b else tl (blocks b)) @ [ib]\<rparr>)"
proof -
  note wf = cache_wfD [OF assms]
  show ?thesis
    using wf(1,3) by (auto simp: add_def cache_size_compare [OF wf(4)])
qed

text \<open>The cache provides the interface its clients rely on.\<close>

interpretation cache: block_buffer blocks "\<lambda>b. unat (maxEntries b)" cache_wf add RemoveLast First Tip
proof
  fix b c :: btc_cache and ib :: indexed_block
  assume wf: "cache_wf b"
  note wfD = cache_wfD [OF wf] and sz = cache_size_compare [OF cache_wfD(4) [OF wf]]
  show "0 < unat (maxEntries b) \<and> length (blocks b) \<le> unat (maxEntries b)"
    using wfD by simp
  show "\<exists>c'. add ib b = Ok c' \<and> cache_wf c' \<and> unat (maxEntries c') = unat (maxEntries b) \<and>
      blocks c' = (if length (blocks b) < unat (maxEntries b) then blocks b else tl (blocks b)) @ [ib]"
    using wfD by (auto simp: add_wf [OF wf] cache_wf_def)
  show "First b = (if blocks b = [] then None else Some (hd (blocks b)))"
    by (simp add: First_def sz hd_conv_nth)
  show "Tip b = (if blocks b = [] then None else Some (last (blocks b)))"
    by (simp add: Tip_def sz last_conv_nth)
  show "blocks b = [] \<Longrightarrow> RemoveLast b = Err ErrEmptyCache"
    by (simp add: RemoveLast_def sz)
  show "blocks b \<noteq> [] \<Longrightarrow> \<exists>c'. RemoveLast b = Ok c' \<and> cache_wf c' \<and>
      unat (maxEntries c') = unat (maxEntries b) \<and> blocks c' = butlast (blocks b)"
    using wfD by (auto simp: RemoveLast_def sz cache_wf_def butlast_conv_take)
qed

lemma add_all_pushAll: "add_all ibs b = pushAll add ibs b"
  by (induction ibs arbitrary: b) (simp_all add: thenOk_def split: outcome.splits)

lemma add_maxEntries: "add ib b = Ok c \<Longrightarrow> maxEntries c = maxEntries b"
  by (auto simp: add_def split: if_splits)

lemma add_all_maxEntries: "add_all ibs b = Ok c \<Longrightarrow> maxEntries c = maxEntries b"
  by (induction ibs arbitrary: b) (auto simp: thenOk_Ok_iff dest: add_maxEntries)

lemma NewBTCCache_wf: "NewBTCCache m = Ok b \<Longrightarrow> cache_wf b \<and> blocks b = [] \<and> maxEntries b = m"
  by (auto simp: NewBTCCache_def makeslice_panics_def cache_wf_def unat_gt_0 split: if_splits)

lemma Init_Ok_iff:
  assumes wf: "cache_wf b" and empty: "blocks b = []"
  shows "Init ibs b = Ok c \<longleftrightarrow>
    length ibs \<le> unat (maxEntries b) \<and> sorted_by_height ibs \<and> c = b\<lparr>blocks := ibs\<rparr>"
proof -
  note wfD = cache_wfD [OF wf]
  have max: "int (length ibs) > int_of_uint64 (maxEntries b) \<longleftrightarrow> length ibs > unat (maxEntries b)"
    unfolding sint_eq_unat_u64 [OF wfD(2)] by (simp only: of_nat_less_iff)
  obtain c' where c': "add_all ibs b = Ok c'"
    "blocks c' = drop (length ibs - unat (maxEntries b)) ibs"
    using cache.pushAll_window [OF wf, of ibs] empty by (auto simp: add_all_pushAll)
  have "length ibs \<le> unat (maxEntries b) \<Longrightarrow> c' = b\<lparr>blocks := ibs\<rparr>"
    using c' add_all_maxEntries [OF c'(1)] by simp
  then show ?thesis
    using c' by (auto simp: Init_def max)
qed

section \<open>Reading the cache by height\<close>

lemma sorted_by_height_nth:
  assumes "sorted_by_height bs" and "i \<le> j" and "j < length bs"
  shows "ht (bs ! i) \<le> ht (bs ! j)"
proof -
  have "transp (\<lambda>a b. \<not> ht b < ht a)" by (auto simp: transp_def)
  then have "sorted_wrt (\<lambda>a b. \<not> ht b < ht a) bs"
    using assms(1) by (simp add: sorted_by_height_def successively_conv_sorted_wrt)
  then show ?thesis
    using assms(2,3) by (cases "i = j") (auto simp: sorted_wrt_iff_nth_less not_less)
qed

lemma chain_sorted_by_height: "chain H bs \<Longrightarrow> sorted_by_height bs"
  unfolding sorted_by_height_def chain_def
  by (erule successively_mono) (simp add: linked_def)

lemma outOfRange_chain:
  assumes "chain H (blocks b)" and "blocks b \<noteq> []"
  shows "outOfRange b h \<longleftrightarrow> \<not> (\<exists>x \<in> set (blocks b). Height x = int32_of_uint64 h)"
proof -
  let ?h = "int32_of_uint64 h" and ?bs = "blocks b"
  have nth: "ht (?bs ! i) = ht (hd ?bs) + int i" if "i < length ?bs" for i
    using chain_ht_nth [OF assms(1) that] .
  have hd: "?bs ! 0 = hd ?bs" using assms(2) by (simp add: hd_conv_nth)
  have last: "ht (?bs ! (length ?bs - 1)) = ht (hd ?bs) + int (length ?bs) - 1"
    using nth [of "length ?bs - 1"] assms(2) by (simp add: of_nat_diff Suc_le_eq)
  have "(\<exists>x \<in> set ?bs. Height x = ?h) \<longleftrightarrow> (\<exists>i < length ?bs. ht (?bs ! i) = sint ?h)"
    unfolding sint_inject by (metis in_set_conv_nth)
  also have "\<dots> \<longleftrightarrow> (\<exists>i < length ?bs. ht (hd ?bs) + int i = sint ?h)"
    by (auto simp: nth)
  also have "\<dots> \<longleftrightarrow> ht (hd ?bs) \<le> sint ?h \<and> sint ?h < ht (hd ?bs) + int (length ?bs)"
    by (auto intro: exI [of _ "nat (sint ?h - ht (hd ?bs))"])
  finally show ?thesis
    unfolding outOfRange_def last unfolding hd by auto
qed

text \<open>One turn of the binary search, in natural numbers.\<close>

lemma find_loop_turn:
  assumes len: "length bs < 2 ^ 63" and r: "unat r < length bs" and "l \<le> r"
  shows "\<exists>mid. unat l \<le> unat mid \<and> unat mid \<le> unat r \<and> unat (mid + 1) = unat mid + 1
    \<and> (unat mid \<noteq> 0 \<longrightarrow> unat (mid - 1) = unat mid - 1)
    \<and> find_loop bs h l r =
        (if Height (bs ! unat mid) = h then Some (Ok (Some (bs ! unat mid)))
         else if sint h < ht (bs ! unat mid) then find_loop bs h l (mid - 1)
         else find_loop bs h (mid + 1) r)"
proof -
  define mid where "mid = l + (r - l) div 2"
  have lr: "unat l \<le> unat r" using \<open>l \<le> r\<close> by (simp add: word_le_nat_alt)
  have M: "unat mid = unat l + (unat r - unat l) div 2"
    unfolding mid_def using \<open>l \<le> r\<close> by (rule unat_midpoint)
  have bounds: "unat l \<le> unat mid" "unat mid \<le> unat r" using lr M by linarith+
  have Mlen: "unat mid < length bs" using bounds(2) r by simp
  have "unat (mid + 1) = unat mid + 1"
    using Mlen len by (simp add: unat_word_ariths)
  moreover have "unat mid \<noteq> 0 \<longrightarrow> unat (mid - 1) = unat mid - 1"
    by (simp add: unat_sub word_le_nat_alt)
  moreover have "find_loop bs h l r =
      (if Height (bs ! unat mid) = h then Some (Ok (Some (bs ! unat mid)))
       else if sint h < ht (bs ! unat mid) then find_loop bs h l (mid - 1)
       else find_loop bs h (mid + 1) r)"
    using \<open>l \<le> r\<close> Mlen by (subst find_loop.simps) (simp add: mid_def [symmetric] Let_def)
  ultimately show ?thesis using bounds by blast
qed

text \<open>
  The binary search on any non-empty list whose first height is not above \<open>h\<close>: it returns,
  reads no index out of range, and what it finds has the height; on a sorted list it misses
  nothing between its bounds.
\<close>

lemma find_loop_correct:
  assumes len: "length bs < 2 ^ 63" and first: "ht (bs ! 0) \<le> sint h"
    and r: "unat r < length bs" and l: "unat l \<le> unat r + 1"
  shows "\<exists>res. find_loop bs h l r = Some (Ok res)
    \<and> (\<forall>x. res = Some x \<longrightarrow> x \<in> set bs \<and> Height x = h)
    \<and> (res = None \<longrightarrow> sorted_by_height bs
        \<longrightarrow> (\<forall>i. unat l \<le> i \<and> i \<le> unat r \<longrightarrow> Height (bs ! i) \<noteq> h))"
  using r l
proof (induction "unat r + 1 - unat l" arbitrary: l r rule: less_induct)
  case less
  show ?case
  proof (cases "l \<le> r")
    case False
    then have "unat r < unat l" by (simp add: word_le_nat_alt)
    then show ?thesis using False by (subst find_loop.simps) auto
  next
    case True
    from find_loop_turn [OF len less.prems(1) True, of h] obtain mid where
      lM: "unat l \<le> unat mid" and Mr: "unat mid \<le> unat r" and up: "unat (mid + 1) = unat mid + 1"
      and dn: "unat mid \<noteq> 0 \<longrightarrow> unat (mid - 1) = unat mid - 1"
      and step: "find_loop bs h l r =
        (if Height (bs ! unat mid) = h then Some (Ok (Some (bs ! unat mid)))
         else if sint h < ht (bs ! unat mid) then find_loop bs h l (mid - 1)
         else find_loop bs h (mid + 1) r)" by blast
    have Mlen: "unat mid < length bs" using Mr less.prems(1) by simp
    consider (found) "Height (bs ! unat mid) = h"
      | (left) "Height (bs ! unat mid) \<noteq> h" "sint h < ht (bs ! unat mid)"
      | (right) "Height (bs ! unat mid) \<noteq> h" "ht (bs ! unat mid) < sint h"
      by (metis less_linear sint_inject)
    then show ?thesis
    proof cases
      case found
      then show ?thesis using Mlen by (auto simp: step)
    next
      case left
      then have "unat mid \<noteq> 0" using first by (metis leD)
      then have down: "unat (mid - 1) = unat mid - 1" using dn by simp
      have above: "sorted_by_height bs \<Longrightarrow> unat mid \<le> i \<Longrightarrow> i \<le> unat r \<Longrightarrow> Height (bs ! i) \<noteq> h" for i
        using sorted_by_height_nth [of bs "unat mid" i] left less.prems(1) by auto
      have "\<exists>res. find_loop bs h l (mid - 1) = Some (Ok res)
        \<and> (\<forall>x. res = Some x \<longrightarrow> x \<in> set bs \<and> Height x = h)
        \<and> (res = None \<longrightarrow> sorted_by_height bs
            \<longrightarrow> (\<forall>i. unat l \<le> i \<and> i \<le> unat (mid - 1) \<longrightarrow> Height (bs ! i) \<noteq> h))"
        using \<open>unat mid \<noteq> 0\<close> lM Mr Mlen down by (intro less.hyps) auto
      then show ?thesis
        using left above \<open>unat mid \<noteq> 0\<close> by (auto simp: step down) (metis Suc_leI Suc_pred leI not_less_eq_eq)
    next
      case right
      have below: "sorted_by_height bs \<Longrightarrow> i \<le> unat mid \<Longrightarrow> Height (bs ! i) \<noteq> h" for i
        using sorted_by_height_nth [of bs i "unat mid"] right Mlen by auto
      have "\<exists>res. find_loop bs h (mid + 1) r = Some (Ok res)
        \<and> (\<forall>x. res = Some x \<longrightarrow> x \<in> set bs \<and> Height x = h)
        \<and> (res = None \<longrightarrow> sorted_by_height bs
            \<longrightarrow> (\<forall>i. unat (mid + 1) \<le> i \<and> i \<le> unat r \<longrightarrow> Height (bs ! i) \<noteq> h))"
        using lM Mr less.prems up by (intro less.hyps) auto
      then show ?thesis
        using right below by (auto simp: step up) (metis Suc_leI leI)
    qed
  qed
qed

lemma FindBlock_correct:
  assumes "blocks b \<noteq> []" and len: "length (blocks b) < 2 ^ 63"
  shows "\<exists>res. FindBlock h b = Ok res
    \<and> (\<forall>x. res = Some x \<longrightarrow> x \<in> set (blocks b) \<and> Height x = int32_of_uint64 h)
    \<and> (res = None \<longrightarrow> sorted_by_height (blocks b)
        \<longrightarrow> (\<forall>x \<in> set (blocks b). Height x \<noteq> int32_of_uint64 h))"
proof (cases "outOfRange b h")
  case True
  have "sorted_by_height (blocks b) \<Longrightarrow> x \<in> set (blocks b) \<Longrightarrow> Height x \<noteq> int32_of_uint64 h" for x
  proof -
    assume s: "sorted_by_height (blocks b)" and "x \<in> set (blocks b)"
    then obtain i where i: "i < length (blocks b)" "x = blocks b ! i" by (auto simp: in_set_conv_nth)
    then have "ht (blocks b ! 0) \<le> ht x" and "ht x \<le> ht (blocks b ! (length (blocks b) - 1))"
      using s by (auto intro: sorted_by_height_nth)
    then show ?thesis using True by (auto simp: outOfRange_def)
  qed
  then show ?thesis using True assms(1) by (simp add: FindBlock_def)
next
  case False
  have pos: "0 < length (blocks b)" using assms(1) by simp
  have "unat (cache_size b) = length (blocks b)" using len by (rule unat_cache_size)
  then have r: "unat (cache_size b - 1) = length (blocks b) - 1"
    using pos by (subst unat_sub) (auto simp: word_le_nat_alt Suc_le_eq)
  have "ht (blocks b ! 0) \<le> sint (int32_of_uint64 h)"
    using False by (auto simp: outOfRange_def)
  from find_loop_correct [OF len this, of "cache_size b - 1" 0] obtain res where
    "find_loop (blocks b) (int32_of_uint64 h) 0 (cache_size b - 1) = Some (Ok res)"
    and "\<forall>x. res = Some x \<longrightarrow> x \<in> set (blocks b) \<and> Height x = int32_of_uint64 h"
    and "res = None \<longrightarrow> sorted_by_height (blocks b)
      \<longrightarrow> (\<forall>i. i \<le> length (blocks b) - 1 \<longrightarrow> Height (blocks b ! i) \<noteq> int32_of_uint64 h)"
    using r pos by auto
  moreover have "i \<le> length (blocks b) - 1 \<longleftrightarrow> i < length (blocks b)" for i
    using pos by linarith
  ultimately show ?thesis
    using False assms(1) by (auto simp: FindBlock_def in_set_conv_nth)
qed

lemma FindBlock_Ok_Some:
  assumes "FindBlock h b = Ok (Some x)" and "length (blocks b) < 2 ^ 63"
  shows "x \<in> set (blocks b)" and "Height x = int32_of_uint64 h"
proof -
  have "blocks b \<noteq> []" using assms(1) by (auto simp: FindBlock_def)
  with FindBlock_correct [of b h] assms
  show "x \<in> set (blocks b)" and "Height x = int32_of_uint64 h" by auto
qed

section \<open>The last blocks\<close>

lemma scan_down_found:
  "\<lbrakk>i < n; Height (bs ! i) = h; \<And>j. i < j \<Longrightarrow> j < n \<Longrightarrow> Height (bs ! j) \<noteq> h\<rbrakk> \<Longrightarrow> scan_down bs h n = i"
  by (induction n) (auto simp: less_Suc_eq)

lemma scan_down_le: "scan_down bs h n \<le> n"
  by (induction n) auto

lemma scan_down_chain:
  assumes "chain H bs" and "i < length bs" and "Height (bs ! i) = h"
  shows "scan_down bs h (length bs) = i"
  using assms by (intro scan_down_found) (metis chain_ht_inj less_irrefl)+

text \<open>
  On a chain \<open>GetLastBlocks\<close> returns the suffix that starts at the asked height, and fails
  exactly when no block has it.
\<close>

lemma GetLastBlocks_chain:
  assumes c: "chain H (blocks b)" and "blocks b \<noteq> []"
  shows "(\<exists>pre x post. blocks b = pre @ x # post \<and> Height x = int32_of_uint64 h
            \<and> GetLastBlocks h b = Ok (x # post))
    \<or> ((\<forall>x \<in> set (blocks b). Height x \<noteq> int32_of_uint64 h) \<and> (\<exists>e. GetLastBlocks h b = Err e))"
proof (cases "outOfRange b h")
  case True
  then show ?thesis
    using assms outOfRange_chain [OF c] by (auto simp: GetLastBlocks_def)
next
  case False
  then obtain i where i: "i < length (blocks b)" "Height (blocks b ! i) = int32_of_uint64 h"
    using outOfRange_chain [OF c assms(2)] by (auto simp: in_set_conv_nth)
  then have "GetLastBlocks h b = Ok (drop i (blocks b))"
    using False assms(2) scan_down_chain [OF c] by (simp add: GetLastBlocks_def)
  then have "blocks b = take i (blocks b) @ blocks b ! i # drop (Suc i) (blocks b)"
    and "GetLastBlocks h b = Ok (blocks b ! i # drop (Suc i) (blocks b))"
    using i by (simp_all add: Cons_nth_drop_Suc)
  then show ?thesis using i by blast
qed

lemma GetLastBlocks_suffix:
  assumes "GetLastBlocks h b = Ok bs"
  shows "\<exists>pre. blocks b = pre @ bs"
proof -
  let ?i = "scan_down (blocks b) (int32_of_uint64 h) (length (blocks b))"
  have "bs = drop ?i (blocks b)"
    using assms by (simp add: GetLastBlocks_def split: if_splits)
  then have "blocks b = take ?i (blocks b) @ bs" by simp
  then show ?thesis ..
qed

lemma Trim_Ok:
  assumes "length (blocks b) < 2 ^ 63" and "unat (maxEntries b) < 2 ^ 63"
  shows "Trim b = Ok (b\<lparr>blocks := drop (length (blocks b) - unat (maxEntries b)) (blocks b)\<rparr>)"
proof -
  note max = sint_eq_unat_u64 [OF assms(2)]
  have d: "nat (int (length (blocks b)) - int (unat (maxEntries b)))
      = length (blocks b) - unat (maxEntries b)"
    by (simp only: nat_minus_as_int)
  show ?thesis
    unfolding Trim_def Let_def max d cache_size_compare(2) [OF assms(1)]
    by (cases b) auto
qed

end
