(* ===== verification/Reorg_List.thy ===== *)
theory Reorg_List
  imports Btc_Types
begin

text \<open>
  The list of blocks removed by a reorganisation (\<^verbatim>\<open>reporter/reorg_list.go\<close>) and the work of
  a branch (\<^verbatim>\<open>calculateBranchWork\<close> in \<^verbatim>\<open>reporter/utils.go\<close>). Each method holds the lock for
  its body. The two are compared by the reporter, so the point of the lemmas is that the
  list keeps the same measure of work that \<open>calculateBranchWork\<close> computes.
\<close>

record removed_block =
  rb_height :: u64
  rb_header :: block_header

record reorg_list =
  workOfRemovedBlocks :: nat
  removedBlocks :: "removed_block list"

definition newReorgList :: reorg_list where
  "newReorgList = \<lparr>workOfRemovedBlocks = 0, removedBlocks = []\<rparr>"

definition addRemovedBlock ::
  "header_funs \<Rightarrow> u64 \<Rightarrow> block_header \<Rightarrow> reorg_list \<Rightarrow> reorg_list" where
  "addRemovedBlock hf height header r =
     (let headerWork = hf_CalcHeaderWork hf header;
          newWork = hf_CumulativeWork hf headerWork (workOfRemovedBlocks r)
      in r\<lparr>removedBlocks := removedBlocks r @ [\<lparr>rb_height = height, rb_header = header\<rparr>],
           workOfRemovedBlocks := newWork\<rparr>)"

definition getLastRemovedBlock :: "reorg_list \<Rightarrow> removed_block option" where
  "getLastRemovedBlock r =
     (if length (removedBlocks r) = 0 then None
      else Some (removedBlocks r ! (length (removedBlocks r) - 1)))"

definition clear :: "reorg_list \<Rightarrow> reorg_list" where
  "clear r = r\<lparr>removedBlocks := [], workOfRemovedBlocks := 0\<rparr>"

definition reorg_size :: "reorg_list \<Rightarrow> nat" where
  "reorg_size r = length (removedBlocks r)"

definition removedBranchWork :: "reorg_list \<Rightarrow> nat" where
  "removedBranchWork r = workOfRemovedBlocks r"

text \<open>\<^verbatim>\<open>calculateBranchWork\<close>: the loop over the branch with the work so far.\<close>

fun branchWorkLoop :: "header_funs \<Rightarrow> nat \<Rightarrow> indexed_block list \<Rightarrow> nat" where
  "branchWorkLoop hf currentWork [] = currentWork"
| "branchWorkLoop hf currentWork (h # branch) =
     branchWorkLoop hf
       (hf_CumulativeWork hf (hf_CalcHeaderWork hf (Header h)) currentWork) branch"

definition calculateBranchWork :: "header_funs \<Rightarrow> indexed_block list \<Rightarrow> nat" where
  "calculateBranchWork hf branch = branchWorkLoop hf 0 branch"

section \<open>The work kept is the work of the removed branch\<close>

text \<open>
  The documented behaviour of \<^verbatim>\<open>CumulativeWork\<close>: the sum of its arguments.
\<close>

definition additive_work :: "header_funs \<Rightarrow> bool" where
  "additive_work hf \<longleftrightarrow> (\<forall>a b. hf_CumulativeWork hf a b = a + b)"

text \<open>The removed blocks as a branch, in the order they were removed.\<close>

definition removed_branch :: "reorg_list \<Rightarrow> indexed_block list" where
  "removed_branch r =
     map (\<lambda>rb. \<lparr>Height = ucast (rb_height rb), Header = rb_header rb, Txs = []\<rparr>) (removedBlocks r)"

definition reorg_wf :: "header_funs \<Rightarrow> reorg_list \<Rightarrow> bool" where
  "reorg_wf hf r \<longleftrightarrow> removedBranchWork r = calculateBranchWork hf (removed_branch r)"

lemma branchWorkLoop_append:
  "branchWorkLoop hf w (xs @ ys) = branchWorkLoop hf (branchWorkLoop hf w xs) ys"
  by (induction xs arbitrary: w) auto

lemma reorg_wf_clear [simp]: "reorg_wf hf (clear r)"
  by (simp add: reorg_wf_def clear_def removedBranchWork_def removed_branch_def
      calculateBranchWork_def)

lemma reorg_wf_new [simp]: "reorg_wf hf newReorgList"
  by (simp add: reorg_wf_def newReorgList_def removedBranchWork_def removed_branch_def
      calculateBranchWork_def)

lemma reorg_wf_add: "reorg_wf hf r \<Longrightarrow> reorg_wf hf (addRemovedBlock hf h header r)"
  by (simp add: reorg_wf_def addRemovedBlock_def removedBranchWork_def removed_branch_def
      calculateBranchWork_def branchWorkLoop_append Let_def)

lemma branchWorkLoop_sum:
  "additive_work hf \<Longrightarrow>
     branchWorkLoop hf w bs = w + (\<Sum>b\<leftarrow>bs. hf_CalcHeaderWork hf (Header b))"
  by (induction bs arbitrary: w) (auto simp: additive_work_def)

lemma removedBlocks_add [simp]:
  "removedBlocks (addRemovedBlock hf h header r)
     = removedBlocks r @ [\<lparr>rb_height = h, rb_header = header\<rparr>]"
  by (simp add: addRemovedBlock_def Let_def)

lemma removedBlocks_clear [simp]: "removedBlocks (clear r) = []"
  by (simp add: clear_def)

lemma getLast_add [simp]:
  "getLastRemovedBlock (addRemovedBlock hf h header r) = Some \<lparr>rb_height = h, rb_header = header\<rparr>"
  by (simp add: getLastRemovedBlock_def)

lemma getLast_iff: "getLastRemovedBlock r = (if reorg_size r = 0 then None else Some (last (removedBlocks r)))"
  by (auto simp: getLastRemovedBlock_def reorg_size_def last_conv_nth)

end
