(* ===== verification/Submit.thy ===== *)
theory Submit
  imports Btc_Client Btc_Cache Reorg_List
begin

text \<open>
  Submitting headers to Lorenzo (\<^verbatim>\<open>reporter/utils.go\<close>), with the reporter's state
  (\<^verbatim>\<open>reporter/reporter.go\<close>), the interface of the Lorenzo client
  (\<^verbatim>\<open>reporter/expected_lorenzo_client.go\<close>) and the metrics (\<^verbatim>\<open>metrics/reporter.go\<close>).

  The Lorenzo client is the SDK's, a parameter: a record of actions on the outside world
  \<open>'w\<close>. So is \<^verbatim>\<open>retry.Do\<close> of Lorenzo's retry package. It runs a closure that assigns the
  captured variable \<^verbatim>\<open>res\<close>, so it acts on the world together with that variable, which is
  nil (\<open>None\<close>) until a call has answered.
\<close>

section \<open>The Lorenzo client, the reporter and its state\<close>

record lrz_header =
  lrz_Height :: u64
  lrz_Hash :: hash

record 'w lorenzo_client =
  MustGetAddr :: "('w, string) action"
  InsertHeaders :: "msg_insert_headers \<Rightarrow> ('w, nat) action"
  ContainsBTCBlock :: "hash \<Rightarrow> ('w, bool) action"
  BTCHeaderChainTip :: "('w, lrz_header) action"
  BTCBaseHeader :: "('w, lrz_header) action"

text \<open>
  The counters of \<^verbatim>\<open>metrics.ReporterMetrics\<close>: the two counters are only ever increased by
  lengths, so they are naturals; the labelled gauge is the list of labels set, in order.
\<close>

record reporter_metrics =
  SuccessfulHeadersCounter :: nat
  FailedHeadersCounter :: nat
  SecondsSinceLastHeaderGauge :: nat
  NewReportedHeaderGaugeVec :: "hash list"

definition NewReporterMetrics :: reporter_metrics where
  "NewReporterMetrics = \<lparr>SuccessfulHeadersCounter = 0, FailedHeadersCounter = 0,
     SecondsSinceLastHeaderGauge = 0, NewReportedHeaderGaugeVec = []\<rparr>"

text \<open>A tick of the goroutine \<^verbatim>\<open>RecordMetrics\<close> starts: another second since the last header.\<close>

definition RecordMetrics_tick :: "reporter_metrics \<Rightarrow> reporter_metrics" where
  "RecordMetrics_tick m = m\<lparr>SecondsSinceLastHeaderGauge := SecondsSinceLastHeaderGauge m + 1\<rparr>"

text \<open>
  \<^verbatim>\<open>Reporter\<close> is split into what its methods only read (clients, configuration, external
  functions) and what they change. \<open>btcCache\<close> is \<open>None\<close> while the pointer is nil.
\<close>

record 'w reporter =
  btcClient :: "'w btc_client"
  lorenzoClient :: "'w lorenzo_client"
  retryDo :: "('w \<times> bool option, unit) action \<Rightarrow> ('w \<times> bool option, unit) action"
  headerFuns :: header_funs
  cfg_BTCCacheSize :: u64
  cfg_MaxHeadersInMsg :: u32
  btcConfirmationDepth :: u64
  checkpointFinalizationTimeout :: u64
  delayBlocks :: u64

record 'w reporter_state =
  btcCache :: "btc_cache option"
  reorgList :: reorg_list
  metrics :: reporter_metrics
  outside :: 'w

text \<open>A call of a client from a method of the reporter, and one under \<^verbatim>\<open>retry.Do\<close>.\<close>

definition call :: "('w, 'a) action \<Rightarrow> ('w reporter_state, 'a) action" where
  "call m s = (case m (outside s) of (r, w) \<Rightarrow> (r, s\<lparr>outside := w\<rparr>))"

text \<open>
  The closure of the query: \<^verbatim>\<open>res, err = ContainsBTCBlock(...)\<close>; a nil response comes with an
  error.
\<close>

definition containsAttempt ::
  "'w lorenzo_client \<Rightarrow> hash \<Rightarrow> ('w \<times> bool option, unit) action" where
  "containsAttempt l blockHash st =
     (case ContainsBTCBlock l blockHash (fst st) of
        (Ok b, w) \<Rightarrow> (Ok (), (w, Some b))
      | (r, w) \<Rightarrow> (reraise r, (w, None)))"

definition insertAttempt ::
  "'w lorenzo_client \<Rightarrow> msg_insert_headers \<Rightarrow> ('w \<times> bool option, unit) action" where
  "insertAttempt l msg st =
     (case InsertHeaders l msg (fst st) of
        (Ok code, w) \<Rightarrow> (Ok (), (w, snd st))
      | (r, w) \<Rightarrow> (reraise r, (w, snd st)))"

section \<open>Chunks\<close>

text \<open>
  \<^verbatim>\<open>chunkBy\<close>: \<^verbatim>\<open>chunks\<close> is the named result, nil at the start. With \<^verbatim>\<open>chunkSize\<close> 0 the loop makes
  no progress, so the function is partial.
\<close>

partial_function (option) chunkLoop :: "'a list \<Rightarrow> nat \<Rightarrow> 'a list list \<Rightarrow> 'a list list option" where
  "chunkLoop items chunkSize chunks =
     (if chunkSize < length items
      then chunkLoop (drop chunkSize items) chunkSize (chunks @ [take chunkSize items])
      else Some (chunks @ [items]))"

definition chunkBy :: "'a list \<Rightarrow> nat \<Rightarrow> 'a list list outcome" where
  "chunkBy items chunkSize =
     (case chunkLoop items chunkSize [] of Some cs \<Rightarrow> Ok cs | None \<Rightarrow> Hang)"

section \<open>Messages to submit\<close>

text \<open>
  The loop that looks for the first header Lorenzo does not contain: its index, or \<open>None\<close> for
  a \<^verbatim>\<open>startPoint\<close> of -1. Reading \<^verbatim>\<open>res.Contains\<close> of a nil response panics.
\<close>

fun findStart ::
  "'w reporter \<Rightarrow> nat \<Rightarrow> indexed_block list \<Rightarrow> ('w, nat option) action" where
  "findStart r i [] w = (Ok None, w)"
| "findStart r i (ib # ibs) w =
     (case retryDo r
             (containsAttempt (lorenzoClient r) (BlockHash (hf_BlockHash (headerFuns r)) ib))
             (w, None) of
        (Ok _, (w', Some True)) \<Rightarrow> findStart r (Suc i) ibs w'
      | (Ok _, (w', Some False)) \<Rightarrow> (Ok (Some i), w')
      | (Ok _, (w', None)) \<Rightarrow> (Panic NilDereference, w')
      | (e, (w', _)) \<Rightarrow> (reraise e, w'))"

definition getHeaderMsgsToSubmit ::
  "'w reporter \<Rightarrow> string \<Rightarrow> indexed_block list \<Rightarrow> ('w reporter_state, msg_insert_headers list) action"
  where
  "getHeaderMsgsToSubmit r signer ibs =
     andThen (call (findStart r 0 ibs)) (\<lambda>startPoint.
     case startPoint of
       None \<Rightarrow> lift (Ok [])
     | Some i \<Rightarrow>
         andThen (lift (chunkBy (drop i ibs) (unat (cfg_MaxHeadersInMsg r)))) (\<lambda>blockChunks.
         lift (Ok (map (NewMsgInsertHeaders (hf_Encode (headerFuns r)) signer) blockChunks))))"

definition countFailed :: "nat \<Rightarrow> 'w reporter_state \<Rightarrow> 'w reporter_state" where
  "countFailed n s = s\<lparr>metrics := (metrics s)\<lparr>FailedHeadersCounter :=
     FailedHeadersCounter (metrics s) + n\<rparr>\<rparr>"

definition countSuccessful :: "hash list \<Rightarrow> 'w reporter_state \<Rightarrow> 'w reporter_state" where
  "countSuccessful labels s = s\<lparr>metrics := (metrics s)\<lparr>
     SuccessfulHeadersCounter := SuccessfulHeadersCounter (metrics s) + length labels,
     SecondsSinceLastHeaderGauge := 0,
     NewReportedHeaderGaugeVec := NewReportedHeaderGaugeVec (metrics s) @ labels\<rparr>\<rparr>"

definition submitHeaderMsgs ::
  "'w reporter \<Rightarrow> msg_insert_headers \<Rightarrow> ('w reporter_state, unit) action" where
  "submitHeaderMsgs r msg s =
     (case retryDo r (insertAttempt (lorenzoClient r) msg) (outside s, None) of
        (Ok _, (w, _)) \<Rightarrow>
          (Ok (), countSuccessful (map (hf_BytesHash (headerFuns r)) (Headers msg)) (s\<lparr>outside := w\<rparr>))
      | (Err e, (w, _)) \<Rightarrow>
          (Err (ErrWrapped ''failed to submit headers'' e),
           countFailed (length (Headers msg)) (s\<lparr>outside := w\<rparr>))
      | (e, (w, _)) \<Rightarrow> (reraise e, s\<lparr>outside := w\<rparr>))"

text \<open>
  The gauge of seconds counts the ticks since the last message that was accepted: a submission that
  fails leaves it alone, one that succeeds resets it.
\<close>

lemma submitHeaderMsgs_gauge:
  assumes "submitHeaderMsgs r msg s = (out, s')"
  shows "SecondsSinceLastHeaderGauge (metrics s')
    = (case out of Ok _ \<Rightarrow> 0 | _ \<Rightarrow> SecondsSinceLastHeaderGauge (metrics s))"
  using assms
  by (auto simp: submitHeaderMsgs_def countSuccessful_def countFailed_def split: prod.splits outcome.splits
      elim: reraise.elims)

lemma RecordMetrics_ticks:
  "(RecordMetrics_tick ^^ n) m = m\<lparr>SecondsSinceLastHeaderGauge := SecondsSinceLastHeaderGauge m + n\<rparr>"
  by (induction n) (simp_all add: RecordMetrics_tick_def)

text \<open>The loop of \<^verbatim>\<open>ProcessHeaders\<close> over the messages.\<close>

fun submitLoop ::
  "'w reporter \<Rightarrow> nat \<Rightarrow> msg_insert_headers list \<Rightarrow> ('w reporter_state, nat) action" where
  "submitLoop r numSubmitted [] s = (Ok numSubmitted, s)"
| "submitLoop r numSubmitted (msg # msgs) s =
     andThen (wrapErr ''failed to submit headers'' (submitHeaderMsgs r msg))
       (\<lambda>_. submitLoop r (numSubmitted + length (Headers msg)) msgs) s"

text \<open>
  The deferred log statement reads \<^verbatim>\<open>ibs[0]\<close> whatever the outcome, so an empty list panics
  when the function returns.
\<close>

definition ProcessHeaders ::
  "'w reporter \<Rightarrow> string \<Rightarrow> indexed_block list \<Rightarrow> ('w reporter_state, nat) action" where
  "ProcessHeaders r signer ibs s =
     (case andThen (wrapErr ''failed to find headers to submit'' (getHeaderMsgsToSubmit r signer ibs))
             (\<lambda>headerMsgsToSubmit. submitLoop r 0 headerMsgsToSubmit) s of
        (Hang, s') \<Rightarrow> (Hang, s')
      | (out, s') \<Rightarrow> if ibs = [] then (Panic IndexOutOfRange, s') else (out, s'))"

section \<open>Chunking\<close>

lemma chunkLoop_spec:
  assumes "0 < k"
  shows "\<exists>cs. chunkLoop items k chunks = Some (chunks @ cs) \<and> concat cs = items
    \<and> (\<forall>c \<in> set cs. length c \<le> k) \<and> (\<forall>c \<in> set (butlast cs). length c = k)
    \<and> cs \<noteq> [] \<and> (items \<noteq> [] \<longrightarrow> [] \<notin> set cs)"
proof (induction "length items" arbitrary: items chunks rule: less_induct)
  case less
  show ?case
  proof (cases "k < length items")
    case False
    then show ?thesis by (subst chunkLoop.simps) auto
  next
    case True
    have "length (drop k items) < length items" using True assms by simp
    from less [OF this, of "chunks @ [take k items]"] obtain cs where
      "chunkLoop (drop k items) k (chunks @ [take k items]) = Some ((chunks @ [take k items]) @ cs)"
      "concat cs = drop k items" "\<forall>c \<in> set cs. length c \<le> k" "\<forall>c \<in> set (butlast cs). length c = k"
      "cs \<noteq> []" "drop k items \<noteq> [] \<longrightarrow> [] \<notin> set cs"
      by blast
    then show ?thesis
      using True assms by (subst chunkLoop.simps) (auto intro!: exI [of _ "take k items # cs"])
  qed
qed

lemma chunkLoop_zero_diverges:
  assumes "items \<noteq> []"
  shows "chunkLoop items 0 chunks = None"
proof (rule ccontr)
  assume "chunkLoop items 0 chunks \<noteq> None"
  then obtain cs where cs: "chunkLoop items 0 chunks = Some cs" by auto
  have "0 < (0 :: nat) \<or> items = []"
  proof (rule chunkLoop.raw_induct [where P = "\<lambda>items k chunks r. 0 < k \<or> items = []", OF _ cs])
    fix f :: "'a list \<Rightarrow> nat \<Rightarrow> 'a list list \<Rightarrow> 'a list list option" and items k chunks r
    assume IH: "\<And>items k chunks r. f items k chunks = Some r \<Longrightarrow> 0 < k \<or> items = []"
      and eq: "(if k < length items then f (drop k items) k (chunks @ [take k items])
        else Some (chunks @ [items])) = Some r"
    show "0 < k \<or> items = []"
    proof (cases "k < length items")
      case True
      with eq have "f (drop k items) k (chunks @ [take k items]) = Some r" by simp
      then have "0 < k \<or> drop k items = []" by (rule IH)
      with True show ?thesis by auto
    next
      case False
      then show ?thesis by (cases items) auto
    qed
  qed
  with assms show False by simp
qed

lemma chunkBy_Ok_iff:
  "chunkBy items k = Ok cs \<longleftrightarrow> chunkLoop items k [] = Some cs"
  by (auto simp: chunkBy_def split: option.splits)

lemma chunkBy_total: "0 < k \<Longrightarrow> \<exists>cs. chunkBy items k = Ok cs"
  using chunkLoop_spec [of k items "[]"] by (auto simp: chunkBy_Ok_iff)

lemma chunkBy_Ok:
  assumes "chunkBy items k = Ok cs" and "items \<noteq> []"
  shows "0 < k" and "concat cs = items" and "\<forall>c \<in> set cs. length c \<le> k"
    and "\<forall>c \<in> set (butlast cs). length c = k" and "[] \<notin> set cs"
proof -
  show k: "0 < k"
  proof (rule ccontr)
    assume "\<not> 0 < k"
    then show False using assms chunkLoop_zero_diverges [of items "[]"] by (simp add: chunkBy_Ok_iff)
  qed
  from chunkLoop_spec [OF k, of items "[]"] assms
  show "concat cs = items" and "\<forall>c \<in> set cs. length c \<le> k"
    and "\<forall>c \<in> set (butlast cs). length c = k" and "[] \<notin> set cs"
    by (auto simp: chunkBy_Ok_iff)
qed

section \<open>The first header Lorenzo does not contain\<close>

text \<open>\<open>reported r ib b\<close>: under \<^verbatim>\<open>retry.Do\<close> Lorenzo has answered \<open>b\<close> for the hash of \<open>ib\<close>.\<close>

definition reported :: "'w reporter \<Rightarrow> indexed_block \<Rightarrow> bool \<Rightarrow> bool" where
  "reported r ib b \<longleftrightarrow> (\<exists>w w'. retryDo r
     (containsAttempt (lorenzoClient r) (BlockHash (hf_BlockHash (headerFuns r)) ib)) (w, None)
       = (Ok (), (w', Some b)))"

lemma findStart_Cons_Ok_iff:
  "findStart r i (ib # ibs) w = (Ok res, w2) \<longleftrightarrow>
     (\<exists>w1 b. retryDo r
         (containsAttempt (lorenzoClient r) (BlockHash (hf_BlockHash (headerFuns r)) ib)) (w, None)
           = (Ok (), (w1, Some b))
       \<and> (if b then findStart r (Suc i) ibs w1 = (Ok res, w2) else res = Some i \<and> w2 = w1))"
  by (auto split: prod.splits outcome.splits option.splits bool.splits if_splits
      elim!: reraise.elims)

lemma findStart_spec:
  assumes "findStart r i ibs w = (Ok res, w')"
  shows "case res of
      None \<Rightarrow> \<forall>ib \<in> set ibs. reported r ib True
    | Some j \<Rightarrow> \<exists>pre ib post. ibs = pre @ ib # post \<and> j = i + length pre
        \<and> (\<forall>x \<in> set pre. reported r x True) \<and> reported r ib False"
  using assms
proof (induction ibs arbitrary: i w)
  case Nil
  then show ?case by auto
next
  case (Cons ib ibs)
  from Cons.prems [unfolded findStart_Cons_Ok_iff] obtain w1 b where
    "retryDo r (containsAttempt (lorenzoClient r) (BlockHash (hf_BlockHash (headerFuns r)) ib)) (w, None)
       = (Ok (), (w1, Some b))"
    and step: "if b then findStart r (Suc i) ibs w1 = (Ok res, w') else res = Some i \<and> w' = w1"
    by blast
  then have b: "reported r ib b" by (auto simp: reported_def)
  show ?case
  proof (cases b)
    case False
    then show ?thesis using step b by (auto intro!: exI [of _ "[]"])
  next
    case True
    then have IH: "case res of None \<Rightarrow> \<forall>x \<in> set ibs. reported r x True
      | Some j \<Rightarrow> \<exists>pre x post. ibs = pre @ x # post \<and> j = Suc i + length pre
          \<and> (\<forall>y \<in> set pre. reported r y True) \<and> reported r x False"
      using Cons.IH step by simp
    show ?thesis
    proof (cases res)
      case None
      then show ?thesis using IH b True by simp
    next
      case (Some j)
      with IH obtain pre x post where "ibs = pre @ x # post" "j = Suc i + length pre"
        "\<forall>y \<in> set pre. reported r y True" "reported r x False" by auto
      then show ?thesis using b True Some
        by (auto intro!: exI [of _ "ib # pre"])
    qed
  qed
qed

section \<open>What reaches Lorenzo\<close>

text \<open>
  The documented behaviour of \<^verbatim>\<open>retry.Do\<close>: it calls the closure until a call returns no
  error, or until it gives up, and returns what the last call returned. \<open>attempts f s t\<close>: from
  \<open>s\<close>, calls of \<open>f\<close> that all return an error lead to \<open>t\<close>.
\<close>

inductive attempts :: "('s, unit) action \<Rightarrow> 's \<Rightarrow> 's \<Rightarrow> bool" for f where
  start: "attempts f s s"
| again: "attempts f s t \<Longrightarrow> f t = (Err e, u) \<Longrightarrow> attempts f s u"

definition retry_lawful :: "(('s, unit) action \<Rightarrow> ('s, unit) action) \<Rightarrow> bool" where
  "retry_lawful R \<longleftrightarrow> (\<forall>f s. \<exists>t. attempts f s t \<and> R f s = f t)"

lemma retry_lawfulE:
  assumes "retry_lawful R"
  obtains t where "attempts f s t" and "R f s = f t"
  using assms unfolding retry_lawful_def by blast

lemma attempts_inv:
  assumes "attempts f s t" and "P s" and "\<And>s e t. P s \<Longrightarrow> f s = (Err e, t) \<Longrightarrow> P t"
  shows "P t"
  using assms by induction auto

text \<open>
  A Lorenzo client that also keeps the messages it has accepted, in order: the observer in
  the statements about what is submitted. It answers as the client it wraps.
\<close>

definition logging :: "'w lorenzo_client \<Rightarrow> ('w \<times> msg_insert_headers list) lorenzo_client" where
  "logging l =
     \<lparr>MustGetAddr = logged (MustGetAddr l),
      InsertHeaders = (\<lambda>msg st. case InsertHeaders l msg (fst st) of
          (Ok code, w) \<Rightarrow> (Ok code, (w, snd st @ [msg]))
        | (r, w) \<Rightarrow> (r, (w, snd st))),
      ContainsBTCBlock = (\<lambda>h. logged (ContainsBTCBlock l h)),
      BTCHeaderChainTip = logged (BTCHeaderChainTip l),
      BTCBaseHeader = logged (BTCBaseHeader l)\<rparr>"

abbreviation accepted :: "('w \<times> 'm list) reporter_state \<Rightarrow> 'm list" where
  "accepted s \<equiv> snd (outside s)"

text \<open>
  A Bitcoin client that does not touch the log; \<open>watching\<close> makes one of any client. A reporter is
  observed when its Lorenzo client logs what it accepts and its Bitcoin client leaves the log alone.
\<close>

definition watching :: "'w btc_client \<Rightarrow> ('w \<times> 'm list) btc_client" where
  "watching b =
     \<lparr>GetBestBlock = logged (GetBestBlock b),
      GetBlockByHash = (\<lambda>h. logged (GetBlockByHash b h)),
      GetBlockByHeight = (\<lambda>h. logged (GetBlockByHeight b h)),
      FindTailBlocksByHeight = (\<lambda>h. logged (FindTailBlocksByHeight b h)),
      FindRangeBlocksByHeight = (\<lambda>h k. logged (FindRangeBlocksByHeight b h k)),
      MustSubscribeBlocks = logged (MustSubscribeBlocks b)\<rparr>"

definition aside :: "('w \<times> 'm list) btc_client \<Rightarrow> bool" where
  "aside b \<longleftrightarrow> keeps_log (GetBestBlock b) \<and> (\<forall>h. keeps_log (GetBlockByHash b h))
     \<and> (\<forall>h. keeps_log (GetBlockByHeight b h)) \<and> (\<forall>h. keeps_log (FindTailBlocksByHeight b h))
     \<and> (\<forall>h k. keeps_log (FindRangeBlocksByHeight b h k)) \<and> keeps_log (MustSubscribeBlocks b)"

definition observed :: "('w \<times> msg_insert_headers list) reporter \<Rightarrow> bool" where
  "observed r \<longleftrightarrow> retry_lawful (retryDo r) \<and> (\<exists>l. lorenzoClient r = logging l) \<and> aside (btcClient r)"

lemma watching_aside: "aside (watching b)"
  by (simp add: aside_def watching_def log_keeping)

lemma retry_contains_log:
  assumes "retry_lawful (retryDo r)" and l: "lorenzoClient r = logging l"
  shows "snd (fst (snd (retryDo r (containsAttempt (lorenzoClient r) h) st))) = snd (fst st)"
proof -
  let ?f = "containsAttempt (lorenzoClient r) h"
  have keep: "snd (fst (snd (?f s))) = snd (fst s)" for s
    by (auto simp: containsAttempt_def l logging_def logged_def split: prod.splits outcome.splits)
  obtain t where t: "attempts ?f st t" "retryDo r ?f st = ?f t"
    using assms(1) by (rule retry_lawfulE)
  have "snd (fst t) = snd (fst st)"
    using t(1)
  proof (rule attempts_inv)
    fix s e t' assume "snd (fst s) = snd (fst st)" and "?f s = (Err e, t')"
    then show "snd (fst t') = snd (fst st)" using keep [of s] by simp
  qed simp
  then show ?thesis by (simp add: t(2) keep)
qed

lemma retry_insert_log:
  assumes "retry_lawful (retryDo r)" and l: "lorenzoClient r = logging l"
    and run: "retryDo r (insertAttempt (lorenzoClient r) msg) st = (out, st')"
  shows "snd (fst st') = snd (fst st) @ (case out of Ok _ \<Rightarrow> [msg] | _ \<Rightarrow> [])"
proof -
  let ?f = "insertAttempt (lorenzoClient r) msg"
  have step: "snd (fst s') = snd (fst s) @ (case o' of Ok _ \<Rightarrow> [msg] | _ \<Rightarrow> [])"
    if "?f s = (o', s')" for s o' s'
    using that by (auto simp: insertAttempt_def l logging_def split: prod.splits outcome.splits)
  obtain t where t: "attempts ?f st t" "retryDo r ?f st = ?f t"
    using assms(1) by (rule retry_lawfulE)
  have "snd (fst t) = snd (fst st)"
    using t(1) by (rule attempts_inv) (auto dest: step)
  moreover have "?f t = (out, st')" using run t(2) by simp
  ultimately show ?thesis using step by fastforce
qed

lemma findStart_log:
  assumes "retry_lawful (retryDo r)" and "lorenzoClient r = logging l"
    and "findStart r i ibs w = (out, w')"
  shows "snd w' = snd w"
  using assms(3)
proof (induction ibs arbitrary: i w)
  case Nil
  then show ?case by simp
next
  case (Cons ib ibs)
  let ?q = "containsAttempt (lorenzoClient r) (BlockHash (hf_BlockHash (headerFuns r)) ib)"
  obtain o1 w1 res where q: "retryDo r ?q (w, None) = (o1, (w1, res))"
    by (metis prod_cases3)
  then have "snd w1 = snd w"
    using retry_contains_log [OF assms(1,2), of _ "(w, None)"] by (metis fst_conv snd_conv)
  then show ?case
    using Cons.prems Cons.IH q by (auto split: outcome.splits option.splits bool.splits)
qed

lemma submitHeaderMsgs_log:
  assumes "retry_lawful (retryDo r)" and "lorenzoClient r = logging l"
    and "submitHeaderMsgs r msg s = (out, s')"
  shows "accepted s' = accepted s @ (case out of Ok _ \<Rightarrow> [msg] | _ \<Rightarrow> [])"
    and "SuccessfulHeadersCounter (metrics s') = SuccessfulHeadersCounter (metrics s)
      + (case out of Ok _ \<Rightarrow> length (Headers msg) | _ \<Rightarrow> 0)"
proof -
  obtain o1 w res where q: "retryDo r (insertAttempt (lorenzoClient r) msg) (outside s, None) = (o1, (w, res))"
    by (metis prod_cases3)
  from retry_insert_log [OF assms(1,2) q]
  have "snd w = snd (outside s) @ (case o1 of Ok _ \<Rightarrow> [msg] | _ \<Rightarrow> [])" by simp
  then show "accepted s' = accepted s @ (case out of Ok _ \<Rightarrow> [msg] | _ \<Rightarrow> [])"
    and "SuccessfulHeadersCounter (metrics s') = SuccessfulHeadersCounter (metrics s)
      + (case out of Ok _ \<Rightarrow> length (Headers msg) | _ \<Rightarrow> 0)"
    using assms(3) q
    by (auto simp: submitHeaderMsgs_def countSuccessful_def countFailed_def split: outcome.splits)
qed

abbreviation headersIn :: "msg_insert_headers list \<Rightarrow> bytes list" where
  "headersIn msgs \<equiv> concat (map Headers msgs)"

lemma submitLoop_log:
  assumes "retry_lawful (retryDo r)" and "lorenzoClient r = logging l"
    and "submitLoop r n msgs s = (out, s')"
  shows "\<exists>sent unsent. msgs = sent @ unsent \<and> accepted s' = accepted s @ sent
    \<and> SuccessfulHeadersCounter (metrics s')
        = SuccessfulHeadersCounter (metrics s) + length (headersIn sent)
    \<and> (\<forall>m. out = Ok m \<longrightarrow> unsent = [] \<and> m = n + length (headersIn sent))"
  using assms(3)
proof (induction msgs arbitrary: n s)
  case Nil
  then show ?case by auto
next
  case (Cons msg msgs)
  obtain o1 s1 where sub: "submitHeaderMsgs r msg s = (o1, s1)" by (metis surj_pair)
  note log = submitHeaderMsgs_log [OF assms(1,2) sub]
  show ?case
  proof (cases "\<exists>u. o1 = Ok u")
    case True
    then have "submitLoop r (n + length (Headers msg)) msgs s1 = (out, s')"
      using Cons.prems sub by (auto simp: andThen_def wrapErr_def)
    from Cons.IH [OF this] obtain sent unsent where IH: "msgs = sent @ unsent"
      "accepted s' = accepted s1 @ sent"
      "SuccessfulHeadersCounter (metrics s')
        = SuccessfulHeadersCounter (metrics s1) + length (headersIn sent)"
      "\<forall>m. out = Ok m \<longrightarrow> unsent = [] \<and> m = n + length (Headers msg) + length (headersIn sent)"
      by blast
    have "accepted s1 = accepted s @ [msg]" and "SuccessfulHeadersCounter (metrics s1)
        = SuccessfulHeadersCounter (metrics s) + length (Headers msg)"
      using log True by auto
    then have "msg # msgs = (msg # sent) @ unsent \<and> accepted s' = accepted s @ msg # sent
      \<and> SuccessfulHeadersCounter (metrics s')
          = SuccessfulHeadersCounter (metrics s) + length (headersIn (msg # sent))
      \<and> (\<forall>m. out = Ok m \<longrightarrow> unsent = [] \<and> m = n + length (headersIn (msg # sent)))"
      using IH by (simp add: add.assoc)
    then show ?thesis by blast
  next
    case False
    then have "s' = s1" and "\<forall>m. out \<noteq> Ok m"
      using Cons.prems sub by (auto simp: andThen_def wrapErr_def split: outcome.splits)
    moreover have "accepted s1 = accepted s"
      and "SuccessfulHeadersCounter (metrics s1) = SuccessfulHeadersCounter (metrics s)"
      using log False by (cases o1; simp)+
    ultimately have "msg # msgs = [] @ msg # msgs \<and> accepted s' = accepted s @ []
      \<and> SuccessfulHeadersCounter (metrics s')
          = SuccessfulHeadersCounter (metrics s) + length (headersIn [])
      \<and> (\<forall>m. out = Ok m \<longrightarrow> msg # msgs = [] \<and> m = n + length (headersIn []))"
      by simp
    then show ?thesis by blast
  qed
qed

text \<open>
  \<open>submission r signer ibs sent\<close>: the messages \<open>sent\<close> carry, in order, the headers of a
  contiguous part of \<open>ibs\<close>, starting at the first block Lorenzo reported missing, in messages
  of at most \<^verbatim>\<open>MaxHeadersInMsg\<close> headers each; \<open>whole\<close> says that the part reaches the end.
\<close>

definition submission ::
  "'w reporter \<Rightarrow> string \<Rightarrow> bool \<Rightarrow> indexed_block list \<Rightarrow> msg_insert_headers list \<Rightarrow> bool" where
  "submission r signer whole ibs sent \<longleftrightarrow>
     (\<exists>pre part post. ibs = pre @ part @ post
        \<and> headersIn sent = map (hf_Encode (headerFuns r) \<circ> Header) part
        \<and> (\<forall>ib \<in> set pre. reported r ib True)
        \<and> (part \<noteq> [] \<longrightarrow> reported r (hd part) False)
        \<and> (whole \<longrightarrow> post = []))
     \<and> (\<forall>m \<in> set sent. Signer m = signer \<and> Headers m \<noteq> []
          \<and> length (Headers m) \<le> unat (cfg_MaxHeadersInMsg r))"

lemma getHeaderMsgs_Ok:
  assumes "getHeaderMsgsToSubmit r signer ibs s = (Ok msgs, s')"
  shows "\<exists>pre part. ibs = pre @ part
    \<and> headersIn msgs = map (hf_Encode (headerFuns r) \<circ> Header) part
    \<and> (\<forall>ib \<in> set pre. reported r ib True) \<and> (part \<noteq> [] \<longrightarrow> reported r (hd part) False)
    \<and> (\<forall>m \<in> set msgs. Signer m = signer \<and> Headers m \<noteq> []
        \<and> length (Headers m) \<le> unat (cfg_MaxHeadersInMsg r))"
proof -
  let ?H = "hf_BlockHash (headerFuns r)" and ?enc = "hf_Encode (headerFuns r)"
  from assms obtain res w' where res: "findStart r 0 ibs (outside s) = (Ok res, w')"
    and rest: "(case res of None \<Rightarrow> lift (Ok [])
       | Some i \<Rightarrow> andThen (lift (chunkBy (drop i ibs) (unat (cfg_MaxHeadersInMsg r)))) (\<lambda>blockChunks.
           lift (Ok (map (NewMsgInsertHeaders ?enc signer) blockChunks)))) (s\<lparr>outside := w'\<rparr>)
       = (Ok msgs, s')"
    by (auto simp: getHeaderMsgsToSubmit_def andThen_Ok_iff call_def split: prod.splits)
  show ?thesis
  proof (cases res)
    case None
    then have "msgs = []" using rest by simp
    then show ?thesis using findStart_spec [OF res] None by (auto intro!: exI [of _ ibs])
  next
    case (Some i)
    then obtain pre ib post where split: "ibs = pre @ ib # post" "i = length pre"
      "\<forall>x \<in> set pre. reported r x True" "reported r ib False"
      using findStart_spec [OF res] by auto
    obtain chunks where ch: "chunkBy (ib # post) (unat (cfg_MaxHeadersInMsg r)) = Ok chunks"
      and msgs: "msgs = map (NewMsgInsertHeaders ?enc signer) chunks"
      using rest Some split by (auto simp: andThen_Ok_iff)
    note spec = chunkBy_Ok [OF ch]
    have "headersIn msgs = map (?enc \<circ> Header) (concat chunks)"
      by (simp add: msgs NewMsgInsertHeaders_def map_concat comp_def)
    then have "headersIn msgs = map (?enc \<circ> Header) (ib # post)" using spec(2) by simp
    moreover have "\<forall>m \<in> set msgs. Signer m = signer \<and> Headers m \<noteq> []
        \<and> length (Headers m) \<le> unat (cfg_MaxHeadersInMsg r)"
      using spec(3,5) by (auto simp: msgs NewMsgInsertHeaders_def)
    ultimately show ?thesis using split by (intro exI [of _ pre] exI [of _ "ib # post"]) simp
  qed
qed

lemma getHeaderMsgs_log:
  assumes "retry_lawful (retryDo r)" and "lorenzoClient r = logging l"
    and "getHeaderMsgsToSubmit r signer ibs s = (out, s')"
  shows "accepted s' = accepted s \<and> metrics s' = metrics s"
proof -
  obtain o1 w' where q: "findStart r 0 ibs (outside s) = (o1, w')" by (metis surj_pair)
  then have "snd w' = snd (outside s)" by (rule findStart_log [OF assms(1,2)])
  then show ?thesis
    using assms(3) q
    by (auto simp: getHeaderMsgsToSubmit_def andThen_def call_def
        split: outcome.splits option.splits)
qed

text \<open>What a prefix of the messages made for the missing headers carries.\<close>

lemma submission_prefix:
  assumes msgs: "msgs = sent @ unsent" and fin: "all \<Longrightarrow> unsent = []"
    and part: "ibs = pre @ part" "headersIn msgs = map (hf_Encode (headerFuns r) \<circ> Header) part"
      "\<forall>ib \<in> set pre. reported r ib True" "part \<noteq> [] \<longrightarrow> reported r (hd part) False"
      "\<forall>m \<in> set msgs. Signer m = signer \<and> Headers m \<noteq> []
          \<and> length (Headers m) \<le> unat (cfg_MaxHeadersInMsg r)"
  shows "submission r signer all ibs sent"
proof -
  define k where "k = length (headersIn sent)"
  have "headersIn sent = take k (headersIn msgs)"
    by (simp add: msgs k_def)
  then have "headersIn sent = map (hf_Encode (headerFuns r) \<circ> Header) (take k part)"
    by (simp add: part(2) take_map)
  moreover have "drop k part = []" if all
    using fin [OF that] part(2) msgs by (auto simp: k_def dest: arg_cong [of _ _ length])
  moreover have "ibs = pre @ take k part @ drop k part" by (simp add: part(1))
  moreover have "take k part \<noteq> [] \<Longrightarrow> reported r (hd (take k part)) False"
    using part(4) by (cases part; cases k) auto
  moreover have "\<forall>m \<in> set sent. Signer m = signer \<and> Headers m \<noteq> []
      \<and> length (Headers m) \<le> unat (cfg_MaxHeadersInMsg r)"
    using part(5) msgs by simp
  ultimately show ?thesis
    using part(3) unfolding submission_def by blast
qed

lemma ProcessHeaders_log:
  assumes law: "retry_lawful (retryDo r)" and l: "lorenzoClient r = logging l"
    and run: "ProcessHeaders r signer ibs s = (out, s')"
  shows "\<exists>sent. accepted s' = accepted s @ sent
    \<and> submission r signer (\<exists>n. out = Ok n) ibs sent
    \<and> SuccessfulHeadersCounter (metrics s')
        = SuccessfulHeadersCounter (metrics s) + length (headersIn sent)
    \<and> (\<forall>n. out = Ok n \<longrightarrow> n = length (headersIn sent))"
proof -
  obtain o1 s1 where get: "getHeaderMsgsToSubmit r signer ibs s = (o1, s1)" by (metis surj_pair)
  note keep = getHeaderMsgs_log [OF law l get]
  show ?thesis
  proof (cases "\<exists>msgs. o1 = Ok msgs")
    case False
    then have "s' = s1" and "\<forall>n. out \<noteq> Ok n"
      using run get by (auto simp: ProcessHeaders_def andThen_def wrapErr_def split: outcome.splits if_splits)
    then show ?thesis
      using keep by (intro exI [of _ "[]"]) (auto simp: submission_def intro: exI [of _ "[]"])
  next
    case True
    then obtain msgs where msgs: "o1 = Ok msgs" ..
    then obtain o2 where loop: "submitLoop r 0 msgs s1 = (o2, s')"
      and out: "\<forall>n. out = Ok n \<longrightarrow> o2 = Ok n"
      using run get by (auto simp: ProcessHeaders_def andThen_def wrapErr_def split: prod.splits outcome.splits if_splits)
    from submitLoop_log [OF law l loop] obtain sent unsent where sent: "msgs = sent @ unsent"
      "accepted s' = accepted s1 @ sent"
      "SuccessfulHeadersCounter (metrics s')
        = SuccessfulHeadersCounter (metrics s1) + length (headersIn sent)"
      "\<forall>m. o2 = Ok m \<longrightarrow> unsent = [] \<and> m = length (headersIn sent)"
      by auto
    from getHeaderMsgs_Ok [of r signer ibs s msgs s1] get msgs obtain pre part where
      part: "ibs = pre @ part" "headersIn msgs = map (hf_Encode (headerFuns r) \<circ> Header) part"
      "\<forall>ib \<in> set pre. reported r ib True" "part \<noteq> [] \<longrightarrow> reported r (hd part) False"
      "\<forall>m \<in> set msgs. Signer m = signer \<and> Headers m \<noteq> []
          \<and> length (Headers m) \<le> unat (cfg_MaxHeadersInMsg r)"
      by auto
    have "unsent = []" if "\<exists>n. out = Ok n" using that out sent(4) by blast
    from submission_prefix [OF sent(1) this part]
    have "submission r signer (\<exists>n. out = Ok n) ibs sent" by blast
    then show ?thesis using keep sent out by auto
  qed
qed

section \<open>What a Lorenzo that accepts everything receives\<close>

text \<open>Every query is answered and every message accepted.\<close>

definition welcoming :: "'w reporter \<Rightarrow> bool" where
  "welcoming r \<longleftrightarrow>
     (\<forall>h w. \<exists>b w'. ContainsBTCBlock (lorenzoClient r) h w = (Ok b, w'))
     \<and> (\<forall>msg w. \<exists>code w'. InsertHeaders (lorenzoClient r) msg w = (Ok code, w'))
     \<and> (\<forall>w. \<exists>addr w'. MustGetAddr (lorenzoClient r) w = (Ok addr, w'))"

lemma contains_welcome:
  assumes "welcoming r" and "retry_lawful (retryDo r)"
  shows "\<exists>w' b. retryDo r (containsAttempt (lorenzoClient r) h) (w, None) = (Ok (), (w', Some b))"
proof -
  obtain t where "retryDo r (containsAttempt (lorenzoClient r) h) (w, None)
      = containsAttempt (lorenzoClient r) h t"
    using retry_lawfulE [OF assms(2)] by metis
  moreover obtain b w' where "ContainsBTCBlock (lorenzoClient r) h (fst t) = (Ok b, w')"
    using assms(1) unfolding welcoming_def by blast
  ultimately show ?thesis by (simp add: containsAttempt_def)
qed

lemma insert_welcome:
  assumes "welcoming r" and "retry_lawful (retryDo r)"
  shows "\<exists>st'. retryDo r (insertAttempt (lorenzoClient r) msg) st = (Ok (), st')"
proof -
  obtain t where "retryDo r (insertAttempt (lorenzoClient r) msg) st
      = insertAttempt (lorenzoClient r) msg t"
    using retry_lawfulE [OF assms(2)] by metis
  moreover obtain code w' where "InsertHeaders (lorenzoClient r) msg (fst t) = (Ok code, w')"
    using assms(1) unfolding welcoming_def by blast
  ultimately show ?thesis by (simp add: insertAttempt_def)
qed

lemma findStart_welcome:
  assumes "welcoming r" and "retry_lawful (retryDo r)"
  shows "\<exists>res w'. findStart r i ibs w = (Ok res, w')"
proof (induction ibs arbitrary: i w)
  case Nil
  then show ?case by simp
next
  case (Cons ib ibs)
  obtain w1 b where "retryDo r (containsAttempt (lorenzoClient r)
      (BlockHash (hf_BlockHash (headerFuns r)) ib)) (w, None) = (Ok (), (w1, Some b))"
    using contains_welcome [OF assms] by blast
  then show ?case using Cons.IH [of "Suc i" w1] by (cases b) auto
qed

lemma submitLoop_welcome:
  assumes "welcoming r" and "retry_lawful (retryDo r)"
  shows "\<exists>n' s'. submitLoop r n msgs s = (Ok n', s')"
proof (induction msgs arbitrary: n s)
  case Nil
  then show ?case by simp
next
  case (Cons msg msgs)
  obtain w b where "retryDo r (insertAttempt (lorenzoClient r) msg) (outside s, None) = (Ok (), (w, b))"
    using insert_welcome [OF assms] by (metis surj_pair)
  then have "\<exists>s1. wrapErr ''failed to submit headers'' (submitHeaderMsgs r msg) s = (Ok (), s1)"
    by (simp add: submitHeaderMsgs_def wrapErr_def)
  then show ?case using Cons.IH by (auto simp: andThen_def)
qed

lemma ProcessHeaders_welcome:
  assumes w: "welcoming r" "retry_lawful (retryDo r)"
    and chunk: "0 < unat (cfg_MaxHeadersInMsg r)" and ne: "ibs \<noteq> []"
  shows "\<exists>n s'. ProcessHeaders r signer ibs s = (Ok n, s')"
proof -
  obtain res w' where start: "findStart r 0 ibs (outside s) = (Ok res, w')"
    using findStart_welcome [OF w] by blast
  have "\<exists>msgs s1. getHeaderMsgsToSubmit r signer ibs s = (Ok msgs, s1)"
  proof (cases res)
    case None
    then show ?thesis using start by (simp add: getHeaderMsgsToSubmit_def andThen_def call_def)
  next
    case (Some i)
    obtain cs where "chunkBy (drop i ibs) (unat (cfg_MaxHeadersInMsg r)) = Ok cs"
      using chunkBy_total [OF chunk] by blast
    then show ?thesis using Some start by (simp add: getHeaderMsgsToSubmit_def andThen_def call_def)
  qed
  then obtain msgs s1 where "getHeaderMsgsToSubmit r signer ibs s = (Ok msgs, s1)" by blast
  then show ?thesis using submitLoop_welcome [OF w, of 0 msgs s1] ne
    by (auto simp: ProcessHeaders_def andThen_def wrapErr_def)
qed

end
