(* ===== verification/Samples.thy ===== *)
theory Samples
  imports Submit
begin

text \<open>
  Concrete instances of the external code, on which the properties of the reporter are applied
  to concrete inputs: headers whose hash is their nonce, a Bitcoin node with a main chain
  (block \<open>k\<close> has the hash \<open>k\<close>) and a branch that forks off above block 2 (its block of height
  \<open>k\<close> has the hash \<open>200 + k\<close>), a Lorenzo client that knows the blocks up to 1, and a retry
  that tries once.
\<close>

section \<open>Headers and blocks\<close>

definition sampleFuns :: header_funs where
  "sampleFuns = \<lparr>hf_BlockHash = (\<lambda>h. ucast (hdr_Nonce h)), hf_Encode = (\<lambda>h. [ucast (hdr_Nonce h)]),
     hf_BytesHash = (\<lambda>b. ucast (hd b)), hf_CalcHeaderWork = (\<lambda>h. unat (hdr_Bits h)),
     hf_CumulativeWork = (+)\<rparr>"

definition sampleHeader :: "u32 \<Rightarrow> block_header" where
  "sampleHeader n = \<lparr>hdr_Version = 1, PrevBlock = (if n = 203 then 2 else ucast (n - 1)),
     hdr_MerkleRoot = 0, hdr_Timestamp = 0, hdr_Bits = 1, hdr_Nonce = n\<rparr>"

definition sampleBlock :: "i32 \<Rightarrow> u32 \<Rightarrow> indexed_block" where
  "sampleBlock h n = \<lparr>Height = h, Header = sampleHeader n, Txs = []\<rparr>"

definition sampleHgt :: "hash \<Rightarrow> int" where
  "sampleHgt g = (if uint g < 100 then uint g
     else if 203 \<le> uint g \<and> uint g < 300 then uint g - 200 else - 1)"

section \<open>Clients\<close>

definition sampleNode :: "bool \<Rightarrow> u64 \<Rightarrow> unit rpc_client" where
  "sampleNode forked best =
     (let hashAt = (\<lambda>v. if forked \<and> 2 < v then 200 + ucast v else ucast v) in
      \<lparr>GetBestBlockHash = (\<lambda>w. (Ok (hashAt best), w)),
       GetBlockVerbose = (\<lambda>g w. (if sampleHgt g < 0 then Err (ErrExternal ''unknown block'')
         else Ok (word_of_int (sampleHgt g)), w)),
       GetBlock = (\<lambda>g w. (if sampleHgt g < 0 then Err (ErrExternal ''unknown block'')
         else Ok \<lparr>mb_Header = sampleHeader (ucast g), mb_Transactions = []\<rparr>, w)),
       GetBlockHash = (\<lambda>v w. (if best < v then Err (ErrExternal ''no such height'') else Ok (hashAt v), w)),
       NotifyBlocks = (\<lambda>w. (Ok (), w))\<rparr>)"

definition sampleClient :: "bool \<Rightarrow> u64 \<Rightarrow> unit btc_client" where
  "sampleClient forked best = client_of ''btcd'' id (\<lambda>w. (Ok (), w)) (sampleNode forked best)"

definition sampleLorenzo :: "u64 \<Rightarrow> unit lorenzo_client" where
  "sampleLorenzo lrz =
     \<lparr>MustGetAddr = (\<lambda>w. (Ok ''lrz1relayer'', w)),
      InsertHeaders = (\<lambda>msg w. (Ok 0, w)),
      ContainsBTCBlock = (\<lambda>g w. (Ok (uint g \<le> uint lrz), w)),
      BTCHeaderChainTip = (\<lambda>w. (Ok \<lparr>lrz_Height = lrz, lrz_Hash = ucast lrz\<rparr>, w)),
      BTCBaseHeader = (\<lambda>w. (Ok \<lparr>lrz_Height = 0, lrz_Hash = 0\<rparr>, w))\<rparr>"

text \<open>The reporter over these clients, observed; its state with a cache and a reorg list.\<close>

type_synonym sample_world = "unit \<times> msg_insert_headers list"

definition sampleReporter :: "bool \<Rightarrow> u64 \<Rightarrow> u64 \<Rightarrow> sample_world reporter" where
  "sampleReporter forked best lrz =
     \<lparr>btcClient = watching (sampleClient forked best), lorenzoClient = logging (sampleLorenzo lrz),
      retryDo = id, headerFuns = sampleFuns, cfg_BTCCacheSize = 1000, cfg_MaxHeadersInMsg = 100,
      btcConfirmationDepth = 10, checkpointFinalizationTimeout = 100, delayBlocks = 1\<rparr>"

definition sampleCache :: "indexed_block list \<Rightarrow> btc_cache" where
  "sampleCache bs = \<lparr>blocks = bs, maxEntries = 10\<rparr>"

definition sampleState :: "indexed_block list \<Rightarrow> sample_world reporter_state" where
  "sampleState bs = \<lparr>btcCache = Some (sampleCache bs), reorgList = newReorgList,
     metrics = NewReporterMetrics, outside = ((), [])\<rparr>"

named_theorems sample_simps \<open>evaluation of the samples\<close>

lemmas [sample_simps] = sampleFuns_def sampleHeader_def sampleBlock_def sampleHgt_def sampleNode_def
  sampleClient_def sampleLorenzo_def sampleReporter_def sampleCache_def sampleState_def

section \<open>The samples are lawful\<close>

lemma sint_small_i64: "0 \<le> k \<Longrightarrow> k < 1000 \<Longrightarrow> sint (word_of_int k :: 64 word) = k"
  by (simp add: signed_of_int signed_take_bit_int_eq_self)

lemma hash_down:
  assumes "uint (g :: 256 word) < 300"
  shows "uint (ucast g :: 32 word) = uint g"
  unfolding unsigned_ucast_eq using assms by (simp add: take_bit_int_eq_self)

lemma hash_up: "uint (ucast (g :: 32 word) :: 256 word) = uint g"
  unfolding unsigned_ucast_eq by (rule take_bit_int_eq_self) (simp_all add: order_less_le_trans [OF uint_lt2p])

lemma hash_up_down:
  assumes "uint (g :: 256 word) < 300"
  shows "ucast (ucast g :: 32 word) = g"
  by (simp only: word_uint_eq_iff hash_up hash_down [OF assms])

lemma hash_pred:
  assumes "uint (g :: 256 word) < 300" "0 < uint g"
  shows "uint (ucast ((ucast g :: 32 word) - 1) :: 256 word) = uint g - 1"
proof -
  have "(1 :: 32 word) \<le> ucast g"
    unfolding word_le_def hash_down [OF assms(1)] using assms(2) by simp
  from uint_sub_lem [THEN iffD1, of "1 :: 32 word" "ucast g"] this
  have "uint ((ucast g :: 32 word) - 1) = uint g - 1" by (simp add: word_le_def hash_down [OF assms(1)])
  then show ?thesis by (simp only: hash_up)
qed

lemma sampleHgt_bounds: "- 1 \<le> sampleHgt g" "sampleHgt g < 100" "0 \<le> sampleHgt g \<Longrightarrow> uint g < 300"
proof -
  have "0 \<le> uint g" by simp
  then have "- 1 \<le> uint g" by linarith
  then show "- 1 \<le> sampleHgt g" "sampleHgt g < 100" "0 \<le> sampleHgt g \<Longrightarrow> uint g < 300"
    unfolding sampleHgt_def by (auto split: if_splits)
qed

lemma sampleHeader_parent:
  assumes "0 \<le> sampleHgt g"
  shows "sampleHgt g = sampleHgt (PrevBlock (sampleHeader (ucast g))) + 1"
proof -
  note lt = sampleHgt_bounds(3) [OF assms] and down = hash_down [OF sampleHgt_bounds(3) [OF assms]]
  have is203: "ucast g = (203 :: u32) \<longleftrightarrow> uint g = 203"
    by (simp only: word_uint_eq_iff down) simp
  consider (zero) "uint g = 0" | (fork) "uint g = 203" | (other) "0 < uint g" "uint g \<noteq> 203"
    using uint_ge_0 [of g] by linarith
  then show ?thesis
  proof cases
    case zero
    then have "g = 0" by (simp add: word_uint_eq_iff)
    moreover have "uint (ucast (- 1 :: u32) :: hash) = 4294967295"
      unfolding hash_up by (simp add: unsigned_minus_1_eq_mask mask_eq_exp_minus_1)
    ultimately show ?thesis by (simp add: sampleHgt_def sampleHeader_def)
  next
    case fork
    then show ?thesis using is203 by (simp add: sampleHgt_def sampleHeader_def)
  next
    case other
    have "uint (PrevBlock (sampleHeader (ucast g))) = uint g - 1"
      using other is203 hash_pred [OF lt other(1)] by (simp add: sampleHeader_def)
    then show ?thesis using assms other by (auto simp: sampleHgt_def split: if_splits)
  qed
qed

lemma sampleNode_lawful: "node_lawful sampleFuns sampleHgt (sampleNode forked best)"
  unfolding node_lawful_def
proof (intro conjI allI impI)
  fix g w v w' mb
  show "- 1 \<le> sampleHgt g" and "sampleHgt g < 2 ^ 31" using sampleHgt_bounds [of g] by simp_all
  show "sint v = sampleHgt g" if "GetBlockVerbose (sampleNode forked best) g w = (Ok v, w')"
    using that sampleHgt_bounds [of g]
    by (auto simp: sampleNode_def Let_def sint_small_i64 split: if_splits)
  assume "GetBlock (sampleNode forked best) g w = (Ok mb, w')"
  then have g: "0 \<le> sampleHgt g" and mb: "mb_Header mb = sampleHeader (ucast g)"
    by (auto simp: sampleNode_def Let_def split: if_splits)
  show "hf_BlockHash sampleFuns (mb_Header mb) = g"
    using hash_up_down [OF sampleHgt_bounds(3) [OF g]] by (simp add: mb sampleFuns_def sampleHeader_def)
  show "sampleHgt g = sampleHgt (PrevBlock (mb_Header mb)) + 1"
    using sampleHeader_parent [OF g] by (simp add: mb)
qed

lemma watching_answers:
  "GetBlockByHash (watching b) h w = (x, w1) \<Longrightarrow> GetBlockByHash b h (fst w) = (x, fst w1)"
  "FindTailBlocksByHeight (watching b) k w = (y, w1) \<Longrightarrow> FindTailBlocksByHeight b k (fst w) = (y, fst w1)"
  "FindRangeBlocksByHeight (watching b) k l w = (y, w1) \<Longrightarrow>
    FindRangeBlocksByHeight b k l (fst w) = (y, fst w1)"
  by (auto simp: watching_def dest: logged_answer)

lemma watching_lawful:
  assumes law: "client_lawful hf hgt b"
  shows "client_lawful hf hgt (watching b)"
proof -
  note byHash = held_source.byHash [OF law watching_answers(1)]
    and findTail = held_source.findTail [OF law watching_answers(2)]
    and findRange = held_source.findRange [OF law watching_answers(3)]
  show ?thesis
    unfolding client_lawful_def
  proof (rule conjI)
    show "\<forall>h w ib mb w'. GetBlockByHash (watching b) h w = (Ok (ib, mb), w') \<longrightarrow>
        BlockHash (hf_BlockHash hf) ib = h \<and> Header ib = mb_Header mb \<and> on_node hf hgt ib"
      by (intro allI impI, rule byHash)
    show "(\<forall>base w bs w'. FindTailBlocksByHeight (watching b) base w = (Ok bs, w') \<longrightarrow>
        bs \<noteq> [] \<and> chain (hf_BlockHash hf) bs \<and> (\<forall>b \<in> set bs. on_node hf hgt b)
        \<and> ht (hd bs) = uint base)
     \<and> (\<forall>base high w bs w'. FindRangeBlocksByHeight (watching b) base high w = (Ok bs, w') \<longrightarrow>
        bs \<noteq> [] \<and> chain (hf_BlockHash hf) bs \<and> (\<forall>b \<in> set bs. on_node hf hgt b)
        \<and> ht (hd bs) = uint base)"
    proof (rule conjI)
    qed (intro allI impI, erule findTail findRange)+
  qed
qed

lemma sampleReporter_lawful:
  "client_lawful (headerFuns (sampleReporter forked best lrz)) sampleHgt
     (btcClient (sampleReporter forked best lrz))"
  by (simp add: sampleReporter_def sampleClient_def watching_lawful client_of_lawful sampleNode_lawful)

lemma retry_once: "retry_lawful id"
  unfolding retry_lawful_def by (auto intro: attempts.start)

lemma sampleReporter_observed: "observed (sampleReporter forked best lrz)"
  by (auto simp: observed_def sampleReporter_def retry_once watching_aside)

lemma ucast_small: "0 \<le> k \<Longrightarrow> k < 1000 \<Longrightarrow> (ucast (word_of_int k :: 64 word) :: 32 word) = word_of_int k"
  by (metis ucast_i32_eq sint_small_i64)

lemma sampleNode_byHash:
  assumes "0 \<le> sampleHgt g"
  shows "client_GetBlockByHash (sampleNode forked best) g w =
    (Ok (sampleBlock (word_of_int (sampleHgt g)) (ucast g),
         \<lparr>mb_Header = sampleHeader (ucast g), mb_Transactions = []\<rparr>), w)"
  using assms sampleHgt_bounds(2) [of g]
  by (simp add: client_GetBlockByHash_def andThen_def wrapErr_def sampleNode_def Let_def
      NewIndexedBlock_def GetWrappedTxs_def sampleBlock_def ucast_small)

lemma sampleReporter_welcoming: "welcoming (sampleReporter forked best lrz)"
  by (auto simp: welcoming_def sampleReporter_def logging_def logged_def sampleLorenzo_def
      split: prod.splits)

end
