(* ===== verification/Block_Handler.thy ===== *)
theory Block_Handler
  imports Samples
begin

text \<open>
  The handlers of block events (\<^verbatim>\<open>reporter/block_handler.go\<close>). A handler is one action on the
  reporter's state; a returned error means that the bootstrap has to run again. The handlers
  run in one goroutine, so the locks of the cache and of the reorg list never make them wait.
\<close>

section \<open>Access to the cache\<close>

text \<open>A method called through the nil pointer panics when it takes the lock.\<close>

definition readCache :: "(btc_cache \<Rightarrow> 'a outcome) \<Rightarrow> ('w reporter_state, 'a) action" where
  "readCache f s = (case btcCache s of None \<Rightarrow> (Panic NilDereference, s) | Some c \<Rightarrow> (f c, s))"

definition onCache :: "(btc_cache \<Rightarrow> btc_cache outcome) \<Rightarrow> ('w reporter_state, unit) action" where
  "onCache f s = (case btcCache s of
     None \<Rightarrow> (Panic NilDereference, s)
   | Some c \<Rightarrow> (case f c of Ok c' \<Rightarrow> (Ok (), s\<lparr>btcCache := Some c'\<rparr>) | e \<Rightarrow> (reraise e, s)))"

abbreviation hashOf :: "'w reporter \<Rightarrow> block_header \<Rightarrow> hash" where
  "hashOf r \<equiv> hf_BlockHash (headerFuns r)"

section \<open>Connected blocks\<close>

definition checkBestChain :: "'w reporter \<Rightarrow> block_event \<Rightarrow> ('w reporter_state, unit) action" where
  "checkBestChain r event =
     andThen (call (GetBlockByHeight (btcClient r) (uint64_of_int32 (ev_Height event)))) (\<lambda>(ib, _).
     if hashOf r (ev_Header event) = BlockHash (hashOf r) ib then lift (Ok ())
     else lift (Err (ErrMessage ''connected block is not on the best chain'')))"

text \<open>
  The headers to submit once the block \<open>ib\<close> is in the cache: in the middle of a reorg the
  current branch, when its work exceeds the work removed (the list is then cleared), else
  nothing; outside a reorg the new block, or what Lorenzo still lacks up to it.
\<close>

definition reorgHeaders :: "'w reporter \<Rightarrow> ('w reporter_state, indexed_block list) action" where
  "reorgHeaders r s = (case getLastRemovedBlock (reorgList s) of
     None \<Rightarrow> (Panic NilDereference, s)
   | Some oldest \<Rightarrow>
       andThen
         (orPanic (wrapErr ''failed to get block from cache after reorg''
           (readCache (GetLastBlocks (rb_height oldest)))))
         (\<lambda>currentBranch s.
           if calculateBranchWork (headerFuns r) currentBranch > removedBranchWork (reorgList s)
           then (Ok currentBranch, s\<lparr>reorgList := clear (reorgList s)\<rparr>)
           else (Ok [], s)) s)"

definition tipHeaders ::
  "'w reporter \<Rightarrow> indexed_block \<Rightarrow> ('w reporter_state, indexed_block list) action" where
  "tipHeaders r ib =
     andThen (call (BTCHeaderChainTip (lorenzoClient r))) (\<lambda>lorenzoTip.
     if lrz_Height lorenzoTip < uint64_of_int32 (Height ib - 1)
     then readCache (GetLastBlocks (lrz_Height lorenzoTip + 1))
     else lift (Ok [ib]))"

definition headersToProcess ::
  "'w reporter \<Rightarrow> indexed_block \<Rightarrow> ('w reporter_state, indexed_block list) action" where
  "headersToProcess r ib s =
     (if reorg_size (reorgList s) > 0 then reorgHeaders r s else tipHeaders r ib s)"

text \<open>A failure to submit is logged and not returned.\<close>

definition submitNewHeaders ::
  "'w reporter \<Rightarrow> indexed_block list \<Rightarrow> ('w reporter_state, unit) action" where
  "submitNewHeaders r headers =
     (if headers = [] then lift (Ok ())
      else andThen (call (MustGetAddr (lorenzoClient r))) (\<lambda>signer s.
        case ProcessHeaders r signer headers s of
          (Ok _, s') \<Rightarrow> (Ok (), s')
        | (Err _, s') \<Rightarrow> (Ok (), s')
        | (e, s') \<Rightarrow> (reraise e, s')))"

definition connectNewBlock :: "'w reporter \<Rightarrow> block_event \<Rightarrow> ('w reporter_state, unit) action" where
  "connectNewBlock r event =
     andThen (wrapErr ''failed to get block from BTC client''
       (call (GetBlockByHash (btcClient r) (hashOf r (ev_Header event))))) (\<lambda>(ib, mBlock).
     andThen (readCache (\<lambda>c. case Tip c of None \<Rightarrow> Panic NilDereference | Some t \<Rightarrow> Ok t)) (\<lambda>cacheTip.
     if PrevBlock (mb_Header mBlock) \<noteq> BlockHash (hashOf r) cacheTip
     then lift (Err (ErrMessage ''cache is not up-to-date while connecting block, restart bootstrap process''))
     else
       andThen (onCache (Add ib)) (\<lambda>_.
       andThen (headersToProcess r ib) (\<lambda>headers.
       submitNewHeaders r headers))))"

definition handleConnectedBlocks ::
  "'w reporter \<Rightarrow> block_event \<Rightarrow> ('w reporter_state, unit) action" where
  "handleConnectedBlocks r event =
     andThen (checkBestChain r event) (\<lambda>_.
     andThen (readCache (\<lambda>c. Ok (First c))) (\<lambda>first.
     case first of
       None \<Rightarrow> lift (Err (ErrMessage ''cache is empty, restart bootstrap process''))
     | Some firstCacheBlock \<Rightarrow>
         if sint (ev_Height event) < ht firstCacheBlock then lift (Ok ())
         else
           andThen (readCache (FindBlock (uint64_of_int32 (ev_Height event)))) (\<lambda>found.
           case found of
             Some b \<Rightarrow>
               if BlockHash (hashOf r) b = hashOf r (ev_Header event) then lift (Ok ())
               else lift (Err (ErrMessage
                 ''the connecting block is different from the header at the same height in cache''))
           | None \<Rightarrow> connectNewBlock r event)))"

section \<open>Disconnected blocks\<close>

definition handleDisconnectedBlocks ::
  "'w reporter \<Rightarrow> block_event \<Rightarrow> ('w reporter_state, unit) action" where
  "handleDisconnectedBlocks r event =
     andThen (readCache (\<lambda>c. Ok (Tip c))) (\<lambda>tip.
     case tip of
       None \<Rightarrow> lift (Err (ErrMessage ''cache is empty, restart bootstrap process''))
     | Some cacheTip \<Rightarrow>
         if hashOf r (ev_Header event) \<noteq> BlockHash (hashOf r) cacheTip
         then lift (Err (ErrMessage
           ''cache is not up-to-date while disconnecting block, restart bootstrap process''))
         else (\<lambda>s. orPanic (onCache RemoveLast)
           (s\<lparr>reorgList := addRemovedBlock (headerFuns r)
              (uint64_of_int32 (Height cacheTip)) (Header cacheTip) (reorgList s)\<rparr>)))"

text \<open>The dispatch of \<^verbatim>\<open>blockEventHandler\<close> on the kind of event.\<close>

definition handleEvent :: "'w reporter \<Rightarrow> block_event \<Rightarrow> ('w reporter_state, unit) action" where
  "handleEvent r event =
     (case EventType event of
        BlockConnected \<Rightarrow> handleConnectedBlocks r event
      | BlockDisconnected \<Rightarrow> handleDisconnectedBlocks r event)"

section \<open>What the calls leave alone\<close>

text \<open>\<open>core\<close>: the part of the state that only the handlers themselves change.\<close>

definition core :: "'w reporter_state \<Rightarrow> btc_cache option \<times> reorg_list" where
  "core s = (btcCache s, reorgList s)"

lemma core_call [simp]: "core (snd (call m s)) = core s"
  by (auto simp: call_def core_def split: prod.splits)

lemma core_readCache [simp]: "snd (readCache f s) = s"
  by (auto simp: readCache_def split: option.splits)

lemma core_submitHeaderMsgs [simp]: "core (snd (submitHeaderMsgs r msg s)) = core s"
  by (auto simp: submitHeaderMsgs_def core_def countSuccessful_def countFailed_def
      split: prod.splits outcome.splits)

lemma core_andThen:
  assumes "core (snd (m s)) = core s" and "\<And>x s'. core (snd (f x s')) = core s'"
  shows "core (snd (andThen m f s)) = core s"
  using assms by (auto simp: andThen_def split: prod.splits outcome.splits)

lemma core_submitLoop [simp]: "core (snd (submitLoop r n msgs s)) = core s"
proof (induction msgs arbitrary: n s)
  case Nil
  then show ?case by simp
next
  case (Cons msg msgs)
  then show ?case by (simp, intro core_andThen) simp_all
qed

lemma core_getHeaderMsgs [simp]: "core (snd (getHeaderMsgsToSubmit r signer ibs s)) = core s"
  unfolding getHeaderMsgsToSubmit_def
  by (intro core_andThen) (auto split: option.splits simp: andThen_def split: outcome.splits)

lemma core_ProcessHeaders [simp]: "core (snd (ProcessHeaders r signer ibs s)) = core s"
proof -
  let ?m = "andThen (wrapErr ''failed to find headers to submit'' (getHeaderMsgsToSubmit r signer ibs))
    (submitLoop r 0)"
  have "core (snd (?m s)) = core s" by (intro core_andThen) simp_all
  then show ?thesis
    unfolding ProcessHeaders_def by (auto split: prod.splits outcome.splits)
qed

lemma core_submitNewHeaders [simp]: "core (snd (submitNewHeaders r headers s)) = core s"
proof (cases "headers = []")
  case False
  have "core (snd (case ProcessHeaders r signer headers s of
      (Ok _, s') \<Rightarrow> (Ok (), s') | (Err _, s') \<Rightarrow> (Ok (), s') | (e, s') \<Rightarrow> (reraise e, s'))) = core s"
    for signer s
  proof -
    obtain o1 s1 where p: "ProcessHeaders r signer headers s = (o1, s1)" by (metis surj_pair)
    have "core s1 = core s" using core_ProcessHeaders [of r signer headers s] unfolding p by simp
    then show ?thesis unfolding p by (cases o1) auto
  qed
  then show ?thesis
    unfolding submitNewHeaders_def using False by (simp add: core_andThen)
qed (simp add: submitNewHeaders_def)

lemma core_checkBestChain [simp]: "core (snd (checkBestChain r event s)) = core s"
  unfolding checkBestChain_def by (intro core_andThen) (auto split: prod.splits)

lemma core_tipHeaders [simp]: "core (snd (tipHeaders r ib s)) = core s"
  unfolding tipHeaders_def by (intro core_andThen) auto

lemma core_eqD: "core s = core t \<Longrightarrow> btcCache s = btcCache t \<and> reorgList s = reorgList t"
  by (simp add: core_def)

lemma headersToProcess_core:
  "btcCache (snd (headersToProcess r ib s)) = btcCache s"
  "reorgList (snd (headersToProcess r ib s)) = reorgList s
    \<or> reorgList (snd (headersToProcess r ib s)) = clear (reorgList s)"
proof -
  have tip: "core (snd (tipHeaders r ib s)) = core s" by simp
  have "btcCache (snd (reorgHeaders r s)) = btcCache s \<and>
    (reorgList (snd (reorgHeaders r s)) = reorgList s
      \<or> reorgList (snd (reorgHeaders r s)) = clear (reorgList s))"
    by (auto simp: reorgHeaders_def andThen_def orPanic_def wrapErr_def readCache_def
        split: option.splits outcome.splits prod.splits if_splits)
  with tip show "btcCache (snd (headersToProcess r ib s)) = btcCache s"
    and "reorgList (snd (headersToProcess r ib s)) = reorgList s
      \<or> reorgList (snd (headersToProcess r ib s)) = clear (reorgList s)"
    by (auto simp: headersToProcess_def core_def)
qed

section \<open>The invariant\<close>

text \<open>
  The cache is well formed and its blocks are a chain of the node, each at the height the
  node knows it by; the reorg list's work is the work of the blocks it holds.
\<close>

definition cache_good :: "header_funs \<Rightarrow> (hash \<Rightarrow> int) \<Rightarrow> btc_cache \<Rightarrow> bool" where
  "cache_good hf hgt c \<longleftrightarrow> cache_wf c \<and> chain (hf_BlockHash hf) (blocks c)
     \<and> (\<forall>b \<in> set (blocks c). on_node hf hgt b)"

definition reporter_inv :: "'w reporter \<Rightarrow> (hash \<Rightarrow> int) \<Rightarrow> 'w reporter_state \<Rightarrow> bool" where
  "reporter_inv r hgt s \<longleftrightarrow>
     (\<forall>c. btcCache s = Some c \<longrightarrow> cache_good (headerFuns r) hgt c)
     \<and> reorg_wf (headerFuns r) (reorgList s)"

lemma reporter_inv_core: "core s = core t \<Longrightarrow> reporter_inv r hgt s \<longleftrightarrow> reporter_inv r hgt t"
  by (auto simp: reporter_inv_def core_def)

lemma cache_goodD:
  assumes "cache_good hf hgt c"
  shows "cache_wf c" and "chain (hf_BlockHash hf) (blocks c)" and "\<forall>b \<in> set (blocks c). on_node hf hgt b"
  using assms by (simp_all add: cache_good_def)

lemma cache_good_push:
  assumes good: "cache_good hf hgt c" and "Add ib c = Ok c'"
    and "Tip c = Some t" and "linked (hf_BlockHash hf) t ib" and "on_node hf hgt ib"
  shows "cache_good hf hgt c'"
proof -
  note g = cache_goodD [OF good]
  have push: "add ib c = Ok c'" using assms(2) by (simp add: Add_def)
  have t: "blocks c \<noteq> []" "t = last (blocks c)"
    using assms(3) cache.newest_Some [OF g(1)] by auto
  have "chain (hf_BlockHash hf) (blocks c')"
    unfolding chain_def
    by (rule cache.push_linked [OF g(1) push]) (use g(2) t assms(4) in \<open>simp_all add: chain_def\<close>)
  moreover have "set (blocks c') \<subseteq> insert ib (set (blocks c))"
    by (auto simp: cache.push_content [OF g(1) push] dest: list.set_sel(2) split: if_splits)
      (metis list.sel(2) list.set_sel(2))
  ultimately show ?thesis
    using cache.push_content(1) [OF g(1) push] g(3) assms(5) by (auto simp: cache_good_def)
qed

lemma cache_good_pop:
  assumes good: "cache_good hf hgt c" and "RemoveLast c = Ok c'"
  shows "cache_good hf hgt c'"
proof -
  note g = cache_goodD [OF good] and pop = cache.pop_content [OF cache_goodD(1) [OF good] assms(2)]
  have "chain (hf_BlockHash hf) (blocks c')" using g(2) by (simp add: pop chain_butlast)
  then show ?thesis using g(3) pop(1) by (auto simp: cache_good_def pop(3) dest: in_set_butlastD)
qed

lemma call_OkD: "call m s = (Ok x, s') \<Longrightarrow> \<exists>w. m (outside s) = (Ok x, w) \<and> s' = s\<lparr>outside := w\<rparr>"
  by (auto simp: call_def split: prod.splits)

lemma readCache_Ok_iff:
  "readCache f s = (Ok x, s') \<longleftrightarrow> s' = s \<and> (\<exists>c. btcCache s = Some c \<and> f c = Ok x)"
  by (auto simp: readCache_def split: option.splits)

lemma onCache_Ok_iff:
  "onCache f s = (Ok u, s') \<longleftrightarrow>
     (\<exists>c c'. btcCache s = Some c \<and> f c = Ok c' \<and> s' = s\<lparr>btcCache := Some c'\<rparr>)"
  by (cases u) (auto simp: onCache_def split: option.splits outcome.splits)

lemma onCache_not_Ok: "\<not> (\<exists>u. fst (onCache f s) = Ok u) \<Longrightarrow> snd (onCache f s) = s"
  by (auto simp: onCache_def split: option.splits outcome.splits)

lemma headersToProcess_inv:
  "reporter_inv r hgt s \<Longrightarrow> reporter_inv r hgt (snd (headersToProcess r ib s))"
  using headersToProcess_core [of r ib s] by (auto simp: reporter_inv_def)

lemma onCache_inv:
  assumes "reporter_inv r hgt s"
    and "\<And>c c'. btcCache s = Some c \<Longrightarrow> cache_good (headerFuns r) hgt c \<Longrightarrow> f c = Ok c'
      \<Longrightarrow> cache_good (headerFuns r) hgt c'"
  shows "reporter_inv r hgt (snd (onCache f s))"
  using assms by (auto simp: reporter_inv_def onCache_def split: option.splits outcome.splits)

lemma connectNewBlock_inv:
  assumes law: "client_lawful (headerFuns r) hgt (btcClient r)" and inv: "reporter_inv r hgt s"
  shows "reporter_inv r hgt (snd (connectNewBlock r event s))"
  unfolding connectNewBlock_def
proof (rule andThen_inv, goal_cases)
  case 1
  then show ?case using inv by (simp add: reporter_inv_core [OF core_call])
next
  case (2 x s1)
  obtain ib mb where x: "x = (ib, mb)" by (cases x)
  have fetched: "\<exists>w w'. GetBlockByHash (btcClient r) (hashOf r (ev_Header event)) w = (Ok (ib, mb), w')"
    using 2(1) x by (auto simp: wrapErr_Ok_iff dest!: call_OkD)
  note node = held_source.byHash_on_node [OF law] and link = held_source.byHash_linked [OF law]
  show ?case
    unfolding x split
  proof (rule andThen_inv, goal_cases)
    case 1
    then show ?case using 2(2) by simp
  next
    case (2 t s2)
    then obtain c where c: "btcCache s2 = Some c" "Tip c = Some t"
      by (auto simp: readCache_Ok_iff split: option.splits)
    show ?case
    proof (cases "PrevBlock (mb_Header mb) = BlockHash (hashOf r) t")
      case False
      then show ?thesis using 2(2) by simp
    next
      case True
      have "reporter_inv r hgt (snd (onCache (Add ib) s2))"
      proof (rule onCache_inv [OF 2(2)])
        fix d d' assume d: "btcCache s2 = Some d" and good: "cache_good (headerFuns r) hgt d"
          and add: "Add ib d = Ok d'"
        have tip: "Tip d = Some t" using c d by simp
        then have "on_node (headerFuns r) hgt t"
          using good cache.newest_Some [of d t] by (simp add: cache_good_def)
        then have "linked (hashOf r) t ib" using fetched link True by blast
        then show "cache_good (headerFuns r) hgt d'"
          using cache_good_push [OF good add tip] fetched node by blast
      qed
      then show ?thesis
        unfolding True simp_thms if_False
        by (rule andThen_inv) (rule andThen_inv, rule headersToProcess_inv, assumption,
            simp add: reporter_inv_core [OF core_submitNewHeaders])
    qed
  qed
qed

lemma handleConnectedBlocks_inv:
  assumes law: "client_lawful (headerFuns r) hgt (btcClient r)" and inv: "reporter_inv r hgt s"
  shows "reporter_inv r hgt (snd (handleConnectedBlocks r event s))"
  unfolding handleConnectedBlocks_def
proof (rule andThen_inv, goal_cases)
  case 1
  then show ?case using inv by (simp add: reporter_inv_core [OF core_checkBestChain])
next
  case (2 x s1)
  show ?case
  proof (rule andThen_inv, goal_cases)
    case 1
    then show ?case using 2(2) by simp
  next
    case (2 first s2)
    note inv2 = 2(2)
    show ?case
    proof (cases first)
      case None
      then show ?thesis using inv2 by simp
    next
      case (Some b)
      have "reporter_inv r hgt (snd (andThen (readCache (FindBlock h)) (\<lambda>found. case found of
          Some b \<Rightarrow> if P b then lift (Ok ()) else lift (Err e)
        | None \<Rightarrow> connectNewBlock r event) s2))" for h P e
        by (rule andThen_inv)
          (use inv2 connectNewBlock_inv [OF law] in \<open>auto split: option.splits\<close>)
      then show ?thesis using Some inv2 by simp
    qed
  qed
qed

lemma handleDisconnectedBlocks_inv:
  assumes inv: "reporter_inv r hgt s"
  shows "reporter_inv r hgt (snd (handleDisconnectedBlocks r event s))"
  unfolding handleDisconnectedBlocks_def
proof (rule andThen_inv, goal_cases)
  case 1
  then show ?case using inv by simp
next
  case (2 tip s1)
  have pop: "reporter_inv r hgt (snd (onCache RemoveLast
      (s1\<lparr>reorgList := addRemovedBlock (headerFuns r) h header (reorgList s1)\<rparr>)))" for h header
  proof (rule onCache_inv)
    show "reporter_inv r hgt (s1\<lparr>reorgList := addRemovedBlock (headerFuns r) h header (reorgList s1)\<rparr>)"
      using 2(2) by (simp add: reporter_inv_def reorg_wf_add)
  qed (rule cache_good_pop)
  show ?case
  proof (cases tip)
    case None
    then show ?thesis using 2(2) by simp
  next
    case (Some t)
    then show ?thesis
      using 2(2) pop by (cases "hashOf r (ev_Header event) = BlockHash (hashOf r) t") simp_all
  qed
qed

lemma handleEvent_inv:
  assumes "client_lawful (headerFuns r) hgt (btcClient r)" and "reporter_inv r hgt s"
  shows "reporter_inv r hgt (snd (handleEvent r event s))"
  using assms handleConnectedBlocks_inv handleDisconnectedBlocks_inv
  by (auto simp: handleEvent_def split: event_type.splits)

section \<open>What a connected block makes Lorenzo accept\<close>

text \<open>A quiet action changes neither the cache, nor the reorg list, nor the log.\<close>

definition quiet :: "(('w \<times> 'm list) reporter_state, 'a) action \<Rightarrow> bool" where
  "quiet m \<longleftrightarrow> (\<forall>s. core (snd (m s)) = core s \<and> accepted (snd (m s)) = accepted s)"

lemma quiet_call:
  assumes "keeps_log m"
  shows "quiet (call m)"
  unfolding quiet_def
proof
  fix s :: "('a \<times> 'b list) reporter_state"
  obtain o1 w where m: "m (outside s) = (o1, w)" by (metis surj_pair)
  then have "snd w = snd (outside s)" using assms by (simp add: keeps_logD)
  then show "core (snd (call m s)) = core s \<and> accepted (snd (call m s)) = accepted s"
    using m by (simp add: call_def core_def)
qed

lemma quiet_readCache [simp]: "quiet (readCache f)"
  by (simp add: quiet_def)

lemma quiet_wrapErr [simp]: "quiet m \<Longrightarrow> quiet (wrapErr e m)"
  by (simp add: quiet_def)

lemma quiet_btc:
  assumes "observed r"
  shows "quiet (call (GetBlockByHash (btcClient r) h))"
    and "quiet (call (GetBlockByHeight (btcClient r) k))"
    and "quiet (call (FindTailBlocksByHeight (btcClient r) k))"
    and "quiet (call (GetBestBlock (btcClient r)))"
    and "quiet (call (MustSubscribeBlocks (btcClient r)))"
  using assms by (auto simp: observed_def aside_def intro!: quiet_call)

lemma quiet_lorenzo:
  assumes "observed r"
  shows "quiet (call (BTCHeaderChainTip (lorenzoClient r)))"
    and "quiet (call (BTCBaseHeader (lorenzoClient r)))"
    and "quiet (call (MustGetAddr (lorenzoClient r)))"
    and "quiet (call (ContainsBTCBlock (lorenzoClient r) h))"
  using assms by (auto simp: observed_def logging_def intro!: quiet_call log_keeping)

text \<open>
  \<open>sends r s s' sent\<close>: between \<open>s\<close> and \<open>s'\<close> Lorenzo accepted \<open>sent\<close>, nothing or a submission
  of a suffix of the cache; in the middle of a reorg that suffix has more work than the
  branch removed, and the reorg list is empty afterwards.
\<close>

definition sends ::
  "('w \<times> msg_insert_headers list) reporter \<Rightarrow> ('w \<times> msg_insert_headers list) reporter_state
    \<Rightarrow> ('w \<times> msg_insert_headers list) reporter_state \<Rightarrow> msg_insert_headers list \<Rightarrow> bool" where
  "sends r s s' sent \<longleftrightarrow> accepted s' = accepted s @ sent
     \<and> (sent = [] \<or> (\<exists>c pre hs signer whole. btcCache s' = Some c \<and> blocks c = pre @ hs
          \<and> submission r signer whole hs sent
          \<and> (reorg_size (reorgList s) > 0 \<longrightarrow>
               removedBranchWork (reorgList s) < calculateBranchWork (headerFuns r) hs
               \<and> reorgList s' = clear (reorgList s))))"

lemma sends_nothing: "accepted s' = accepted s \<Longrightarrow> sends r s s' []"
  by (simp add: sends_def)

lemma sends_quiet:
  assumes q: "quiet m"
    and rest: "\<And>x s1. m s = (Ok x, s1) \<Longrightarrow> core s1 = core s \<Longrightarrow> \<exists>sent. sends r s1 (snd (f x s1)) sent"
  shows "\<exists>sent. sends r s (snd (andThen m f s)) sent"
proof -
  obtain o1 s1 where m: "m s = (o1, s1)" by (metis surj_pair)
  then have s1: "core s1 = core s" "accepted s1 = accepted s" using q by (auto simp: quiet_def dest: spec [of _ s])
  show ?thesis
  proof (cases "\<exists>x. o1 = Ok x")
    case True
    then obtain x where x: "m s = (Ok x, s1)" using m by blast
    from rest [OF x s1(1)] obtain sent where "sends r s1 (snd (f x s1)) sent" ..
    then have "sends r s (snd (andThen m f s)) sent"
      using s1 core_eqD [OF s1(1)] by (simp add: sends_def x action_simps)
    then show ?thesis ..
  next
    case False
    then have "snd (andThen m f s) = s1" using m by (cases o1) (auto simp: andThen_def)
    then show ?thesis using s1(2) sends_nothing by metis
  qed
qed

lemma submitNewHeaders_log:
  assumes obs: "observed r"
  shows "\<exists>sent. accepted (snd (submitNewHeaders r hs s)) = accepted s @ sent
    \<and> (sent = [] \<or> (\<exists>signer whole. submission r signer whole hs sent))"
proof (cases "hs = []")
  case True
  then show ?thesis by (simp add: submitNewHeaders_def)
next
  case False
  obtain o1 s1 where addr: "call (MustGetAddr (lorenzoClient r)) s = (o1, s1)" by (metis surj_pair)
  then have s1: "accepted s1 = accepted s"
    using quiet_lorenzo(3) [OF obs] by (auto simp: quiet_def dest: spec [of _ s])
  show ?thesis
  proof (cases "\<exists>signer. o1 = Ok signer")
    case True
    then obtain signer where signer: "o1 = Ok signer" ..
    obtain o2 s2 where p: "ProcessHeaders r signer hs s1 = (o2, s2)" by (metis surj_pair)
    have "snd (submitNewHeaders r hs s) = s2"
      using False addr signer p
      by (cases o2) (simp_all add: submitNewHeaders_def andThen_def)
    moreover obtain sent where "accepted s2 = accepted s1 @ sent"
      "submission r signer (\<exists>n. o2 = Ok n) hs sent"
      using ProcessHeaders_log [OF _ _ p] obs unfolding observed_def by blast
    ultimately show ?thesis using s1 by auto
  next
    case False
    then have "snd (submitNewHeaders r hs s) = s1"
      using addr \<open>hs \<noteq> []\<close> by (cases o1) (simp_all add: submitNewHeaders_def andThen_def)
    then show ?thesis using s1 by auto
  qed
qed

text \<open>When Lorenzo accepts everything, all that it lacks of the headers is submitted.\<close>

lemma submitNewHeaders_delivers:
  assumes obs: "observed r" and w: "welcoming r" and chunk: "0 < unat (cfg_MaxHeadersInMsg r)"
    and ne: "hs \<noteq> []"
  shows "\<exists>s' sent signer. submitNewHeaders r hs s = (Ok (), s') \<and> core s' = core s
    \<and> accepted s' = accepted s @ sent \<and> submission r signer True hs sent"
proof -
  have R: "retry_lawful (retryDo r)" using obs by (simp add: observed_def)
  obtain l where l: "lorenzoClient r = logging l" using obs by (auto simp: observed_def)
  obtain signer w1 where addr: "MustGetAddr (lorenzoClient r) (outside s) = (Ok signer, w1)"
    using w unfolding welcoming_def by blast
  let ?s1 = "s\<lparr>outside := w1\<rparr>"
  have call: "call (MustGetAddr (lorenzoClient r)) s = (Ok signer, ?s1)"
    using addr by (simp add: call_def)
  have keep: "accepted ?s1 = accepted s"
    using addr logged_keeps by (fastforce simp: l logging_def)
  obtain n s' where run: "ProcessHeaders r signer hs ?s1 = (Ok n, s')"
    using ProcessHeaders_welcome [OF w R chunk ne] by blast
  then have eq: "submitNewHeaders r hs s = (Ok (), s')"
    using ne by (simp add: submitNewHeaders_def andThen_def call)
  then have "core s' = core s" using core_submitNewHeaders [of r hs s] by simp
  then show ?thesis using eq keep ProcessHeaders_log [OF R l run] by auto
qed

lemma headersToProcess_log:
  assumes "observed r"
  shows "accepted (snd (headersToProcess r ib s)) = accepted s"
proof -
  have "accepted (snd (tipHeaders r ib s)) = accepted s"
    unfolding tipHeaders_def using quiet_lorenzo(1) [OF assms]
    by (auto simp: quiet_def andThen_def split: prod.splits outcome.splits) (metis snd_conv)+
  moreover have "accepted (snd (reorgHeaders r s)) = accepted s"
    by (auto simp: reorgHeaders_def andThen_def orPanic_def wrapErr_def readCache_def
        split: option.splits outcome.splits prod.splits)
  ultimately show ?thesis by (simp add: headersToProcess_def)
qed

lemma headersToProcess_Ok:
  assumes "headersToProcess r ib s = (Ok hs, s')" and "btcCache s = Some c"
    and "\<exists>pre. blocks c = pre @ [ib]"
  shows "\<exists>pre. blocks c = pre @ hs"
    and "reorg_size (reorgList s) > 0 \<Longrightarrow> hs \<noteq> [] \<Longrightarrow>
      removedBranchWork (reorgList s) < calculateBranchWork (headerFuns r) hs
      \<and> reorgList s' = clear (reorgList s)"
proof -
  have reorg: "(\<exists>pre. blocks c = pre @ hs) \<and> (hs \<noteq> [] \<longrightarrow>
      removedBranchWork (reorgList s) < calculateBranchWork (headerFuns r) hs
      \<and> reorgList s' = clear (reorgList s))" if "reorgHeaders r s = (Ok hs, s')"
    using that assms(2) GetLastBlocks_suffix [of _ c hs]
    by (auto simp: reorgHeaders_def outcome_Ok_iffs readCache_Ok_iff split: option.splits if_splits)
  have tip: "\<exists>pre. blocks c = pre @ hs" if "tipHeaders r ib s = (Ok hs, s')"
    using that assms(2,3) GetLastBlocks_suffix [of _ c hs]
    by (auto simp: tipHeaders_def outcome_Ok_iffs readCache_Ok_iff split: if_splits dest!: call_OkD)
  show "\<exists>pre. blocks c = pre @ hs"
    and "reorg_size (reorgList s) > 0 \<Longrightarrow> hs \<noteq> [] \<Longrightarrow>
      removedBranchWork (reorgList s) < calculateBranchWork (headerFuns r) hs
      \<and> reorgList s' = clear (reorgList s)"
    using reorg tip assms(1) by (auto simp: headersToProcess_def split: if_splits)
qed

lemma Add_last: "Add ib c = Ok c' \<Longrightarrow> \<exists>pre. blocks c' = pre @ [ib]"
  by (auto simp: Add_def add_def split: if_splits)

lemma connect_submit_sends:
  assumes obs: "observed r"
  shows "\<exists>sent. sends r s (snd (andThen (onCache (Add ib)) (\<lambda>_.
    andThen (headersToProcess r ib) (\<lambda>headers. submitNewHeaders r headers)) s)) sent"
proof (cases "\<exists>u. fst (onCache (Add ib) s) = Ok u")
  case False
  obtain o1 s1 where c: "onCache (Add ib) s = (o1, s1)" by (metis surj_pair)
  then have "s1 = s" using onCache_not_Ok [OF False] by simp
  then have "snd (andThen (onCache (Add ib)) (\<lambda>_. andThen (headersToProcess r ib)
      (\<lambda>headers. submitNewHeaders r headers)) s) = s"
    using False c by (cases o1) (simp_all add: andThen_def)
  then show ?thesis using sends_nothing by metis
next
  case True
  then obtain s1 where s1: "onCache (Add ib) s = (Ok (), s1)" by (metis prod.collapse old.unit.exhaust)
  then obtain c c' where c: "Add ib c = Ok c'" "s1 = s\<lparr>btcCache := Some c'\<rparr>"
    by (auto simp: onCache_Ok_iff)
  obtain o2 s2 where h: "headersToProcess r ib s1 = (o2, s2)" by (metis surj_pair)
  have s2: "btcCache s2 = Some c'" "accepted s2 = accepted s"
    using headersToProcess_core(1) [of r ib s1] headersToProcess_log [OF obs, of ib s1] h c(2) by simp_all
  show ?thesis
  proof (cases "\<exists>hs. o2 = Ok hs")
    case False
    then have "snd (andThen (headersToProcess r ib) (\<lambda>headers. submitNewHeaders r headers) s1) = s2"
      using h by (cases o2) (simp_all add: andThen_def)
    then show ?thesis
      using s2(2) sends_nothing [of s2 s r] by (auto simp: andThen_simps(1) [where m = "onCache (Add ib)", OF s1])
  next
    case True
    then obtain hs where hs: "headersToProcess r ib s1 = (Ok hs, s2)" using h by blast
    let ?t = "snd (submitNewHeaders r hs s2)"
    obtain sent where sent: "accepted ?t = accepted s2 @ sent"
      "sent = [] \<or> (\<exists>signer whole. submission r signer whole hs sent)"
      using submitNewHeaders_log [OF obs, of hs s2] by auto
    have t: "btcCache ?t = Some c'" "reorgList ?t = reorgList s2"
      using core_eqD [OF core_submitNewHeaders [of r hs s2]] s2(1) by simp_all
    have suffix: "\<exists>pre. blocks c' = pre @ hs"
      using headersToProcess_Ok(1) [OF hs] c Add_last by simp
    have work: "reorg_size (reorgList s) > 0 \<Longrightarrow> hs \<noteq> [] \<Longrightarrow>
        removedBranchWork (reorgList s) < calculateBranchWork (headerFuns r) hs
        \<and> reorgList s2 = clear (reorgList s)"
      using headersToProcess_Ok(2) [OF hs] c Add_last by simp
    have "hs = [] \<Longrightarrow> sent = []"
      using sent(1) by (simp add: submitNewHeaders_def)
    then have "sends r s ?t sent"
      using sent s2 t suffix work unfolding sends_def by fastforce
    then show ?thesis by (auto simp: andThen_simps(1) [where m = "onCache (Add ib)", OF s1]
        andThen_simps(1) [where m = "headersToProcess r ib", OF hs])
  qed
qed

lemma connectNewBlock_sends:
  assumes obs: "observed r"
  shows "\<exists>sent. sends r s (snd (connectNewBlock r event s)) sent"
  unfolding connectNewBlock_def
proof (rule sends_quiet, goal_cases)
  case 1
  then show ?case using quiet_btc(1) [OF obs] by simp
next
  case (2 x s1)
  show ?case
    unfolding split_def
  proof (rule sends_quiet, goal_cases)
    case (2 t s2)
    show ?case
      using connect_submit_sends [OF obs, of s2 "fst x"]
        sends_nothing [of s2 s2 r] by (cases "PrevBlock (mb_Header (snd x)) = BlockHash (hashOf r) t") auto
  qed simp
qed

lemma checkBestChain_quiet: "observed r \<Longrightarrow> quiet (checkBestChain r event)"
  unfolding quiet_def
proof
  fix s :: "('a \<times> msg_insert_headers list) reporter_state"
  assume obs: "observed r"
  let ?q = "call (GetBlockByHeight (btcClient r) (uint64_of_int32 (ev_Height event)))"
  obtain o1 s1 where q: "?q s = (o1, s1)" by (metis surj_pair)
  then have "accepted s1 = accepted s"
    using quiet_btc(2) [OF obs] unfolding quiet_def by (metis snd_conv)
  then have "accepted (snd (checkBestChain r event s)) = accepted s"
    using q by (cases o1) (auto simp: checkBestChain_def andThen_def)
  then show "core (snd (checkBestChain r event s)) = core s
      \<and> accepted (snd (checkBestChain r event s)) = accepted s" by simp
qed

lemma handleConnectedBlocks_sends:
  assumes obs: "observed r"
  shows "\<exists>sent. sends r s (snd (handleConnectedBlocks r event s)) sent"
  unfolding handleConnectedBlocks_def
proof (rule sends_quiet, goal_cases)
  case 1
  then show ?case using checkBestChain_quiet [OF obs] .
next
  case (2 x s1)
  show ?case
  proof (rule sends_quiet, goal_cases)
    case (2 first s2)
    have none: "\<exists>sent. sends r s2 s2 sent" using sends_nothing [of s2 s2 r] by blast
    have look: "\<exists>sent. sends r s2 (snd (andThen (readCache (FindBlock h)) (\<lambda>found. case found of
          Some b \<Rightarrow> if P b then lift (Ok ()) else lift (Err e)
        | None \<Rightarrow> connectNewBlock r event) s2)) sent" for h P e
    proof (rule sends_quiet, goal_cases)
      case (2 found s3)
      then show ?case
        using connectNewBlock_sends [OF obs, of s3 event] sends_nothing [of s3 s3 r]
        by (cases found) auto
    qed simp
    show ?case using none look by (cases first) auto
  qed simp
qed

lemma handleDisconnectedBlocks_accepted:
  "accepted (snd (handleDisconnectedBlocks r event s)) = accepted s"
  by (auto simp: handleDisconnectedBlocks_def andThen_def readCache_def onCache_def orPanic_def
      split: option.splits outcome.splits if_splits)

end
