(* ===== verification/Reorg_Run.thy ===== *)
theory Reorg_Run
  imports Block_Handler
begin

text \<open>
  What the handlers do on the events a Bitcoin node sends: the result of each handler on each
  of its branches, and a whole reorganisation, the disconnected blocks of the old branch
  followed by the connected blocks of the new one.
\<close>

section \<open>Single events\<close>

lemma call_Ok: "m (outside s) = (Ok x, w) \<Longrightarrow> call m s = (Ok x, s\<lparr>outside := w\<rparr>)"
  by (simp add: call_def)

lemma call_Err: "m (outside s) = (Err e, w) \<Longrightarrow> call m s = (Err e, s\<lparr>outside := w\<rparr>)"
  by (simp add: call_def)

text \<open>\<open>onBest r event w w'\<close>: asked in \<open>w\<close>, the node has the event's block on its best chain.\<close>

definition onBest :: "'w reporter \<Rightarrow> block_event \<Rightarrow> 'w \<Rightarrow> 'w \<Rightarrow> bool" where
  "onBest r event w w' \<longleftrightarrow> (\<exists>ib mb. GetBlockByHeight (btcClient r) (uint64_of_int32 (ev_Height event)) w
       = (Ok (ib, mb), w') \<and> hashOf r (ev_Header event) = BlockHash (hashOf r) ib)"

lemma checkBestChain_onBest:
  assumes "onBest r event (outside s) w"
  shows "checkBestChain r event s = (Ok (), s\<lparr>outside := w\<rparr>)"
proof -
  obtain ib mb where "GetBlockByHeight (btcClient r) (uint64_of_int32 (ev_Height event)) (outside s)
      = (Ok (ib, mb), w)" and h: "hashOf r (ev_Header event) = BlockHash (hashOf r) ib"
    using assms by (auto simp: onBest_def)
  from call_Ok [of "GetBlockByHeight (btcClient r) (uint64_of_int32 (ev_Height event))", OF this(1)]
  show ?thesis using h by (simp add: checkBestChain_def andThen_def)
qed

lemma handleConnectedBlocks_onBest:
  assumes best: "onBest r event (outside s) w" and c: "btcCache s = Some c"
    and first: "First c = Some f" and ht: "\<not> sint (ev_Height event) < ht f"
    and found: "FindBlock (uint64_of_int32 (ev_Height event)) c = Ok res"
  shows "handleConnectedBlocks r event s =
    (case res of
       Some b \<Rightarrow> ((if BlockHash (hashOf r) b = hashOf r (ev_Header event) then Ok ()
          else Err (ErrMessage
            ''the connecting block is different from the header at the same height in cache'')),
          s\<lparr>outside := w\<rparr>)
     | None \<Rightarrow> connectNewBlock r event (s\<lparr>outside := w\<rparr>))"
  using assms
  by (simp add: handleConnectedBlocks_def andThen_def checkBestChain_onBest readCache_def
      split: option.split)

lemma FindBlock_chain:
  assumes ch: "chain H (blocks c)" and wf: "cache_wf c" and ne: "blocks c \<noteq> []"
  shows "b \<in> set (blocks c) \<Longrightarrow> Height b = int32_of_uint64 h \<Longrightarrow> FindBlock h c = Ok (Some b)"
    and "(\<And>b. b \<in> set (blocks c) \<Longrightarrow> Height b \<noteq> int32_of_uint64 h) \<Longrightarrow> FindBlock h c = Ok None"
proof -
  obtain res where res: "FindBlock h c = Ok res"
    "\<forall>x. res = Some x \<longrightarrow> x \<in> set (blocks c) \<and> Height x = int32_of_uint64 h"
    "res = None \<longrightarrow> sorted_by_height (blocks c) \<longrightarrow> (\<forall>x \<in> set (blocks c). Height x \<noteq> int32_of_uint64 h)"
    using FindBlock_correct [OF ne cache_wfD(4) [OF wf], of h] by auto
  have inj: "x = y" if "x \<in> set (blocks c)" "y \<in> set (blocks c)" "Height x = Height y" for x y
    using that chain_ht_inj [OF ch] by (metis in_set_conv_nth)
  show "FindBlock h c = Ok (Some b)" if "b \<in> set (blocks c)" "Height b = int32_of_uint64 h"
  proof (cases res)
    case None
    then show ?thesis using res(3) chain_sorted_by_height [OF ch] that by simp
  next
    case (Some x)
    then show ?thesis using res(1,2) inj [of x b] that by simp
  qed
  show "FindBlock h c = Ok None" if "\<And>b. b \<in> set (blocks c) \<Longrightarrow> Height b \<noteq> int32_of_uint64 h"
    using res(1,2) that by (cases res) auto
qed

text \<open>Neither end of a chain is passed by a block in it.\<close>

lemma chain_hd_le: "chain H bs \<Longrightarrow> b \<in> set bs \<Longrightarrow> ht (hd bs) \<le> ht b"
  using chain_ht_nth [of H bs] by (fastforce simp: in_set_conv_nth)

lemma chain_le_last: "chain H bs \<Longrightarrow> b \<in> set bs \<Longrightarrow> ht b \<le> ht (last bs)"
  using chain_ht_nth [of H bs] chain_ht_last [of H bs]
  by (cases "bs = []") (fastforce simp: in_set_conv_nth)+

lemma connected_in_cache:
  assumes good: "cache_good (headerFuns r) hgt c" and c: "btcCache s = Some c"
    and b: "b \<in> set (blocks c)" "Height b = ev_Height event"
    and best: "onBest r event (outside s) w"
  shows "handleConnectedBlocks r event s =
    ((if BlockHash (hashOf r) b = hashOf r (ev_Header event) then Ok ()
      else Err (ErrMessage
        ''the connecting block is different from the header at the same height in cache'')),
     s\<lparr>outside := w\<rparr>)"
proof -
  note g = cache_goodD [OF good]
  have ne: "blocks c \<noteq> []" using b(1) by auto
  then have first: "First c = Some (hd (blocks c))" using cache.oldest_Some [OF g(1)] by simp
  have "ht (hd (blocks c)) \<le> ht b" using chain_hd_le [OF g(2) b(1)] .
  then show ?thesis
    using handleConnectedBlocks_onBest [OF best c first, of "Some b"]
      FindBlock_chain(1) [OF g(2,1) ne b(1), of "uint64_of_int32 (ev_Height event)"] b(2)
    by simp
qed

lemma connected_too_early:
  assumes "cache_wf c" and "btcCache s = Some c" and "blocks c \<noteq> []"
    and "sint (ev_Height event) < ht (hd (blocks c))" and "onBest r event (outside s) w"
  shows "handleConnectedBlocks r event s = (Ok (), s\<lparr>outside := w\<rparr>)"
proof -
  have "First c = Some (hd (blocks c))" using cache.oldest_Some [OF assms(1)] assms(3) by simp
  then show ?thesis
    using assms(2,4,5)
    by (simp add: handleConnectedBlocks_def andThen_def checkBestChain_onBest readCache_def)
qed

text \<open>A block at a new height: fetched by its hash, it has to sit on the tip.\<close>

lemma connected_new:
  assumes good: "cache_good (headerFuns r) hgt c" and c: "btcCache s = Some c"
    and ne: "blocks c \<noteq> []" and h: "ht (last (blocks c)) < sint (ev_Height event)"
    and best: "onBest r event (outside s) w"
    and byHash: "GetBlockByHash (btcClient r) (hashOf r (ev_Header event)) w = (Ok (ib, mb), w')"
  shows "handleConnectedBlocks r event s =
    (if PrevBlock (mb_Header mb) = BlockHash (hashOf r) (last (blocks c))
     then andThen (headersToProcess r ib) (submitNewHeaders r)
       (s\<lparr>outside := w', btcCache := Some (c\<lparr>blocks := (if length (blocks c) < unat (maxEntries c)
          then blocks c else tl (blocks c)) @ [ib]\<rparr>)\<rparr>)
     else (Err (ErrMessage ''cache is not up-to-date while connecting block, restart bootstrap process''),
       s\<lparr>outside := w'\<rparr>))"
proof -
  note g = cache_goodD [OF good]
  have first: "First c = Some (hd (blocks c))" and tip: "Tip c = Some (last (blocks c))"
    using cache.oldest_Some [OF g(1)] cache.newest_Some [OF g(1)] ne by simp_all
  have le: "ht b < sint (ev_Height event)" if "b \<in> set (blocks c)" for b
    using chain_le_last [OF g(2) that] h by linarith
  then have none: "FindBlock (uint64_of_int32 (ev_Height event)) c = Ok None"
    using FindBlock_chain(2) [OF g(2,1) ne, of "uint64_of_int32 (ev_Height event)"] by fastforce
  have ge: "\<not> sint (ev_Height event) < ht (hd (blocks c))"
    using le [of "hd (blocks c)"] ne by simp
  let ?s = "s\<lparr>outside := w\<rparr>"
  have fetch: "call (GetBlockByHash (btcClient r) (hashOf r (ev_Header event))) ?s
      = (Ok (ib, mb), s\<lparr>outside := w'\<rparr>)"
    using call_Ok [of "GetBlockByHash (btcClient r) (hashOf r (ev_Header event))" ?s] byHash by simp
  have "handleConnectedBlocks r event s = connectNewBlock r event ?s"
    using handleConnectedBlocks_onBest [OF best c first ge none] by simp
  also have "\<dots> = (if PrevBlock (mb_Header mb) = BlockHash (hashOf r) (last (blocks c))
     then andThen (headersToProcess r ib) (submitNewHeaders r)
       (s\<lparr>outside := w', btcCache := Some (c\<lparr>blocks := (if length (blocks c) < unat (maxEntries c)
          then blocks c else tl (blocks c)) @ [ib]\<rparr>)\<rparr>)
     else (Err (ErrMessage ''cache is not up-to-date while connecting block, restart bootstrap process''),
       s\<lparr>outside := w'\<rparr>))"
    using c tip
    by (simp add: connectNewBlock_def andThen_def wrapErr_def fetch readCache_def onCache_def
        Add_def add_wf [OF g(1)])
  finally show ?thesis .
qed

lemma disconnected_cases:
  assumes wf: "cache_wf c" and c: "btcCache s = Some c"
  shows "handleDisconnectedBlocks r event s =
    (if blocks c = [] then (Err (ErrMessage ''cache is empty, restart bootstrap process''), s)
     else if hashOf r (ev_Header event) \<noteq> BlockHash (hashOf r) (last (blocks c))
     then (Err (ErrMessage ''cache is not up-to-date while disconnecting block, restart bootstrap process''), s)
     else (Ok (), s\<lparr>btcCache := Some (c\<lparr>blocks := butlast (blocks c)\<rparr>),
       reorgList := addRemovedBlock (headerFuns r) (uint64_of_int32 (Height (last (blocks c))))
         (Header (last (blocks c))) (reorgList s)\<rparr>))"
proof (cases "blocks c = []")
  case True
  then have "Tip c = None" using cache.newest_None [OF wf] by simp
  then show ?thesis using True c by (simp add: handleDisconnectedBlocks_def andThen_def readCache_def)
next
  case False
  then have tip: "Tip c = Some (last (blocks c))" using cache.newest_Some [OF wf] by simp
  have "cache_size c \<noteq> 0" using False cache_size_compare(4) [OF cache_wfD(4) [OF wf]] by simp
  then have "RemoveLast c = Ok (c\<lparr>blocks := butlast (blocks c)\<rparr>)"
    by (simp add: RemoveLast_def butlast_conv_take)
  then show ?thesis
    using False c tip
    by (simp add: handleDisconnectedBlocks_def andThen_def readCache_def onCache_def orPanic_def)
qed

section \<open>A whole reorganisation\<close>

text \<open>The event loop's dispatch over a sequence of events, up to the first that fails.\<close>

fun runEvents :: "'w reporter \<Rightarrow> block_event list \<Rightarrow> ('w reporter_state, unit) action" where
  "runEvents r [] s = (Ok (), s)"
| "runEvents r (e # es) s = andThen (handleEvent r e) (\<lambda>_. runEvents r es) s"

definition eventFor :: "event_type \<Rightarrow> indexed_block \<Rightarrow> block_event" where
  "eventFor t ib = NewBlockEvent t (Height ib) (Header ib)"

lemma eventFor_simps [simp]:
  "EventType (eventFor t ib) = t" "ev_Height (eventFor t ib) = Height ib"
  "ev_Header (eventFor t ib) = Header ib"
  by (simp_all add: eventFor_def NewBlockEvent_def)

lemma runEvents_append:
  "runEvents r (es @ fs) s = andThen (runEvents r es) (\<lambda>_. runEvents r fs) s"
  by (induction es arbitrary: s) (auto simp: andThen_def split: prod.splits outcome.splits)

text \<open>The reorg list after \<open>old\<close> has been removed from its newest block down.\<close>

definition removing :: "header_funs \<Rightarrow> indexed_block list \<Rightarrow> reorg_list \<Rightarrow> reorg_list" where
  "removing hf old rl =
     foldl (\<lambda>rl b. addRemovedBlock hf (uint64_of_int32 (Height b)) (Header b) rl) rl (rev old)"

lemma removing_snoc:
  "removing hf (old @ [b]) rl =
     removing hf old (addRemovedBlock hf (uint64_of_int32 (Height b)) (Header b) rl)"
  by (simp add: removing_def)

lemma removing_Cons:
  "removing hf (b # old) rl =
     addRemovedBlock hf (uint64_of_int32 (Height b)) (Header b) (removing hf old rl)"
  by (simp add: removing_def)

lemma removing_last:
  "old \<noteq> [] \<Longrightarrow> getLastRemovedBlock (removing hf old rl)
     = Some \<lparr>rb_height = uint64_of_int32 (Height (hd old)), rb_header = Header (hd old)\<rparr>"
  by (cases old) (auto simp: removing_Cons)

lemma removing_size: "reorg_size (removing hf old rl) = reorg_size rl + length old"
  by (induction old arbitrary: rl) (simp_all add: removing_Cons reorg_size_def, simp add: removing_def)

lemma removing_work:
  "additive_work hf \<Longrightarrow> removedBranchWork (removing hf old rl)
     = removedBranchWork rl + calculateBranchWork hf old"
proof (induction old)
  case (Cons b old)
  then show ?case
    by (simp add: removing_Cons addRemovedBlock_def Let_def removedBranchWork_def
        calculateBranchWork_def branchWorkLoop_sum additive_work_def)
qed (simp add: removing_def calculateBranchWork_def)

lemma clear_removing: "clear (removing hf old rl) = clear rl"
  by (simp add: clear_def)

lemma cache_blocks_update_good:
  assumes "cache_good hf hgt c" and "length bs \<le> unat (maxEntries c)"
    and "chain (hf_BlockHash hf) bs" and "\<forall>b \<in> set bs. on_node hf hgt b"
  shows "cache_good hf hgt (c\<lparr>blocks := bs\<rparr>)"
  using assms by (simp add: cache_good_def cache_wf_def)

lemma disconnect_run:
  assumes good: "cache_good (headerFuns r) hgt c" and c: "btcCache s = Some c"
    and "blocks c = base @ old"
  shows "runEvents r (map (eventFor BlockDisconnected) (rev old)) s =
    (Ok (), s\<lparr>btcCache := Some (c\<lparr>blocks := base\<rparr>),
              reorgList := removing (headerFuns r) old (reorgList s)\<rparr>)"
  using assms
proof (induction old arbitrary: c s rule: rev_induct)
  case Nil
  then show ?case by (cases s; cases c) (simp add: removing_def)
next
  case (snoc b old)
  let ?c = "c\<lparr>blocks := base @ old\<rparr>"
  let ?s = "s\<lparr>btcCache := Some ?c, reorgList := addRemovedBlock (headerFuns r)
    (uint64_of_int32 (Height b)) (Header b) (reorgList s)\<rparr>"
  note g = cache_goodD [OF snoc.prems(1)]
  have step: "handleEvent r (eventFor BlockDisconnected b) s = (Ok (), ?s)"
    using disconnected_cases [OF g(1) snoc.prems(2), of r "eventFor BlockDisconnected b"] snoc.prems(3)
    by (simp add: handleEvent_def BlockHash_def butlast_append)
  have "chain (hashOf r) ((base @ old) @ [b])" using g(2) snoc.prems(3) by simp
  then have "chain (hashOf r) (base @ old)" by (simp only: chain_append_iff)
  then have "cache_good (headerFuns r) hgt ?c"
    using snoc.prems(3) g(3) cache_wfD(3) [OF g(1)]
    by (intro cache_blocks_update_good [OF snoc.prems(1)]) simp_all
  then have "runEvents r (map (eventFor BlockDisconnected) (rev old)) ?s =
    (Ok (), ?s\<lparr>btcCache := Some (?c\<lparr>blocks := base\<rparr>),
              reorgList := removing (headerFuns r) old (reorgList ?s)\<rparr>)"
    by (intro snoc.IH) simp_all
  then show ?case
    using step by (simp add: andThen_def removing_snoc)
qed

text \<open>\<open>serves r ib\<close>: whenever asked, the node has \<open>ib\<close> on its best chain and returns it by hash.\<close>

definition serves :: "'w reporter \<Rightarrow> indexed_block \<Rightarrow> bool" where
  "serves r ib \<longleftrightarrow> (\<forall>w. \<exists>w1 w2. GetBlockByHeight (btcClient r) (uint64_of_int32 (Height ib)) w
       = (Ok (ib, MsgBlock ib), w1)
     \<and> GetBlockByHash (btcClient r) (BlockHash (hashOf r) ib) w = (Ok (ib, MsgBlock ib), w2))"

lemma reorgHeaders_branch:
  assumes ch: "chain H (blocks c)" and c: "btcCache s = Some c" and b: "blocks c = base @ new"
    and new: "new \<noteq> []" and h: "getLastRemovedBlock (reorgList s) = Some rb"
    and hd: "Height (hd new) = int32_of_uint64 (rb_height rb)"
  shows "reorgHeaders r s =
    (if calculateBranchWork (headerFuns r) new > removedBranchWork (reorgList s)
     then (Ok new, s\<lparr>reorgList := clear (reorgList s)\<rparr>) else (Ok [], s))"
proof -
  obtain x xs where x: "new = x # xs" using new by (cases new) auto
  have "GetLastBlocks (rb_height rb) c = Ok new"
  proof -
    from GetLastBlocks_chain [OF ch, of "rb_height rb"] b new
    consider (ok) pre y post where "blocks c = pre @ y # post" "Height y = int32_of_uint64 (rb_height rb)"
        "GetLastBlocks (rb_height rb) c = Ok (y # post)"
      | (bad) "\<forall>y \<in> set (blocks c). Height y \<noteq> int32_of_uint64 (rb_height rb)"
      by auto
    then show ?thesis
    proof cases
      case ok
      have "length pre = length base"
      proof (rule chain_ht_inj [OF ch])
        show "Height (blocks c ! length pre) = Height (blocks c ! length base)"
          using ok(1,2) hd b x by (metis nth_append_length list.sel(1))
      qed (use ok(1) b x in \<open>metis length_append length_Cons less_add_Suc1 add_Suc_right\<close>)+
      then have "y # post = new" using ok(1) b by (metis append_eq_append_conv)
      then show ?thesis using ok(3) by simp
    next
      case bad
      then show ?thesis using hd b x by auto
    qed
  qed
  then show ?thesis
    using h c by (simp add: reorgHeaders_def andThen_def orPanic_def wrapErr_def readCache_def)
qed


lemma observed_served:
  assumes obs: "observed r" and serves: "serves r ib"
  shows "\<exists>w1. onBest r (eventFor BlockConnected ib) w w1 \<and> snd w1 = snd w"
    and "\<exists>w2. GetBlockByHash (btcClient r) (BlockHash (hashOf r) ib) w = (Ok (ib, MsgBlock ib), w2)
      \<and> snd w2 = snd w"
proof -
  have aside: "aside (btcClient r)" using obs by (simp add: observed_def)
  obtain w1 w2 where w: "GetBlockByHeight (btcClient r) (uint64_of_int32 (Height ib)) w
       = (Ok (ib, MsgBlock ib), w1)"
    "GetBlockByHash (btcClient r) (BlockHash (hashOf r) ib) w = (Ok (ib, MsgBlock ib), w2)"
    using serves unfolding serves_def by blast
  have "snd w1 = snd w" and "snd w2 = snd w"
    using w aside by (auto simp: aside_def dest: keeps_logD)
  with w show "\<exists>w1. onBest r (eventFor BlockConnected ib) w w1 \<and> snd w1 = snd w"
    and "\<exists>w2. GetBlockByHash (btcClient r) (BlockHash (hashOf r) ib) w = (Ok (ib, MsgBlock ib), w2)
      \<and> snd w2 = snd w"
    by (auto simp: onBest_def BlockHash_def)
qed

lemma connect_step:
  assumes obs: "observed r" and good: "cache_good (headerFuns r) hgt c" and c: "btcCache s = Some c"
    and b: "blocks c = base @ taken" "base \<noteq> []"
    and ch: "chain (hashOf r) (base @ taken @ [b])" and serves: "serves r b"
    and room: "length (blocks c) < unat (maxEntries c)"
    and h: "getLastRemovedBlock (reorgList s) = Some rb"
    and hd: "Height (hd (taken @ [b])) = int32_of_uint64 (rb_height rb)"
  shows "\<exists>w. snd w = accepted s \<and> handleEvent r (eventFor BlockConnected b) s =
    (let s' = s\<lparr>outside := w, btcCache := Some (c\<lparr>blocks := base @ taken @ [b]\<rparr>)\<rparr> in
     if calculateBranchWork (headerFuns r) (taken @ [b]) > removedBranchWork (reorgList s)
     then submitNewHeaders r (taken @ [b]) (s'\<lparr>reorgList := clear (reorgList s)\<rparr>)
     else (Ok (), s'))"
proof -
  obtain w1 where w1: "onBest r (eventFor BlockConnected b) (outside s) w1" "snd w1 = accepted s"
    using observed_served(1) [OF obs serves] by blast
  obtain w2 where w2: "GetBlockByHash (btcClient r) (BlockHash (hashOf r) b) w1 = (Ok (b, MsgBlock b), w2)"
      "snd w2 = snd w1"
    using observed_served(2) [OF obs serves] by blast
  have ne: "blocks c \<noteq> []" using b by simp
  have "linked (hashOf r) (last (blocks c)) b"
    using ch b by (cases "taken = []") (auto simp: chain_append_iff)
  then have link: "ht (last (blocks c)) < ht b" "PrevBlock (mb_Header (MsgBlock b)) = BlockHash (hashOf r) (last (blocks c))"
    by (simp_all add: linked_def MsgBlock_def)
  define s' where "s' = s\<lparr>outside := w2, btcCache := Some (c\<lparr>blocks := base @ taken @ [b]\<rparr>)\<rparr>"
  have "reorg_size (reorgList s') > 0"
    using h by (auto simp: getLast_iff s'_def split: if_splits)
  then have "headersToProcess r b s' =
    (if calculateBranchWork (headerFuns r) (taken @ [b]) > removedBranchWork (reorgList s)
     then (Ok (taken @ [b]), s'\<lparr>reorgList := clear (reorgList s)\<rparr>) else (Ok [], s'))"
    using reorgHeaders_branch [of "hashOf r" "c\<lparr>blocks := base @ taken @ [b]\<rparr>" s' base "taken @ [b]" rb r]
      ch h hd by (simp add: s'_def headersToProcess_def)
  moreover have "handleEvent r (eventFor BlockConnected b) s =
      andThen (headersToProcess r b) (submitNewHeaders r) s'"
    using connected_new [OF good c ne, of "eventFor BlockConnected b" w1 b "MsgBlock b" w2] w1(1) w2(1) link room b
    by (simp add: handleEvent_def BlockHash_def s'_def)
  ultimately have "handleEvent r (eventFor BlockConnected b) s =
    (if calculateBranchWork (headerFuns r) (taken @ [b]) > removedBranchWork (reorgList s)
     then submitNewHeaders r (taken @ [b]) (s'\<lparr>reorgList := clear (reorgList s)\<rparr>)
     else (Ok (), s'))"
    by (simp add: andThen_def submitNewHeaders_def)
  then show ?thesis
    using w1 w2 by (intro exI [of _ w2]) (simp add: s'_def Let_def)
qed

text \<open>While the new branch does not have more work, its blocks only enter the cache.\<close>

lemma connect_run:
  assumes obs: "observed r" and add: "additive_work (headerFuns r)"
    and "cache_good (headerFuns r) hgt c" and "btcCache s = Some c"
    and "blocks c = base @ taken" and base: "base \<noteq> []"
    and "chain (hashOf r) (base @ taken @ rest)" and "\<forall>b \<in> set rest. serves r b \<and> on_node (headerFuns r) hgt b"
    and "length (base @ taken @ rest) \<le> unat (maxEntries c)"
    and "getLastRemovedBlock (reorgList s) = Some rb"
    and "taken @ rest \<noteq> [] \<longrightarrow> Height (hd (taken @ rest)) = int32_of_uint64 (rb_height rb)"
    and "calculateBranchWork (headerFuns r) (taken @ rest) \<le> removedBranchWork (reorgList s)"
  shows "\<exists>w. snd w = accepted s \<and> runEvents r (map (eventFor BlockConnected) rest) s =
    (Ok (), s\<lparr>outside := w, btcCache := Some (c\<lparr>blocks := base @ taken @ rest\<rparr>)\<rparr>)"
  using assms(3-5,7-)
proof (induction rest arbitrary: c s taken)
  case Nil
  then show ?case by (intro exI [of _ "outside s"]) (cases s; cases c; simp)
next
  case (Cons b rest)
  note p = Cons.prems
  have ch: "chain (hashOf r) ((base @ taken @ [b]) @ rest)" using p(4) by simp
  then have ch': "chain (hashOf r) (base @ taken @ [b])" by (simp only: chain_append_iff)
  have le: "\<not> calculateBranchWork (headerFuns r) (taken @ [b]) > removedBranchWork (reorgList s)"
    using p(9) by (simp add: calculateBranchWork_def branchWorkLoop_sum [OF add])
  have hd: "Height (hd (taken @ [b])) = int32_of_uint64 (rb_height rb)"
    using p(8) by (cases taken) simp_all
  let ?c = "c\<lparr>blocks := base @ taken @ [b]\<rparr>"
  obtain w where w: "snd w = accepted s" "handleEvent r (eventFor BlockConnected b) s
      = (Ok (), s\<lparr>outside := w, btcCache := Some ?c\<rparr>)"
    using connect_step [OF obs p(1-3) base ch' _ _ p(7) hd] p(3,5,6) le by (auto simp: Let_def)
  let ?s = "s\<lparr>outside := w, btcCache := Some ?c\<rparr>"
  have good: "cache_good (headerFuns r) hgt ?c"
    using ch' p(3,5,6) cache_goodD(3) [OF p(1)]
    by (intro cache_blocks_update_good [OF p(1)]) auto
  have "\<exists>w'. snd w' = accepted ?s \<and> runEvents r (map (eventFor BlockConnected) rest) ?s =
    (Ok (), ?s\<lparr>outside := w', btcCache := Some (?c\<lparr>blocks := base @ (taken @ [b]) @ rest\<rparr>)\<rparr>)"
    using p ch good by (intro Cons.IH) simp_all
  then show ?case using w by (auto simp: andThen_def)
qed


text \<open>
  A branch that does not have more work than the one it replaces is only taken into the cache.
\<close>

lemma weaker_branch_run:
  assumes obs: "observed r" and add: "additive_work (headerFuns r)"
    and good: "cache_good (headerFuns r) hgt c" and c: "btcCache s = Some c"
    and b: "blocks c = base @ old" "base \<noteq> []" "old \<noteq> []"
    and empty: "reorgList s = newReorgList"
    and ch: "chain (hashOf r) (base @ new)"
    and new: "\<forall>x \<in> set new. serves r x \<and> on_node (headerFuns r) hgt x"
    and room: "length (base @ new) \<le> unat (maxEntries c)"
    and work: "calculateBranchWork (headerFuns r) new \<le> calculateBranchWork (headerFuns r) old"
  shows "\<exists>w. snd w = accepted s \<and>
    runEvents r (map (eventFor BlockDisconnected) (rev old) @ map (eventFor BlockConnected) new) s =
    (Ok (), s\<lparr>outside := w, btcCache := Some (c\<lparr>blocks := base @ new\<rparr>),
       reorgList := removing (headerFuns r) old newReorgList\<rparr>)"
proof -
  note g = cache_goodD [OF good]
  let ?rl = "removing (headerFuns r) old newReorgList"
  let ?rb = "\<lparr>rb_height = uint64_of_int32 (Height (hd old)), rb_header = Header (hd old)\<rparr>"
  let ?c1 = "c\<lparr>blocks := base\<rparr>"
  let ?s1 = "s\<lparr>btcCache := Some ?c1, reorgList := ?rl\<rparr>"
  have rb: "getLastRemovedBlock ?rl = Some ?rb" using b(3) by (rule removing_last)
  have rw: "removedBranchWork ?rl = calculateBranchWork (headerFuns r) old"
    using removing_work [OF add] by (simp add: newReorgList_def removedBranchWork_def)
  have ch1: "chain (hashOf r) base" using g(2) b(1) by (simp add: chain_append_iff)
  have hd: "Height (hd new) = Height (hd old)" if "new \<noteq> []"
  proof -
    have "ht (hd old) = ht (last base) + 1" and "ht (hd new) = ht (last base) + 1"
      using g(2) ch b that by (simp_all add: chain_append_iff linked_def)
    then show ?thesis by (metis sint_inject)
  qed
  have good1: "cache_good (headerFuns r) hgt ?c1"
    using ch1 g(3) b(1) cache_wfD(3) [OF g(1)]
    by (intro cache_blocks_update_good [OF good]) simp_all
  have run1: "runEvents r (map (eventFor BlockDisconnected) (rev old)) s = (Ok (), ?s1)"
    using disconnect_run [OF good c b(1)] empty by simp
  have "\<exists>w. snd w = accepted ?s1 \<and> runEvents r (map (eventFor BlockConnected) new) ?s1 =
    (Ok (), ?s1\<lparr>outside := w, btcCache := Some (?c1\<lparr>blocks := base @ [] @ new\<rparr>)\<rparr>)"
    by (rule connect_run [OF obs add good1])
      (use b ch new room rb rw work hd in \<open>auto split: if_splits\<close>)
  then show ?thesis unfolding runEvents_append andThen_simps(1) [where m = "runEvents r _", OF run1]
    by (cases s) simp
qed

text \<open>The branch that takes over: what the whole run hands to \<open>submitNewHeaders\<close>.\<close>

lemma runEvents_snoc:
  assumes "runEvents r evs s = (Ok (), t)"
  shows "runEvents r (evs @ [e]) s = handleEvent r e t"
proof -
  have "runEvents r [e] t = handleEvent r e t"
    by (auto simp: andThen_def split: prod.splits outcome.splits)
  then show ?thesis
    using runEvents_append [of r evs "[e]" s] unfolding andThen_simps(1) [where m = "runEvents r _", OF assms] by simp
qed

lemma reorg_run:
  assumes obs: "observed r" and add: "additive_work (headerFuns r)"
    and good: "cache_good (headerFuns r) hgt c" and c: "btcCache s = Some c"
    and b: "blocks c = base @ old" "base \<noteq> []" "old \<noteq> []"
    and empty: "reorgList s = newReorgList"
    and ch: "chain (hashOf r) (base @ new @ [b])"
    and new: "\<forall>x \<in> set (new @ [b]). serves r x \<and> on_node (headerFuns r) hgt x"
    and room: "length (base @ new @ [b]) \<le> unat (maxEntries c)"
    and work: "calculateBranchWork (headerFuns r) new \<le> calculateBranchWork (headerFuns r) old"
      "calculateBranchWork (headerFuns r) old < calculateBranchWork (headerFuns r) (new @ [b])"
  shows "\<exists>w. snd w = accepted s \<and>
    runEvents r (map (eventFor BlockDisconnected) (rev old) @ map (eventFor BlockConnected) (new @ [b])) s =
    submitNewHeaders r (new @ [b])
      (s\<lparr>outside := w, btcCache := Some (c\<lparr>blocks := base @ new @ [b]\<rparr>)\<rparr>)"
proof -
  note g = cache_goodD [OF good]
  let ?rl = "removing (headerFuns r) old newReorgList"
  let ?rb = "\<lparr>rb_height = uint64_of_int32 (Height (hd old)), rb_header = Header (hd old)\<rparr>"
  let ?c2 = "c\<lparr>blocks := base @ new\<rparr>"
  have rb: "getLastRemovedBlock ?rl = Some ?rb" using b(3) by (rule removing_last)
  have rw: "removedBranchWork ?rl = calculateBranchWork (headerFuns r) old"
    using removing_work [OF add] by (simp add: newReorgList_def removedBranchWork_def)
  have chs: "chain (hashOf r) ((base @ new) @ [b])" using ch by simp
  have ch2: "chain (hashOf r) (base @ new)" using chs by (simp only: chain_append_iff)
  have "ht (hd old) = ht (last base) + 1" and "ht (hd (new @ [b])) = ht (last base) + 1"
    using g(2) ch b by (simp_all add: chain_append_iff linked_def)
  then have hd: "Height (hd (new @ [b])) = Height (hd old)"
    by (metis sint_inject)
  then have hd': "Height (hd (new @ [b])) = int32_of_uint64 (rb_height ?rb)"
    unfolding removed_block.select_convs ucast_scast_i32 .
  have good2: "cache_good (headerFuns r) hgt ?c2"
    using ch2 g(3) b(1) new room
    by (intro cache_blocks_update_good [OF good]) auto
  have "\<exists>w. snd w = accepted s \<and>
    runEvents r (map (eventFor BlockDisconnected) (rev old) @ map (eventFor BlockConnected) new) s =
    (Ok (), s\<lparr>outside := w, btcCache := Some ?c2, reorgList := ?rl\<rparr>)"
    by (rule weaker_branch_run [OF obs add good c b empty ch2 _ _ work(1)]) (use new room in auto)
  then obtain w where w: "snd w = accepted s"
    "runEvents r (map (eventFor BlockDisconnected) (rev old) @ map (eventFor BlockConnected) new) s =
      (Ok (), s\<lparr>outside := w, btcCache := Some ?c2, reorgList := ?rl\<rparr>)" by blast
  let ?s2 = "s\<lparr>outside := w, btcCache := Some ?c2, reorgList := ?rl\<rparr>"
  have "\<exists>w'. snd w' = accepted ?s2 \<and> handleEvent r (eventFor BlockConnected b) ?s2 =
    (let s' = ?s2\<lparr>outside := w', btcCache := Some (?c2\<lparr>blocks := base @ new @ [b]\<rparr>)\<rparr> in
     if calculateBranchWork (headerFuns r) (new @ [b]) > removedBranchWork (reorgList ?s2)
     then submitNewHeaders r (new @ [b]) (s'\<lparr>reorgList := clear (reorgList ?s2)\<rparr>)
     else (Ok (), s'))"
    by (rule connect_step [OF obs good2 _ _ b(2) ch _ _ _ hd']) (use new room rb in simp_all)
  then obtain w' where w': "snd w' = accepted s" "handleEvent r (eventFor BlockConnected b) ?s2 =
     submitNewHeaders r (new @ [b]) (?s2\<lparr>outside := w', btcCache := Some (?c2\<lparr>blocks := base @ new @ [b]\<rparr>),
       reorgList := clear ?rl\<rparr>)"
    using w(1) work(2) rw by (auto simp: Let_def)
  have "clear ?rl = newReorgList" by (simp add: clear_def newReorgList_def)
  then have "?s2\<lparr>outside := w', btcCache := Some (?c2\<lparr>blocks := base @ new @ [b]\<rparr>), reorgList := clear ?rl\<rparr>
      = s\<lparr>outside := w', btcCache := Some (c\<lparr>blocks := base @ new @ [b]\<rparr>)\<rparr>"
    using empty by simp
  moreover have "runEvents r (map (eventFor BlockDisconnected) (rev old)
        @ map (eventFor BlockConnected) (new @ [b])) s
      = handleEvent r (eventFor BlockConnected b) ?s2"
    using runEvents_snoc [OF w(2)] by simp
  ultimately show ?thesis using w' by (intro exI [of _ w']) simp
qed

end
