(* ===== verification/No_Panic.thy ===== *)
theory No_Panic
  imports Reorg_Run
begin

text \<open>
  The connected-block handler ends without a panic and without hanging, as long as the
  clients do and the reorg list's newest entry is a height the cache reaches: the panics
  written in the code (a nil response, an empty list of headers, a reorg below the cache) and
  those of the run time (indexing, slicing, chunks of size 0) are not reached.
\<close>

definition graceful :: "'a outcome \<Rightarrow> bool" where
  "graceful out \<longleftrightarrow> (\<forall>p. out \<noteq> Panic p) \<and> out \<noteq> Hang"

lemma graceful_simps [simp]: "graceful (Ok x)" "graceful (Err e)" "\<not> graceful (Panic p)" "\<not> graceful Hang"
  by (simp_all add: graceful_def)

lemma graceful_cases: "graceful out \<longleftrightarrow> (\<exists>x. out = Ok x) \<or> (\<exists>e. out = Err e)"
  by (cases out) auto

lemma graceful_andThen:
  assumes "graceful (fst (m s))" and "\<And>x s'. m s = (Ok x, s') \<Longrightarrow> graceful (fst (f x s'))"
  shows "graceful (fst (andThen m f s))"
  using assms by (cases "m s"; cases "fst (m s)") (auto simp: andThen_def)

lemma graceful_wrapErr [simp]: "graceful (fst (wrapErr e m s)) \<longleftrightarrow> graceful (fst (m s))"
  by (cases "m s"; cases "fst (m s)") (auto simp: wrapErr_def)

lemma graceful_reraise: "graceful out \<Longrightarrow> \<nexists>x. out = Ok x \<Longrightarrow> graceful (reraise out)"
  by (cases out) auto

definition answering :: "('w, 'a) action \<Rightarrow> bool" where
  "answering m \<longleftrightarrow> (\<forall>w. graceful (fst (m w)))"

definition calm_clients :: "'w reporter \<Rightarrow> bool" where
  "calm_clients r \<longleftrightarrow>
     (\<forall>h. answering (GetBlockByHash (btcClient r) h))
     \<and> (\<forall>h. answering (GetBlockByHeight (btcClient r) h))
     \<and> answering (BTCHeaderChainTip (lorenzoClient r)) \<and> answering (MustGetAddr (lorenzoClient r))
     \<and> (\<forall>h. answering (ContainsBTCBlock (lorenzoClient r) h))
     \<and> (\<forall>msg. answering (InsertHeaders (lorenzoClient r) msg))"

lemma graceful_call [simp]: "answering m \<Longrightarrow> graceful (fst (call m s))"
  by (auto simp: answering_def call_def split: prod.splits) (metis fst_conv)

section \<open>Submission\<close>

lemma contains_attempt_graceful:
  assumes "calm_clients r"
  shows "graceful (fst (containsAttempt (lorenzoClient r) h st))"
    and "containsAttempt (lorenzoClient r) h st = (Ok u, (w, b)) \<Longrightarrow> b \<noteq> None"
proof -
  have "answering (ContainsBTCBlock (lorenzoClient r) h)" using assms by (simp add: calm_clients_def)
  then have "graceful (fst (ContainsBTCBlock (lorenzoClient r) h (fst st)))" by (simp add: answering_def)
  then show "graceful (fst (containsAttempt (lorenzoClient r) h st))"
    and "containsAttempt (lorenzoClient r) h st = (Ok u, (w, b)) \<Longrightarrow> b \<noteq> None"
    by (auto simp: containsAttempt_def graceful_cases split: prod.splits outcome.splits)
qed

lemma insert_attempt_graceful:
  assumes "calm_clients r"
  shows "graceful (fst (insertAttempt (lorenzoClient r) msg st))"
proof -
  have "answering (InsertHeaders (lorenzoClient r) msg)" using assms by (simp add: calm_clients_def)
  then have "graceful (fst (InsertHeaders (lorenzoClient r) msg (fst st)))" by (simp add: answering_def)
  then show ?thesis
    by (auto simp: insertAttempt_def graceful_cases split: prod.splits outcome.splits)
qed

lemma retry_graceful:
  assumes "retry_lawful R" and "\<And>st. graceful (fst (f st))"
  shows "graceful (fst (R f st))"
  using assms by (metis retry_lawfulE)

lemma findStart_graceful:
  assumes law: "retry_lawful (retryDo r)" and calm: "calm_clients r"
  shows "graceful (fst (findStart r i ibs w))"
proof (induction ibs arbitrary: i w)
  case Nil
  then show ?case by simp
next
  case (Cons ib ibs)
  let ?f = "containsAttempt (lorenzoClient r) (BlockHash (hf_BlockHash (headerFuns r)) ib)"
  obtain o1 w1 b where res: "retryDo r ?f (w, None) = (o1, (w1, b))" by (metis surj_pair)
  have "graceful (fst (retryDo r ?f (w, None)))"
    by (rule retry_graceful [OF law contains_attempt_graceful(1) [OF calm]])
  then have g: "graceful o1" unfolding res by simp
  obtain t where "retryDo r ?f (w, None) = ?f t" using law by (rule retry_lawfulE)
  then have b: "o1 = Ok u \<Longrightarrow> b \<noteq> None" for u
    using contains_attempt_graceful(2) [OF calm] res by metis
  show ?case
  proof (cases o1)
    case (Ok u)
    then obtain v where "b = Some v" using b by auto
    then show ?thesis using Ok res Cons.IH by (cases v) simp_all
  qed (use g res in simp_all)
qed

lemma submitHeaderMsgs_graceful:
  assumes law: "retry_lawful (retryDo r)" and calm: "calm_clients r"
  shows "graceful (fst (submitHeaderMsgs r msg s))"
proof -
  obtain o1 w1 b where res: "retryDo r (insertAttempt (lorenzoClient r) msg) (outside s, None)
      = (o1, (w1, b))" by (metis surj_pair)
  have "graceful (fst (retryDo r (insertAttempt (lorenzoClient r) msg) (outside s, None)))"
    by (rule retry_graceful [OF law insert_attempt_graceful [OF calm]])
  then have "graceful o1" unfolding res by simp
  then show ?thesis using res by (cases o1) (simp_all add: submitHeaderMsgs_def)
qed

lemma submitLoop_graceful:
  assumes "retry_lawful (retryDo r)" and "calm_clients r"
  shows "graceful (fst (submitLoop r n msgs s))"
proof (induction msgs arbitrary: n s)
  case (Cons msg msgs)
  show ?case
    unfolding submitLoop.simps
    by (rule graceful_andThen) (simp_all add: submitHeaderMsgs_graceful [OF assms] Cons.IH)
qed simp

lemma ProcessHeaders_graceful:
  assumes law: "retry_lawful (retryDo r)" and calm: "calm_clients r"
    and chunk: "0 < unat (cfg_MaxHeadersInMsg r)" and ne: "ibs \<noteq> []"
  shows "graceful (fst (ProcessHeaders r signer ibs s))"
proof -
  have find: "graceful (fst (call (findStart r 0 ibs) s))"
    using findStart_graceful [OF law calm] by (auto simp: call_def split: prod.splits) (metis fst_conv)
  have "graceful (fst (getHeaderMsgsToSubmit r signer ibs s))"
    unfolding getHeaderMsgsToSubmit_def
  proof (rule graceful_andThen, rule find)
    fix res s'
    show "graceful (fst ((case res of None \<Rightarrow> lift (Ok [])
      | Some i \<Rightarrow> andThen (lift (chunkBy (drop i ibs) (unat (cfg_MaxHeadersInMsg r)))) (\<lambda>blockChunks.
          lift (Ok (map (NewMsgInsertHeaders (hf_Encode (headerFuns r)) signer) blockChunks)))) s'))"
    proof (cases res)
      case (Some i)
      obtain cs where "chunkBy (drop i ibs) (unat (cfg_MaxHeadersInMsg r)) = Ok cs"
        using chunkBy_total [OF chunk] by blast
      then show ?thesis using Some by (simp add: andThen_def)
    qed simp
  qed
  then have g: "graceful (fst (andThen (wrapErr ''failed to find headers to submit''
      (getHeaderMsgsToSubmit r signer ibs)) (submitLoop r 0) s))"
    by (intro graceful_andThen) (simp_all add: submitLoop_graceful [OF law calm])
  then show ?thesis
    using ne by (auto simp: ProcessHeaders_def graceful_cases split: prod.splits outcome.splits)
qed

lemma submitNewHeaders_graceful:
  assumes law: "retry_lawful (retryDo r)" and calm: "calm_clients r"
    and chunk: "0 < unat (cfg_MaxHeadersInMsg r)"
  shows "graceful (fst (submitNewHeaders r hs s))"
proof (cases "hs = []")
  case False
  have "graceful (fst (call (MustGetAddr (lorenzoClient r)) s))"
    using calm by (simp add: calm_clients_def)
  moreover have "graceful (fst (case ProcessHeaders r signer hs s of
          (Ok _, s') \<Rightarrow> (Ok (), s') | (Err _, s') \<Rightarrow> (Ok (), s') | (e, s') \<Rightarrow> (reraise e, s')))" for signer s
  proof -
    obtain o1 s1 where p: "ProcessHeaders r signer hs s = (o1, s1)" by (metis surj_pair)
    then have "graceful o1" using ProcessHeaders_graceful [OF law calm chunk False, of signer s] by simp
    then show ?thesis using p by (cases o1) simp_all
  qed
  ultimately show ?thesis using False by (simp add: submitNewHeaders_def graceful_andThen)
qed (simp add: submitNewHeaders_def)

section \<open>The handler\<close>

lemma chain_height_exists:
  assumes ch: "chain H bs" and ne: "bs \<noteq> []"
    and "ht (hd bs) \<le> sint h" and "sint h \<le> ht (last bs)"
  shows "\<exists>x \<in> set bs. Height x = h"
proof -
  let ?i = "nat (sint h - ht (hd bs))"
  have i: "?i < length bs" using assms(3,4) chain_ht_last [OF ch ne] by linarith
  then have "ht (bs ! ?i) = sint h" using chain_ht_nth [OF ch i] assms(3) by simp
  then show ?thesis using i by (metis nth_mem sint_inject)
qed

text \<open>The newest removed height is at most one above the tip, and stays in the cache when a
  block is added.\<close>

definition reorg_reached :: "btc_cache \<Rightarrow> reorg_list \<Rightarrow> bool" where
  "reorg_reached c rl \<longleftrightarrow> blocks c = [] \<or>
     (case getLastRemovedBlock rl of
        None \<Rightarrow> True
      | Some rb \<Rightarrow>
          (let h = sint (int32_of_uint64 (rb_height rb)) in
           h \<le> ht (last (blocks c)) + 1
           \<and> (if length (blocks c) < unat (maxEntries c) then ht (hd (blocks c)) \<le> h
              else ht (hd (blocks c)) < h)))"

lemma headersToProcess_graceful:
  assumes calm: "calm_clients r" and good: "cache_good (headerFuns r) hgt c"
    and c: "btcCache s = Some c" and ne: "blocks c \<noteq> []"
    and reach: "\<And>rb. getLastRemovedBlock (reorgList s) = Some rb \<Longrightarrow>
      ht (hd (blocks c)) \<le> sint (int32_of_uint64 (rb_height rb))
      \<and> sint (int32_of_uint64 (rb_height rb)) \<le> ht (last (blocks c))"
  shows "graceful (fst (headersToProcess r ib s))"
proof (cases "reorg_size (reorgList s) > 0")
  case True
  then obtain rb where rb: "getLastRemovedBlock (reorgList s) = Some rb"
    by (auto simp: getLast_iff)
  note g = cache_goodD [OF good]
  obtain x where "x \<in> set (blocks c)" "Height x = int32_of_uint64 (rb_height rb)"
    using chain_height_exists [OF g(2) ne] reach [OF rb] by blast
  then obtain bs where "GetLastBlocks (rb_height rb) c = Ok bs"
    using GetLastBlocks_chain [OF g(2) ne, of "rb_height rb"] by auto
  then show ?thesis
    using True rb c by (simp add: headersToProcess_def reorgHeaders_def andThen_def orPanic_def wrapErr_def readCache_def)
next
  case False
  have "graceful (fst (tipHeaders r ib s))"
    unfolding tipHeaders_def
  proof (rule graceful_andThen)
    show "graceful (fst (call (BTCHeaderChainTip (lorenzoClient r)) s))"
      using calm by (simp add: calm_clients_def)
    fix t s' assume "call (BTCHeaderChainTip (lorenzoClient r)) s = (Ok t, s')"
    then have "btcCache s' = Some c" using c by (auto dest: call_OkD)
    then show "graceful (fst ((if lrz_Height t < uint64_of_int32 (Height ib - 1)
        then readCache (GetLastBlocks (lrz_Height t + 1)) else lift (Ok [ib])) s'))"
      using ne by (simp add: readCache_def GetLastBlocks_def)
  qed
  then show ?thesis using False by (simp add: headersToProcess_def)
qed

lemma push_reached:
  assumes good: "cache_good hf hgt c" and add: "Add ib c = Ok c'" and tip: "blocks c \<noteq> []"
    and link: "linked (hf_BlockHash hf) (last (blocks c)) ib"
    and reach: "reorg_reached c rl" and rb: "getLastRemovedBlock rl = Some rb"
  shows "ht (hd (blocks c')) \<le> sint (int32_of_uint64 (rb_height rb))
    \<and> sint (int32_of_uint64 (rb_height rb)) \<le> ht (last (blocks c'))"
proof -
  note g = cache_goodD [OF good]
  have b': "blocks c' = (if length (blocks c) < unat (maxEntries c) then blocks c else tl (blocks c)) @ [ib]"
    using cache.push_content(3) [OF g(1), of ib c'] add by (simp add: Add_def)
  have last: "ht (last (blocks c')) = ht (last (blocks c)) + 1"
    using link b' by (simp add: linked_def)
  have hd: "ht (hd (blocks c')) = (if length (blocks c) < unat (maxEntries c)
      then ht (hd (blocks c)) else ht (hd (blocks c)) + 1)"
  proof (cases "length (blocks c) < unat (maxEntries c)")
    case True
    then show ?thesis using b' tip by simp
  next
    case False
    obtain x xs where x: "blocks c = x # xs" using tip by (cases "blocks c") auto
    then show ?thesis
      using False b' g(2) link by (cases xs) (simp_all add: linked_def)
  qed
  show ?thesis
    using reach rb tip last hd by (auto simp: reorg_reached_def Let_def split: if_splits)
qed

lemma connectNewBlock_graceful:
  assumes law: "client_lawful (headerFuns r) hgt (btcClient r)" and calm: "calm_clients r"
    and retry: "retry_lawful (retryDo r)" and chunk: "0 < unat (cfg_MaxHeadersInMsg r)"
    and good: "cache_good (headerFuns r) hgt c" and c: "btcCache s = Some c"
    and ne: "blocks c \<noteq> []" and reach: "reorg_reached c (reorgList s)"
  shows "graceful (fst (connectNewBlock r event s))"
  unfolding connectNewBlock_def
proof (rule graceful_andThen)
  let ?get = "GetBlockByHash (btcClient r) (hashOf r (ev_Header event))"
  show "graceful (fst (wrapErr ''failed to get block from BTC client'' (call ?get) s))"
    using calm by (simp add: calm_clients_def)
  fix x s1
  assume fetched: "wrapErr ''failed to get block from BTC client'' (call ?get) s = (Ok x, s1)"
  obtain ib mb where x: "x = (ib, mb)" by (cases x)
  obtain w where w: "?get (outside s) = (Ok (ib, mb), w)" "s1 = s\<lparr>outside := w\<rparr>"
    using fetched x by (auto simp: wrapErr_Ok_iff dest!: call_OkD)
  note g = cache_goodD [OF good]
  have tip: "Tip c = Some (last (blocks c))" using cache.newest_Some [OF g(1)] ne by simp
  have on: "on_node (headerFuns r) hgt (last (blocks c))" using g(3) ne by simp
  show "graceful (fst ((case x of (ib, mBlock) \<Rightarrow>
      andThen (readCache (\<lambda>c. case Tip c of None \<Rightarrow> Panic NilDereference | Some t \<Rightarrow> Ok t)) (\<lambda>cacheTip.
      if PrevBlock (mb_Header mBlock) \<noteq> BlockHash (hashOf r) cacheTip
      then lift (Err (ErrMessage ''cache is not up-to-date while connecting block, restart bootstrap process''))
      else andThen (onCache (Add ib)) (\<lambda>_. andThen (headersToProcess r ib) (submitNewHeaders r)))) s1))"
  proof (cases "PrevBlock (mb_Header mb) = BlockHash (hashOf r) (last (blocks c))")
    case False
    then show ?thesis using x w(2) c tip by (simp add: andThen_def readCache_def)
  next
    case True
    have link: "linked (hashOf r) (last (blocks c)) ib"
      using held_source.byHash_linked [OF law w(1) on True] .
    obtain c' where c': "Add ib c = Ok c'" using add_wf [OF g(1)] by (simp add: Add_def)
    have "Tip c = Some (last (blocks c))" using tip .
    then have good': "cache_good (headerFuns r) hgt c'"
      using cache_good_push [OF good c' _ link] held_source.byHash_on_node [OF law w(1)] by blast
    have ne': "blocks c' \<noteq> []" using Add_last [OF c'] by auto
    have "graceful (fst (andThen (headersToProcess r ib) (submitNewHeaders r) (s1\<lparr>btcCache := Some c'\<rparr>)))"
    proof (rule graceful_andThen)
      show "graceful (fst (headersToProcess r ib (s1\<lparr>btcCache := Some c'\<rparr>)))"
        by (rule headersToProcess_graceful [OF calm good' _ ne'])
          (use w(2) push_reached [OF good c' ne link reach] in auto)
    qed (rule submitNewHeaders_graceful [OF retry calm chunk])
    then show ?thesis
      using True x w(2) c tip c' by (simp add: andThen_def readCache_def onCache_def)
  qed
qed

lemma handleConnectedBlocks_graceful:
  assumes law: "client_lawful (headerFuns r) hgt (btcClient r)" and calm: "calm_clients r"
    and retry: "retry_lawful (retryDo r)" and chunk: "0 < unat (cfg_MaxHeadersInMsg r)"
    and inv: "reporter_inv r hgt s" and c: "btcCache s = Some c"
    and reach: "reorg_reached c (reorgList s)"
  shows "graceful (fst (handleConnectedBlocks r event s))"
  unfolding handleConnectedBlocks_def
proof (rule graceful_andThen)
  have "graceful (fst (call (GetBlockByHeight (btcClient r) (uint64_of_int32 (ev_Height event))) s))"
    using calm by (simp add: calm_clients_def)
  then show "graceful (fst (checkBestChain r event s))"
    unfolding checkBestChain_def by (rule graceful_andThen) (auto split: prod.splits)
  fix u s1 assume "checkBestChain r event s = (Ok u, s1)"
  then have "core s1 = core s" using core_checkBestChain [of r event s] by simp
  then have s1: "btcCache s1 = Some c" "reorgList s1 = reorgList s"
    using core_eqD c by fastforce+
  have good: "cache_good (headerFuns r) hgt c" using inv c by (simp add: reporter_inv_def)
  note g = cache_goodD [OF good]
  have "graceful (fst (andThen (readCache (FindBlock h)) (\<lambda>found. case found of
      Some b \<Rightarrow> if P b then lift (Ok ()) else lift (Err e) | None \<Rightarrow> connectNewBlock r event) s1))"
    if ne: "blocks c \<noteq> []" for h P e
  proof -
    obtain res where "FindBlock h c = Ok res"
      using FindBlock_correct [OF ne cache_wfD(4) [OF g(1)], of h] by auto
    moreover have "graceful (fst (connectNewBlock r event s1))"
      by (rule connectNewBlock_graceful [OF law calm retry chunk good s1(1) ne]) (simp add: s1(2) reach)
    ultimately show ?thesis
      using s1(1) by (auto simp: andThen_def readCache_def split: option.splits)
  qed
  then show "graceful (fst (andThen (readCache (\<lambda>c. Ok (First c))) (\<lambda>first. case first of
       None \<Rightarrow> lift (Err (ErrMessage ''cache is empty, restart bootstrap process''))
     | Some firstCacheBlock \<Rightarrow>
         if sint (ev_Height event) < ht firstCacheBlock then lift (Ok ())
         else andThen (readCache (FindBlock (uint64_of_int32 (ev_Height event)))) (\<lambda>found. case found of
             Some b \<Rightarrow> if BlockHash (hashOf r) b = hashOf r (ev_Header event) then lift (Ok ())
               else lift (Err (ErrMessage
                 ''the connecting block is different from the header at the same height in cache''))
           | None \<Rightarrow> connectNewBlock r event)) s1))"
    using s1(1) cache.oldest_None [OF g(1)] cache.oldest_Some [OF g(1)]
    by (cases "First c") (auto simp: andThen_simps(1) [where m = "readCache f" for f] readCache_def)
qed

text \<open>A disconnected block leaves a reorg the cache reaches.\<close>

lemma handleDisconnectedBlocks_reached:
  assumes good: "cache_good (headerFuns r) hgt c" and c: "btcCache s = Some c"
    and run: "handleDisconnectedBlocks r event s = (Ok (), s')" and c': "btcCache s' = Some c'"
  shows "reorg_reached c' (reorgList s')"
proof (cases "blocks c' = []")
  case False
  note g = cache_goodD [OF good]
  have ne: "blocks c \<noteq> []" and s': "c' = c\<lparr>blocks := butlast (blocks c)\<rparr>"
    "getLastRemovedBlock (reorgList s') = Some \<lparr>rb_height = uint64_of_int32 (Height (last (blocks c))),
       rb_header = Header (last (blocks c))\<rparr>"
    using run c' disconnected_cases [OF g(1) c, of r event] by (auto split: if_splits)
  then obtain pre x where x: "blocks c = pre @ [x]" by (metis append_butlast_last_id)
  then have pre: "pre \<noteq> []" using False s'(1) by simp
  then have "linked (hashOf r) (last pre) x" using g(2) x by (simp add: chain_append_iff)
  moreover have "ht (hd pre) \<le> ht (last pre)"
    using g(2) x pre by (intro chain_hd_le [of "hashOf r"]) (simp_all add: chain_append_iff)
  ultimately show ?thesis
    using s' x pre cache_wfD(3) [OF g(1)] by (simp add: reorg_reached_def linked_def Let_def)
qed (simp add: reorg_reached_def)

end
