(* ===== verification/Bootstrap.thy ===== *)
theory Bootstrap
  imports No_Panic
begin

text \<open>
  The bootstrap of the reporter (\<^verbatim>\<open>reporter/bootstrapping.go\<close>): waiting for the Bitcoin node,
  filling the cache, checking that Lorenzo's confirmed chain is Bitcoin's, submitting what
  Lorenzo lacks and trimming the cache. The retries around it are retry-go's \<^verbatim>\<open>retry.Do\<close>, a
  parameter. \<^verbatim>\<open>logger.Fatalf\<close> ends the process with status 1.
\<close>

section \<open>Waiting for the Bitcoin node\<close>

text \<open>The loop on the ticker; it may run forever, so the function is partial.\<close>

partial_function (option) syncLoop ::
  "'w reporter \<Rightarrow> 'w reporter_state \<Rightarrow> (unit outcome \<times> 'w reporter_state) option" where
  "syncLoop r s =
     (case call (GetBestBlock (btcClient r)) s of
        (Ok best, s1) \<Rightarrow>
          (case call (BTCHeaderChainTip (lorenzoClient r)) s1 of
             (Ok tip, s2) \<Rightarrow>
               if snd best > 0 \<and> snd best \<ge> lrz_Height tip then Some (Ok (), s2)
               else syncLoop r s2
           | (e, s2) \<Rightarrow> Some (reraise e, s2))
      | (e, s1) \<Rightarrow> Some (reraise e, s1))"

definition waitUntilBTCSync :: "'w reporter \<Rightarrow> ('w reporter_state, unit) action" where
  "waitUntilBTCSync r =
     andThen (call (GetBestBlock (btcClient r))) (\<lambda>(btcLatestBlockHash, btcLatestBlockHeight).
     andThen (call (BTCHeaderChainTip (lorenzoClient r))) (\<lambda>tipRes.
     if btcLatestBlockHeight = 0 \<or> btcLatestBlockHeight < lrz_Height tipRes
     then (\<lambda>s. case syncLoop r s of Some res \<Rightarrow> res | None \<Rightarrow> (Hang, s))
     else lift (Ok ())))"

section \<open>Filling the cache\<close>

definition cacheBaseHeight :: "'w reporter \<Rightarrow> u64 \<Rightarrow> u64 \<Rightarrow> u64" where
  "cacheBaseHeight r lorenzoLatestBlockHeight lorenzoBaseHeight =
     (if lorenzoLatestBlockHeight
           > lorenzoBaseHeight + btcConfirmationDepth r + checkpointFinalizationTimeout r
      then lorenzoLatestBlockHeight - btcConfirmationDepth r - checkpointFinalizationTimeout r + 1
      else lorenzoBaseHeight)"

definition newCache :: "'w reporter \<Rightarrow> ('w reporter_state, unit) action" where
  "newCache r s = (case NewBTCCache (cfg_BTCCacheSize r) of
     Ok c \<Rightarrow> (Ok (), s\<lparr>btcCache := Some c\<rparr>)
   | Err e \<Rightarrow> (Panic (PanicErr e), s\<lparr>btcCache := None\<rparr>)
   | e \<Rightarrow> (reraise e, s))"

definition initBTCCache :: "'w reporter \<Rightarrow> ('w reporter_state, unit) action" where
  "initBTCCache r =
     andThen (newCache r) (\<lambda>_.
     andThen (call (BTCHeaderChainTip (lorenzoClient r))) (\<lambda>tipRes.
     andThen (call (BTCBaseHeader (lorenzoClient r))) (\<lambda>baseRes.
     andThen (orPanic (call (FindTailBlocksByHeight (btcClient r)
       (cacheBaseHeight r (lrz_Height tipRes) (lrz_Height baseRes))))) (\<lambda>ibs.
     orPanic (onCache (Init ibs))))))"

section \<open>The consistency check\<close>

record consistencyCheckInfo =
  lorenzoLatestBlockHeight :: u64
  startSyncHeight :: u64

definition checkHeaderConsistency :: "'w reporter \<Rightarrow> u64 \<Rightarrow> ('w reporter_state, unit) action" where
  "checkHeaderConsistency r consistencyCheckHeight =
     andThen (readCache (FindBlock consistencyCheckHeight)) (\<lambda>consistencyCheckBlock.
     case consistencyCheckBlock of
       None \<Rightarrow> lift (Panic (PanicErr (ErrMessage
         ''cannot find the block of Lorenzo header chain in BTC cache for initial consistency check'')))
     | Some b \<Rightarrow>
         andThen (call (ContainsBTCBlock (lorenzoClient r) (BlockHash (hashOf r) b))) (\<lambda>contains.
         if contains then lift (Ok ())
         else lift (Panic (PanicErr (ErrMessage
           ''BTC main chain is inconsistent with Lorenzo header chain'')))))"

definition consistencyCheckHeight :: "'w reporter \<Rightarrow> u64 \<Rightarrow> u64 \<Rightarrow> u64" where
  "consistencyCheckHeight r tipHeight baseHeight =
     (if tipHeight \<ge> baseHeight + btcConfirmationDepth r
      then tipHeight - btcConfirmationDepth r else baseHeight)"

definition checkConsistency :: "'w reporter \<Rightarrow> ('w reporter_state, consistencyCheckInfo) action" where
  "checkConsistency r =
     andThen (call (BTCHeaderChainTip (lorenzoClient r))) (\<lambda>tipRes.
     andThen (call (BTCBaseHeader (lorenzoClient r))) (\<lambda>baseRes.
     let h = consistencyCheckHeight r (lrz_Height tipRes) (lrz_Height baseRes) in
     andThen (checkHeaderConsistency r h) (\<lambda>_.
     lift (Ok \<lparr>lorenzoLatestBlockHeight = lrz_Height tipRes, startSyncHeight = h + 1\<rparr>))))"

section \<open>Bootstrap\<close>

text \<open>
  \<^verbatim>\<open>ibs[:len(ibs)-int(r.delayBlocks)]\<close>. A \<^verbatim>\<open>delayBlocks\<close> of 2^63 or more, negative as an
  \<^verbatim>\<open>int\<close>, makes the bound pass the end of the list; it is counted among the panics (the nil
  slots past the end would be dereferenced).
\<close>

definition dropDelayed :: "u64 \<Rightarrow> indexed_block list \<Rightarrow> indexed_block list outcome" where
  "dropDelayed delay ibs =
     (let n = int (length ibs) - int_of_uint64 delay in
      if n < 0 \<or> int (length ibs) < n then Panic SliceOutOfRange else Ok (take (nat n) ibs))"

definition resizeAndTrim :: "'w reporter \<Rightarrow> ('w reporter_state, unit) action" where
  "resizeAndTrim r =
     andThen (orPanic (onCache (Resize (btcConfirmationDepth r + checkpointFinalizationTimeout r)))) (\<lambda>_.
     onCache Trim)"

definition syncHeaders :: "'w reporter \<Rightarrow> ('w reporter_state, unit) action" where
  "syncHeaders r =
     andThen (checkConsistency r) (\<lambda>consistencyInfo.
     andThen (orPanic (readCache (GetLastBlocks (startSyncHeight consistencyInfo)))) (\<lambda>ibs.
     andThen (call (MustGetAddr (lorenzoClient r))) (\<lambda>signer.
     andThen (lift (dropDelayed (delayBlocks r) ibs)) (\<lambda>ibs'.
     andThen (ProcessHeaders r signer ibs') (\<lambda>_. lift (Ok ()))))))"

definition bootstrap :: "'w reporter \<Rightarrow> bool \<Rightarrow> ('w reporter_state, unit) action" where
  "bootstrap r skipBlockSubscription s =
     andThen (waitUntilBTCSync r) (\<lambda>_.
     andThen (initBTCCache r) (\<lambda>_.
     andThen (if \<not> skipBlockSubscription then call (MustSubscribeBlocks (btcClient r)) else lift (Ok ())) (\<lambda>_.
     andThen (syncHeaders r) (\<lambda>_.
     resizeAndTrim r)))) (s\<lparr>reorgList := clear (reorgList s)\<rparr>)"

text \<open>\<^verbatim>\<open>errors.Is(err, context.Canceled)\<close>.\<close>

fun isCanceled :: "go_error \<Rightarrow> bool" where
  "isCanceled (ErrExternal m) = (m = ''context canceled'')"
| "isCanceled (ErrWrapped m e) = isCanceled e"
| "isCanceled _ = False"

type_synonym 'w boot_retry = "('w reporter_state, unit) action \<Rightarrow> ('w reporter_state, unit) action"

definition bootstrapWithRetries ::
  "'w boot_retry \<Rightarrow> 'w reporter \<Rightarrow> bool \<Rightarrow> ('w reporter_state, unit) action" where
  "bootstrapWithRetries retry r skipBlockSubscription s =
     (case retry (bootstrap r skipBlockSubscription) s of
        (Err e, s') \<Rightarrow>
          if isCanceled e then (Ok (), s')
          else (Panic (LogFatal (ErrWrapped ''Failed to bootstrap reporter'' e)), s')
      | res \<Rightarrow> res)"

section \<open>Bootstrap keeps the invariant\<close>

text \<open>What both queries of the loop keep, the loop keeps.\<close>

lemma syncLoop_keeps:
  assumes best: "\<And>s. g (snd (call (GetBestBlock (btcClient r)) s)) = g s"
    and tip: "\<And>s. g (snd (call (BTCHeaderChainTip (lorenzoClient r)) s)) = g s"
    and run: "syncLoop r s = Some (out, s')"
  shows "g s' = g s"
proof -
  have "r' = r \<longrightarrow> g (snd res) = g s" if "syncLoop r' s = Some res" for r' s res
  proof (rule syncLoop.raw_induct [where P = "\<lambda>r' s res. r' = r \<longrightarrow> g (snd res) = g s", OF _ that])
    fix f :: "'a reporter \<Rightarrow> 'a reporter_state \<Rightarrow> (unit outcome \<times> 'a reporter_state) option" and r' s res
    assume IH: "\<And>r' s res. f r' s = Some res \<Longrightarrow> r' = r \<longrightarrow> g (snd res) = g s"
      and eq: "(case call (GetBestBlock (btcClient r')) s of
        (Ok best, s1) \<Rightarrow>
          (case call (BTCHeaderChainTip (lorenzoClient r')) s1 of
             (Ok tip, s2) \<Rightarrow>
               if snd best > 0 \<and> snd best \<ge> lrz_Height tip then Some (Ok (), s2) else f r' s2
           | (e, s2) \<Rightarrow> Some (reraise e, s2))
      | (e, s1) \<Rightarrow> Some (reraise e, s1)) = Some res"
    show "r' = r \<longrightarrow> g (snd res) = g s"
    proof
      assume r': "r' = r"
      obtain o1 s1 where c1: "call (GetBestBlock (btcClient r)) s = (o1, s1)" by (metis surj_pair)
      obtain o2 s2 where c2: "call (BTCHeaderChainTip (lorenzoClient r)) s1 = (o2, s2)" by (metis surj_pair)
      have "g s1 = g s" "g s2 = g s1"
        using best [of s] tip [of s1] unfolding c1 c2 by simp_all
      then show "g (snd res) = g s"
        using eq IH [of r s2 res] r' unfolding r' c1
        by (cases o1; cases o2) (auto simp: c2 split: if_splits)
    qed
  qed
  from this [OF run] show ?thesis by simp
qed

lemma core_syncLoop: "syncLoop r s = Some (out, s') \<Longrightarrow> core s' = core s"
  by (rule syncLoop_keeps) simp_all

lemma core_waitUntilBTCSync [simp]: "core (snd (waitUntilBTCSync r s)) = core s"
proof -
  have "core (snd (case syncLoop r s of Some res \<Rightarrow> res | None \<Rightarrow> (Hang, s))) = core s" for s
    by (auto split: option.split dest: core_syncLoop)
  then show ?thesis
    unfolding waitUntilBTCSync_def split_def by (intro core_andThen) auto
qed

lemma newCache_inv:
  "reporter_inv r hgt s \<Longrightarrow> reporter_inv r hgt (snd (newCache r s))"
  by (auto simp: newCache_def reporter_inv_def cache_good_def split: outcome.splits dest: NewBTCCache_wf)

lemma newCache_Ok:
  "newCache r s = (Ok u, s') \<longleftrightarrow>
     (\<exists>c. NewBTCCache (cfg_BTCCacheSize r) = Ok c \<and> s' = s\<lparr>btcCache := Some c\<rparr>)"
  by (cases u) (auto simp: newCache_def split: outcome.splits elim: reraise.elims)

lemma Init_good:
  assumes "cache_wf c" and "blocks c = []" and "Init ibs c = Ok c'"
    and "chain (hf_BlockHash hf) ibs" and "\<forall>b \<in> set ibs. on_node hf hgt b"
  shows "cache_good hf hgt c'"
  using assms Init_Ok_iff [OF assms(1,2)] by (auto simp: cache_good_def cache_wf_def)

lemma initBTCCache_inv:
  assumes law: "client_lawful (headerFuns r) hgt (btcClient r)" and inv: "reporter_inv r hgt s"
  shows "reporter_inv r hgt (snd (initBTCCache r s))"
  unfolding initBTCCache_def
proof (rule andThen_inv, rule newCache_inv [OF inv], goal_cases)
  case (1 u s1)
  then obtain c where c: "NewBTCCache (cfg_BTCCacheSize r) = Ok c" "btcCache s1 = Some c"
    by (auto simp: newCache_Ok)
  define M where "M s \<longleftrightarrow> reporter_inv r hgt s \<and> btcCache s = Some c" for s :: "'a reporter_state"
  have MP: "\<And>t. M t \<Longrightarrow> reporter_inv r hgt t" by (simp add: M_def)
  have call: "M (snd (call m s))" if "M s" for m :: "('a, 'x) action" and s
    using that core_eqD [OF core_call [of m s]] reporter_inv_core [OF core_call [of m s]]
    by (simp add: M_def)
  have init: "reporter_inv r hgt (snd (orPanic (onCache (Init ibs)) s))"
    if p: "M s" and bs: "FindTailBlocksByHeight (btcClient r) h w = (Ok ibs, w')" for s ibs h w w'
    unfolding snd_orPanic
  proof (rule onCache_inv)
    fix d d' assume "btcCache s = Some d" and "Init ibs d = Ok d'"
    then show "cache_good (headerFuns r) hgt d'"
      using p NewBTCCache_wf [OF c(1)] held_source.findTail [OF law bs] Init_good [of c ibs d']
      by (simp add: M_def)
  qed (use p in \<open>simp add: M_def\<close>)
  have tail: "reporter_inv r hgt (snd (andThen (orPanic (call (FindTailBlocksByHeight (btcClient r) h)))
      (\<lambda>ibs. orPanic (onCache (Init ibs))) s))" if p: "M s" for s h
    by (rule andThen_via [where M = M and P = "reporter_inv r hgt"])
      (use call [OF p] MP init in \<open>auto simp: orPanic_Ok_iff dest!: call_OkD\<close>)
  have base: "reporter_inv r hgt (snd (andThen (call (BTCBaseHeader (lorenzoClient r))) (\<lambda>baseRes.
      andThen (orPanic (call (FindTailBlocksByHeight (btcClient r) (cacheBaseHeight r t (lrz_Height baseRes)))))
      (\<lambda>ibs. orPanic (onCache (Init ibs)))) s))" if p: "M s" for s t
    by (rule andThen_via [where M = M and P = "reporter_inv r hgt"]) (simp_all add: call [OF p] MP tail)
  have "M s1" using 1 c by (simp add: M_def)
  from call [OF this] show ?case
    by (intro andThen_via [where M = M and P = "reporter_inv r hgt"] MP base) assumption+
qed

lemma core_checkConsistency [simp]: "core (snd (checkConsistency r s)) = core s"
proof -
  have "core (snd (checkHeaderConsistency r h s)) = core s" for h s
    unfolding checkHeaderConsistency_def
    by (rule core_andThen) (auto split: option.split simp: core_andThen)
  then show ?thesis
    unfolding checkConsistency_def Let_def by (intro core_andThen) simp_all
qed

lemma core_syncHeaders [simp]: "core (snd (syncHeaders r s)) = core s"
  unfolding syncHeaders_def by (intro core_andThen) simp_all

lemma trim_good:
  assumes good: "cache_good hf hgt c" and m: "0 < unat m" "unat m < 2 ^ 63"
  shows "Trim (c\<lparr>maxEntries := m\<rparr>) = Ok (c\<lparr>maxEntries := m,
      blocks := drop (length (blocks c) - unat m) (blocks c)\<rparr>)"
    and "cache_good hf hgt (c\<lparr>maxEntries := m, blocks := drop (length (blocks c) - unat m) (blocks c)\<rparr>)"
proof -
  note g = cache_goodD [OF good]
  show "Trim (c\<lparr>maxEntries := m\<rparr>) = Ok (c\<lparr>maxEntries := m,
      blocks := drop (length (blocks c) - unat m) (blocks c)\<rparr>)"
    using Trim_Ok [of "c\<lparr>maxEntries := m\<rparr>"] cache_wfD(4) [OF g(1)] m by simp
  show "cache_good hf hgt (c\<lparr>maxEntries := m, blocks := drop (length (blocks c) - unat m) (blocks c)\<rparr>)"
    using g m by (auto simp: cache_good_def cache_wf_def chain_drop dest: in_set_dropD)
qed

text \<open>The depths the reporter trims to: not 0 and not negative as a length.\<close>

definition depths_ok :: "'w reporter \<Rightarrow> bool" where
  "depths_ok r \<longleftrightarrow> 0 < unat (btcConfirmationDepth r + checkpointFinalizationTimeout r)
     \<and> unat (btcConfirmationDepth r + checkpointFinalizationTimeout r) < 2 ^ 63"

lemma resizeAndTrim_result:
  assumes d: "depths_ok r" and inv: "reporter_inv r hgt s"
  defines "m \<equiv> btcConfirmationDepth r + checkpointFinalizationTimeout r"
  shows "resizeAndTrim r s = (case btcCache s of
      None \<Rightarrow> (Panic NilDereference, s)
    | Some c \<Rightarrow> (Ok (), s\<lparr>btcCache := Some (c\<lparr>maxEntries := m,
        blocks := drop (length (blocks c) - unat m) (blocks c)\<rparr>)\<rparr>))"
proof (cases "btcCache s")
  case None
  then show ?thesis by (simp add: resizeAndTrim_def andThen_def orPanic_def onCache_def)
next
  case (Some c)
  have m: "0 < unat m" "unat m < 2 ^ 63" using d by (simp_all add: depths_ok_def m_def)
  have "cache_good (headerFuns r) hgt c" using inv Some by (simp add: reporter_inv_def)
  note trim = trim_good(1) [OF this m]
  have "Resize m c = Ok (c\<lparr>maxEntries := m\<rparr>)" using m(1) by (simp add: Resize_def unat_gt_0)
  then show ?thesis
    using Some trim by (simp add: resizeAndTrim_def andThen_def orPanic_def onCache_def flip: m_def)
qed

lemma resizeAndTrim_inv:
  assumes d: "depths_ok r" and inv: "reporter_inv r hgt s"
  shows "reporter_inv r hgt (snd (resizeAndTrim r s))"
proof (cases "btcCache s")
  case (Some c)
  have "cache_good (headerFuns r) hgt c" using inv Some by (simp add: reporter_inv_def)
  from trim_good(2) [OF this] d have "cache_good (headerFuns r) hgt (c\<lparr>maxEntries :=
      btcConfirmationDepth r + checkpointFinalizationTimeout r, blocks := drop (length (blocks c)
      - unat (btcConfirmationDepth r + checkpointFinalizationTimeout r)) (blocks c)\<rparr>)"
    by (simp add: depths_ok_def)
  then show ?thesis using inv Some by (simp add: resizeAndTrim_result [OF d inv] reporter_inv_def)
qed (use inv in \<open>simp add: resizeAndTrim_result [OF d inv]\<close>)

lemma bootstrap_inv:
  assumes law: "client_lawful (headerFuns r) hgt (btcClient r)" and d: "depths_ok r"
    and inv: "reporter_inv r hgt s"
  shows "reporter_inv r hgt (snd (bootstrap r skip s))"
proof -
  let ?P = "reporter_inv r hgt"
  have start: "?P (snd (waitUntilBTCSync r (s\<lparr>reorgList := clear (reorgList s)\<rparr>)))"
    using inv by (simp add: reporter_inv_core [OF core_waitUntilBTCSync], simp add: reporter_inv_def)
  have sub: "?P (snd ((if \<not> skip then call (MustSubscribeBlocks (btcClient r)) else lift (Ok ())) t))"
    if "?P t" for t
    using that by (simp add: reporter_inv_core [OF core_call])
  have sync: "?P (snd (andThen (syncHeaders r) (\<lambda>_. resizeAndTrim r) t))" if "?P t" for t
    using that resizeAndTrim_inv [OF d]
    by (intro andThen_inv [where P = ?P]) (simp_all add: reporter_inv_core [OF core_syncHeaders])
  have mid: "?P (snd (andThen (if \<not> skip then call (MustSubscribeBlocks (btcClient r)) else lift (Ok ()))
      (\<lambda>_. andThen (syncHeaders r) (\<lambda>_. resizeAndTrim r)) t))" if "?P t" for t
    by (rule andThen_inv [where P = ?P]) (rule sub [OF that], rule sync)
  have fill: "?P (snd (andThen (initBTCCache r) (\<lambda>_.
      andThen (if \<not> skip then call (MustSubscribeBlocks (btcClient r)) else lift (Ok ())) (\<lambda>_.
      andThen (syncHeaders r) (\<lambda>_. resizeAndTrim r))) t))" if "?P t" for t
    by (rule andThen_inv [where P = ?P]) (rule initBTCCache_inv [OF law that], rule mid)
  show ?thesis
    unfolding bootstrap_def by (rule andThen_inv [where P = ?P]) (rule start, rule fill)
qed

text \<open>
  The documented behaviour of retry-go's \<^verbatim>\<open>retry.Do\<close> with a context: it calls the function
  until a call returns no error or the attempts are used up, and returns the last error; once
  the context is cancelled it may return the context's error instead.
\<close>

definition boot_retry_lawful :: "'w boot_retry \<Rightarrow> bool" where
  "boot_retry_lawful R \<longleftrightarrow> (\<forall>f s. \<exists>t. attempts f s t \<and>
     (R f s = f t \<or> R f s = (Err (ErrExternal ''context canceled''), t)))"

lemma boot_retry_inv:
  assumes law: "boot_retry_lawful R" and "P s" and keep: "\<And>s. P s \<Longrightarrow> P (snd (f s))"
  shows "P (snd (R f s))"
proof -
  obtain t where t: "attempts f s t" "R f s = f t \<or> R f s = (Err (ErrExternal ''context canceled''), t)"
    using law unfolding boot_retry_lawful_def by blast
  have "P t"
    using t(1) \<open>P s\<close>
  proof (rule attempts_inv)
    fix s e t' assume "P s" and "f s = (Err e, t')"
    then show "P t'" using keep [of s] by simp
  qed
  then show ?thesis using t(2) keep [of t] by auto
qed

lemma snd_bootstrapWithRetries:
  "snd (bootstrapWithRetries R r skip s) = snd (R (bootstrap r skip) s)"
  by (simp add: bootstrapWithRetries_def split: prod.split outcome.split)

lemma bootstrapWithRetries_inv:
  assumes "boot_retry_lawful R" and "client_lawful (headerFuns r) hgt (btcClient r)"
    and "depths_ok r" and "reporter_inv r hgt s"
  shows "reporter_inv r hgt (snd (bootstrapWithRetries R r skip s))"
  unfolding snd_bootstrapWithRetries
  by (rule boot_retry_inv [where P = "reporter_inv r hgt", OF assms(1,4)])
    (rule bootstrap_inv [OF assms(2,3)])

section \<open>What a bootstrap that returns has done\<close>

text \<open>
  \<open>bootstrapped r s\<close>: the cache is the chain of the latest \<open>k + w\<close> blocks, not empty, and
  there is no reorganisation under way.
\<close>

text \<open>
  \<open>confirmed r b w w'\<close>: from \<open>w\<close> to \<open>w'\<close> Lorenzo answers for its tip and its base, and that it has the
  block \<open>b\<close>, which is at the height of the tip less the confirmation depth, or of the base when that is
  not so deep.
\<close>

definition confirmed :: "'w reporter \<Rightarrow> indexed_block \<Rightarrow> 'w \<Rightarrow> 'w \<Rightarrow> bool" where
  "confirmed r b w w' \<longleftrightarrow> (\<exists>tip w1 base w2.
     BTCHeaderChainTip (lorenzoClient r) w = (Ok tip, w1)
     \<and> BTCBaseHeader (lorenzoClient r) w1 = (Ok base, w2)
     \<and> ContainsBTCBlock (lorenzoClient r) (BlockHash (hashOf r) b) w2 = (Ok True, w')
     \<and> Height b = int32_of_uint64
         (if lrz_Height base + btcConfirmationDepth r \<le> lrz_Height tip
          then lrz_Height tip - btcConfirmationDepth r else lrz_Height base))"

lemma checkConsistency_Ok:
  assumes "checkConsistency r s = (Ok info, s')" and inv: "reporter_inv r hgt s"
    and c: "btcCache s = Some c"
  shows "\<exists>b \<in> set (blocks c). Height b = int32_of_uint64 (startSyncHeight info - 1)
    \<and> confirmed r b (outside s) (outside s')"
proof -
  have good: "cache_wf c" using inv c by (simp add: reporter_inv_def cache_good_def)
  from assms(1) obtain tip s0 base s1 where
    t: "call (BTCHeaderChainTip (lorenzoClient r)) s = (Ok tip, s0)"
    and q: "call (BTCBaseHeader (lorenzoClient r)) s0 = (Ok base, s1)"
    and rest: "andThen (checkHeaderConsistency r (consistencyCheckHeight r (lrz_Height tip) (lrz_Height base)))
      (\<lambda>_. lift (Ok \<lparr>lorenzoLatestBlockHeight = lrz_Height tip, startSyncHeight =
        consistencyCheckHeight r (lrz_Height tip) (lrz_Height base) + 1\<rparr>)) s1 = (Ok info, s')"
    unfolding checkConsistency_def Let_def by (blast elim: andThen_OkE)
  let ?h = "consistencyCheckHeight r (lrz_Height tip) (lrz_Height base)"
  obtain u where run: "checkHeaderConsistency r ?h s1 = (Ok u, s')" and h: "startSyncHeight info - 1 = ?h"
    using rest by (auto simp: andThen_Ok_iff)
  have "core s1 = core s"
    using core_call [of "BTCHeaderChainTip (lorenzoClient r)" s]
      core_call [of "BTCBaseHeader (lorenzoClient r)" s0] t q by simp
  then have c1: "btcCache s1 = Some c" using c by (simp add: core_def)
  from run obtain b where b: "FindBlock ?h c = Ok (Some b)"
    and ask: "call (ContainsBTCBlock (lorenzoClient r) (BlockHash (hashOf r) b)) s1 = (Ok True, s')"
    unfolding checkHeaderConsistency_def
    by (auto simp: andThen_Ok_iff readCache_Ok_iff c1 split: option.splits if_splits)
  have in_b: "b \<in> set (blocks c)" and hb: "Height b = int32_of_uint64 ?h"
    using FindBlock_Ok_Some [OF b cache_wfD(4) [OF good]] by auto
  have "confirmed r b (outside s) (outside s')"
    using t q ask hb by (auto simp: confirmed_def consistencyCheckHeight_def dest!: call_OkD)
  then show ?thesis using in_b hb h by auto
qed

lemma syncHeaders_Ok:
  assumes run: "syncHeaders r s = (Ok u, s')" and inv: "reporter_inv r hgt s"
    and c: "btcCache s = Some c"
    and keep: "\<And>s. g (snd (checkConsistency r s)) = g s"
      "\<And>s. g (snd (call (MustGetAddr (lorenzoClient r)) s)) = g s"
  shows "\<exists>b pre ibs rest w signer s1 n. blocks c = pre @ ibs @ rest \<and> ibs \<noteq> []
    \<and> b \<in> set (blocks c) \<and> Height (hd ibs) = Height b + 1
    \<and> confirmed r b (outside s) w \<and> MustGetAddr (lorenzoClient r) w = (Ok signer, outside s1)
    \<and> int (length rest) = int_of_uint64 (delayBlocks r)
    \<and> ProcessHeaders r signer ibs s1 = (Ok n, s') \<and> g s1 = g s"
proof -
  from run obtain info s1 tail s2 signer s4 ibs n where
    info: "checkConsistency r s = (Ok info, s1)"
    and tail: "orPanic (readCache (GetLastBlocks (startSyncHeight info))) s1 = (Ok tail, s2)"
    and addr: "call (MustGetAddr (lorenzoClient r)) s2 = (Ok signer, s4)"
    and drop: "dropDelayed (delayBlocks r) tail = Ok ibs"
    and proc: "ProcessHeaders r signer ibs s4 = (Ok n, s')"
    unfolding syncHeaders_def by (auto elim!: andThen_OkE)
  have s2: "s2 = s1" using tail by (auto simp: orPanic_Ok_iff readCache_Ok_iff)
  then have g: "g s4 = g s" using keep(1) [of s] keep(2) [of s2] info addr by simp
  have s1: "btcCache s1 = Some c"
    using core_checkConsistency [of r s] c by (simp add: info core_def)
  obtain b where b: "b \<in> set (blocks c)" "Height b = int32_of_uint64 (startSyncHeight info - 1)"
    "confirmed r b (outside s) (outside s1)"
    using checkConsistency_Ok [OF info inv c] by blast
  have asked: "MustGetAddr (lorenzoClient r) (outside s1) = (Ok signer, outside s4)"
    using addr s2 by (auto dest!: call_OkD)
  have last: "GetLastBlocks (startSyncHeight info) c = Ok tail"
    using tail s1 by (auto simp: orPanic_Ok_iff readCache_Ok_iff)
  have ch: "chain (hashOf r) (blocks c)" using inv c by (simp add: reporter_inv_def cache_good_def)
  have "blocks c \<noteq> []" using b(1) by auto
  from GetLastBlocks_chain [OF ch this, of "startSyncHeight info"] last
  obtain pre x post where pre: "blocks c = pre @ tail" "tail = x # post"
    "Height x = int32_of_uint64 (startSyncHeight info)" by auto
  have ne: "ibs \<noteq> []"
    using proc by (auto simp: ProcessHeaders_def split: prod.splits outcome.splits)
  let ?n = "int (length tail) - int_of_uint64 (delayBlocks r)"
  have n: "0 \<le> ?n" "?n \<le> int (length tail)" "ibs = take (nat ?n) tail"
    using drop by (auto simp: dropDelayed_def Let_def split: if_splits)
  have "Height (hd ibs) = Height b + 1"
    using ne n(3) pre(2,3) b(2) ucast_i32_pred [of "startSyncHeight info"]
    by (cases "nat ?n") simp_all
  moreover have "blocks c = pre @ ibs @ drop (nat ?n) tail" using pre(1) n(3) by simp
  moreover have "int (length (drop (nat ?n) tail)) = int_of_uint64 (delayBlocks r)"
    using n by (simp add: of_nat_diff nat_le_iff)
  ultimately show ?thesis using ne b(1,3) asked proc g by blast
qed

lemma andThen_unit_OkE:
  assumes "andThen m (\<lambda>_. f) s = (Ok y, t)"
  obtains x s' where "m s = (Ok x, s')" and "f s' = (Ok y, t)"
  using assms by (auto simp: andThen_Ok_iff)

text \<open>The chain of calls of a bootstrap that returned no error.\<close>

lemma bootstrap_OkE_keeps:
  assumes run: "bootstrap r skip s = (Ok u, s')" and law: "client_lawful (headerFuns r) hgt (btcClient r)"
    and inv: "reporter_inv r hgt s"
    and keep: "\<And>s. g (snd (waitUntilBTCSync r s)) = g s" "\<And>s. g (snd (initBTCCache r s)) = g s"
      "\<And>s. g (snd (call (MustSubscribeBlocks (btcClient r)) s)) = g s"
      "\<And>s rl. g (s\<lparr>reorgList := rl\<rparr>) = g s"
  obtains s1 u1 s2 u2 where "reporter_inv r hgt s1" and "reorgList s1 = clear (reorgList s)"
    and "syncHeaders r s1 = (Ok u1, s2)" and "resizeAndTrim r s2 = (Ok u2, s')"
    and "g s1 = g s"
proof -
  let ?s = "s\<lparr>reorgList := clear (reorgList s)\<rparr>"
  from run obtain u0 t0 u1 t1 u2 t2 u3 t3 where
    w: "waitUntilBTCSync r ?s = (Ok u0, t0)" and i: "initBTCCache r t0 = (Ok u1, t1)"
    and sub: "(if \<not> skip then call (MustSubscribeBlocks (btcClient r)) else lift (Ok ())) t1 = (Ok u2, t2)"
    and sy: "syncHeaders r t2 = (Ok u3, t3)" and tr: "resizeAndTrim r t3 = (Ok u, s')"
    unfolding bootstrap_def by (elim andThen_unit_OkE) blast
  have inv0: "reporter_inv r hgt ?s" using inv by (simp add: reporter_inv_def)
  have c0: "core t0 = core ?s" using core_waitUntilBTCSync [of r ?s] unfolding w by simp
  then have "reporter_inv r hgt t0" using inv0 reporter_inv_core by blast
  then have inv1: "reporter_inv r hgt t1" using initBTCCache_inv [OF law, of t0] by (simp add: i)
  have l1: "reorgList t1 = reorgList t0"
    using i by (auto simp: initBTCCache_def andThen_Ok_iff newCache_Ok orPanic_Ok_iff onCache_Ok_iff dest!: call_OkD)
  have "core t2 = core t1"
    using sub core_call [of "MustSubscribeBlocks (btcClient r)" t1] by (cases skip) simp_all
  then have "reporter_inv r hgt t2" and "reorgList t2 = clear (reorgList s)"
    using inv1 reporter_inv_core l1 c0 by (blast, simp add: core_def)
  moreover have "g t2 = g s"
    using keep(1) [of ?s] keep(2) [of t0] keep(3) [of t1] keep(4) w i sub
    by (cases skip) simp_all
  ultimately show thesis using that sy tr by blast
qed


lemma bootstrap_Ok:
  assumes run: "bootstrap r skip s = (Ok u, s')" and law: "client_lawful (headerFuns r) hgt (btcClient r)"
    and d: "depths_ok r" and inv: "reporter_inv r hgt s"
  shows "\<exists>c. btcCache s' = Some c \<and> cache_good (headerFuns r) hgt c \<and> blocks c \<noteq> []
    \<and> maxEntries c = btcConfirmationDepth r + checkpointFinalizationTimeout r
    \<and> reorg_size (reorgList s') = 0"
proof -
  obtain s1 u1 s2 u2 where s1: "reporter_inv r hgt s1" "reorgList s1 = clear (reorgList s)"
    and sy: "syncHeaders r s1 = (Ok u1, s2)" and tr: "resizeAndTrim r s2 = (Ok u2, s')"
    by (rule bootstrap_OkE_keeps [where g = "\<lambda>_. ()", OF run law inv]) (use that in auto)
  have c12: "core s2 = core s1" using core_syncHeaders [of r s1] by (simp add: sy)
  then have inv2: "reporter_inv r hgt s2" using s1(1) reporter_inv_core by blast
  let ?m = "btcConfirmationDepth r + checkpointFinalizationTimeout r"
  obtain c where c: "btcCache s2 = Some c" and s': "s' = s2\<lparr>btcCache := Some (c\<lparr>maxEntries := ?m,
      blocks := drop (length (blocks c) - unat ?m) (blocks c)\<rparr>)\<rparr>"
    using tr by (auto simp: resizeAndTrim_result [OF d inv2] split: option.splits)
  have "btcCache s1 = Some c" using c c12 by (simp add: core_def)
  from syncHeaders_Ok [where g = "\<lambda>_. ()", OF sy s1(1) this] have ne: "blocks c \<noteq> []" by auto
  have "cache_good (headerFuns r) hgt c" using inv2 c by (simp add: reporter_inv_def)
  from trim_good(2) [OF this] d have "cache_good (headerFuns r) hgt (c\<lparr>maxEntries := ?m,
      blocks := drop (length (blocks c) - unat ?m) (blocks c)\<rparr>)"
    by (simp add: depths_ok_def)
  moreover have "0 < unat ?m" using d by (simp add: depths_ok_def)
  then have "length (blocks c) - unat ?m < length (blocks c)"
    using ne by (simp add: diff_less)
  moreover have "reorgList s2 = clear (reorgList s)" using c12 s1(2) by (simp add: core_def)
  ultimately show ?thesis by (simp add: s' reorg_size_def)
qed

lemma ProcessHeaders_nil: "ProcessHeaders r signer [] s = (Panic IndexOutOfRange, s)"
  by (simp add: ProcessHeaders_def getHeaderMsgsToSubmit_def andThen_def wrapErr_def call_def)

text \<open>With too few blocks above the checked one, the bootstrap does not return.\<close>

lemma syncHeaders_short:
  assumes info: "checkConsistency r s = (Ok info, s1)" and c: "btcCache s = Some c"
    and addr: "MustGetAddr (lorenzoClient r) (outside s1) = (Ok signer, w)"
    and few: "\<And>tail. GetLastBlocks (startSyncHeight info) c = Ok tail
      \<Longrightarrow> int (length tail) \<le> int_of_uint64 (delayBlocks r)"
  shows "\<exists>p. fst (syncHeaders r s) = Panic p"
proof -
  have c1: "btcCache s1 = Some c"
    using core_checkConsistency [of r s] c by (simp add: info core_def)
  have get: "orPanic (readCache (GetLastBlocks (startSyncHeight info))) s1 =
    (case GetLastBlocks (startSyncHeight info) c of Err e \<Rightarrow> Panic (PanicErr e) | out \<Rightarrow> out, s1)"
    using c1 by (simp add: orPanic_def readCache_def split: outcome.split)
  show ?thesis
  proof (cases "GetLastBlocks (startSyncHeight info) c")
    case (Ok tail)
    have "fst (syncHeaders r s) = fst (andThen (lift (dropDelayed (delayBlocks r) tail))
        (\<lambda>ibs. andThen (ProcessHeaders r signer ibs) (\<lambda>_. lift (Ok ()))) (s1\<lparr>outside := w\<rparr>))"
      using get by (simp add: syncHeaders_def Ok andThen_simps(1) [where m = "checkConsistency r", OF info]
          andThen_simps(1) [where m = "orPanic (readCache (GetLastBlocks (startSyncHeight info)))"]
          andThen_simps(1) [where m = "call (MustGetAddr (lorenzoClient r))", OF call_Ok [where m = "MustGetAddr (lorenzoClient r)", OF addr]])
    moreover have "int (length tail) - int_of_uint64 (delayBlocks r) \<le> 0" using few [OF Ok] by simp
    ultimately show ?thesis
      by (cases "int (length tail) = int_of_uint64 (delayBlocks r)")
        (auto simp: dropDelayed_def Let_def andThen_def ProcessHeaders_nil)
  next
    case Hang
    then show ?thesis by (auto simp: GetLastBlocks_def split: if_splits)
  qed (use get info in \<open>simp_all add: syncHeaders_def andThen_def\<close>)
qed

text \<open>The wait ends with a Bitcoin chain that is not empty and not behind Lorenzo's.\<close>

lemma syncLoop_Ok:
  assumes "syncLoop r s = Some (Ok u, s')"
  shows "\<exists>w hash h w1 tip w2. GetBestBlock (btcClient r) w = (Ok (hash, h), w1)
    \<and> BTCHeaderChainTip (lorenzoClient r) w1 = (Ok tip, w2) \<and> 0 < h \<and> lrz_Height tip \<le> h"
proof -
  let ?Q = "\<lambda>r res. (\<exists>u. fst res = Ok u) \<longrightarrow> (\<exists>w hash h w1 tip w2.
    GetBestBlock (btcClient r) w = (Ok (hash, h), w1)
    \<and> BTCHeaderChainTip (lorenzoClient r) w1 = (Ok tip, w2) \<and> 0 < h \<and> lrz_Height tip \<le> h)"
  have "?Q r (Ok u, s')"
  proof (rule syncLoop.raw_induct [where P = "\<lambda>r s res. ?Q r res", OF _ assms])
    fix f :: "'a reporter \<Rightarrow> 'a reporter_state \<Rightarrow> (unit outcome \<times> 'a reporter_state) option" and r s res
    assume IH: "\<And>r s res. f r s = Some res \<Longrightarrow> ?Q r res"
      and eq: "(case call (GetBestBlock (btcClient r)) s of
        (Ok best, s1) \<Rightarrow>
          (case call (BTCHeaderChainTip (lorenzoClient r)) s1 of
             (Ok tip, s2) \<Rightarrow>
               if snd best > 0 \<and> snd best \<ge> lrz_Height tip then Some (Ok (), s2) else f r s2
           | (e, s2) \<Rightarrow> Some (reraise e, s2))
      | (e, s1) \<Rightarrow> Some (reraise e, s1)) = Some res"
    show "?Q r res"
    proof (intro impI)
      assume ok: "\<exists>u. fst res = Ok u"
      have no: "reraise e \<noteq> Ok v" for e :: "'b outcome" and v :: unit by (cases e) auto
      obtain o1 s1 where c1: "call (GetBestBlock (btcClient r)) s = (o1, s1)" by (metis surj_pair)
      obtain o2 s2 where c2: "call (BTCHeaderChainTip (lorenzoClient r)) s1 = (o2, s2)" by (metis surj_pair)
      obtain best where b: "o1 = Ok best"
        using ok eq no unfolding c1 by (cases o1) auto
      obtain tip where t: "o2 = Ok tip"
        using ok eq no unfolding c1 b by (cases o2) (auto simp: c2)
      have eq': "(if snd best > 0 \<and> snd best \<ge> lrz_Height tip then Some (Ok (), s2) else f r s2) = Some res"
        using eq unfolding c1 b by (simp add: c2 t)
      obtain w1 where "GetBestBlock (btcClient r) (outside s) = (Ok best, w1)" "s1 = s\<lparr>outside := w1\<rparr>"
        using c1 b by (blast dest: call_OkD)
      moreover from this obtain w2 where "BTCHeaderChainTip (lorenzoClient r) w1 = (Ok tip, w2)"
        using c2 t by (auto dest!: call_OkD)
      ultimately show "\<exists>w hash h w1 tip w2. GetBestBlock (btcClient r) w = (Ok (hash, h), w1)
          \<and> BTCHeaderChainTip (lorenzoClient r) w1 = (Ok tip, w2) \<and> 0 < h \<and> lrz_Height tip \<le> h"
        using eq' IH [of r s2 res] ok
        by (cases "snd best > 0 \<and> snd best \<ge> lrz_Height tip"; cases best) fastforce+
    qed
  qed
  then show ?thesis by simp
qed

section \<open>What a bootstrap submits\<close>

text \<open>A silent action makes Lorenzo accept nothing.\<close>

definition silent :: "(('w \<times> 'm list) reporter_state, 'a) action \<Rightarrow> bool" where
  "silent m \<longleftrightarrow> (\<forall>s. accepted (snd (m s)) = accepted s)"

named_theorems silence \<open>actions that make Lorenzo accept nothing\<close>

lemma silent_quiet: "quiet m \<Longrightarrow> silent m"
  by (simp add: quiet_def silent_def)

lemma silent_andThen [silence]:
  assumes "silent m" and "\<And>x. silent (f x)"
  shows "silent (andThen m f)"
  using assms by (auto simp: silent_def andThen_def split: prod.splits outcome.splits) (metis snd_conv)+

lemma silent_onCache [silence]: "silent (onCache f)"
  by (auto simp: silent_def onCache_def split: option.splits outcome.splits)

lemma silent_simple [silence]:
  "silent (lift x)" "silent (readCache f)" "silent (newCache r)"
  "silent m \<Longrightarrow> silent (orPanic m)" "silent m \<Longrightarrow> silent (wrapErr e m)"
  by (auto simp: silent_def newCache_def readCache_def split: outcome.splits option.splits)

lemma silent_calls:
  assumes "observed r"
  shows "silent (call (FindTailBlocksByHeight (btcClient r) k))"
    and "silent (call (GetBestBlock (btcClient r)))"
    and "silent (call (MustSubscribeBlocks (btcClient r)))"
    and "silent (call (BTCHeaderChainTip (lorenzoClient r)))"
    and "silent (call (BTCBaseHeader (lorenzoClient r)))"
    and "silent (call (MustGetAddr (lorenzoClient r)))"
    and "silent (call (ContainsBTCBlock (lorenzoClient r) h))"
  using quiet_btc [OF assms] quiet_lorenzo [OF assms] by (auto intro: silent_quiet)

lemma waitUntilBTCSync_silent:
  assumes obs: "observed r"
  shows "silent (waitUntilBTCSync r)"
proof -
  have "accepted s' = accepted s" if "syncLoop r s = Some (out, s')" for out and s s' :: "('a \<times> msg_insert_headers list) reporter_state"
    by (rule syncLoop_keeps [where g = accepted, OF _ _ that])
      (use silent_calls(2,4) [OF obs] in \<open>simp_all add: silent_def\<close>)
  then have "silent (\<lambda>s. case syncLoop r s of Some res \<Rightarrow> res | None \<Rightarrow> (Hang, s))"
    by (auto simp: silent_def split: option.split)
  then show ?thesis
    unfolding waitUntilBTCSync_def split_def
    by (auto intro!: silence silent_calls [OF obs])
qed

lemma initBTCCache_silent: "observed r \<Longrightarrow> silent (initBTCCache r)"
  unfolding initBTCCache_def by (auto intro!: silence silent_calls)

lemma checkConsistency_silent: "observed r \<Longrightarrow> silent (checkConsistency r)"
  unfolding checkConsistency_def checkHeaderConsistency_def Let_def
  by (auto intro!: silence silent_calls split: option.split)

lemma resizeAndTrim_silent: "silent (resizeAndTrim r)"
  unfolding resizeAndTrim_def by (auto intro!: silence)

text \<open>
  \<open>synced r hgt c s' sent\<close>: the last calls before \<open>s'\<close> confirmed a block of the cache \<open>c\<close>, asked for the
  address and processed to the end, submitting \<open>sent\<close>, the blocks from just above that one up to
  \<open>delayBlocks\<close> below the tip.
\<close>

definition synced ::
  "('w \<times> msg_insert_headers list) reporter \<Rightarrow> (hash \<Rightarrow> int) \<Rightarrow> btc_cache
    \<Rightarrow> ('w \<times> msg_insert_headers list) reporter_state \<Rightarrow> msg_insert_headers list \<Rightarrow> bool" where
  "synced r hgt c s' sent \<longleftrightarrow> cache_good (headerFuns r) hgt c \<and>
     (\<exists>b pre ibs rest w w1 signer t n t'. blocks c = pre @ ibs @ rest \<and> ibs \<noteq> []
        \<and> b \<in> set (blocks c) \<and> Height (hd ibs) = Height b + 1
        \<and> confirmed r b w w1 \<and> MustGetAddr (lorenzoClient r) w1 = (Ok signer, outside t)
        \<and> int (length rest) = int_of_uint64 (delayBlocks r)
        \<and> ProcessHeaders r signer ibs t = (Ok n, t') \<and> outside t' = outside s'
        \<and> submission r signer True ibs sent)"

lemma bootstrap_synced:
  assumes run: "bootstrap r skip s = (Ok u, s')" and obs: "observed r"
    and law: "client_lawful (headerFuns r) hgt (btcClient r)"
    and d: "depths_ok r" and inv: "reporter_inv r hgt s"
  shows "\<exists>c sent. synced r hgt c s' sent \<and> accepted s' = accepted s @ sent
    \<and> btcCache s' = Some (c\<lparr>maxEntries := btcConfirmationDepth r + checkpointFinalizationTimeout r,
        blocks := drop (length (blocks c) - unat (btcConfirmationDepth r + checkpointFinalizationTimeout r)) (blocks c)\<rparr>)
    \<and> reorgList s' = clear (reorgList s)"
proof -
  let ?m = "btcConfirmationDepth r + checkpointFinalizationTimeout r"
  have R: "retry_lawful (retryDo r)" using obs by (simp add: observed_def)
  obtain l where l: "lorenzoClient r = logging l" using obs by (auto simp: observed_def)
  obtain s1 u1 s2 u2 where s1: "reporter_inv r hgt s1" "reorgList s1 = clear (reorgList s)"
    "accepted s1 = accepted s"
    and sy: "syncHeaders r s1 = (Ok u1, s2)" and tr: "resizeAndTrim r s2 = (Ok u2, s')"
    by (rule bootstrap_OkE_keeps [where g = accepted, OF run law inv])
      (use that waitUntilBTCSync_silent [OF obs] initBTCCache_silent [OF obs] silent_calls(3) [OF obs]
        in \<open>auto simp: silent_def\<close>)
  have c12: "core s2 = core s1" using core_syncHeaders [of r s1] by (simp add: sy)
  then have inv2: "reporter_inv r hgt s2" using s1(1) reporter_inv_core by blast
  obtain c where c: "btcCache s2 = Some c" and s': "s' = s2\<lparr>btcCache := Some (c\<lparr>maxEntries := ?m,
      blocks := drop (length (blocks c) - unat ?m) (blocks c)\<rparr>)\<rparr>"
    using tr by (auto simp: resizeAndTrim_result [OF d inv2] split: option.splits)
  have c1: "btcCache s1 = Some c" using c c12 by (simp add: core_def)
  have good: "cache_good (headerFuns r) hgt c" using inv2 c by (simp add: reporter_inv_def)
  from syncHeaders_Ok [where g = accepted, OF sy s1(1) c1]
    checkConsistency_silent [OF obs] silent_calls(6) [OF obs]
  obtain b pre ibs rest w signer t n where sync: "blocks c = pre @ ibs @ rest" "ibs \<noteq> []"
    "b \<in> set (blocks c)" "Height (hd ibs) = Height b + 1"
    "confirmed r b (outside s1) w" "MustGetAddr (lorenzoClient r) w = (Ok signer, outside t)"
    "int (length rest) = int_of_uint64 (delayBlocks r)"
    "ProcessHeaders r signer ibs t = (Ok n, s2)" "accepted t = accepted s1"
    unfolding silent_def by blast
  from ProcessHeaders_log [OF R l sync(8)] obtain sent where
    sent: "accepted s2 = accepted t @ sent" "submission r signer True ibs sent" by auto
  have "outside s2 = outside s'" by (simp add: s')
  then have "synced r hgt c s' sent" unfolding synced_def using good sync(1-8) sent(2) by blast
  moreover have "reorgList s' = clear (reorgList s)" using s1(2) c12 by (simp add: s' core_def)
  ultimately show ?thesis using sent(1) sync(9) s1(3) s' by (auto intro!: exI)
qed

end
