(* ===== verification/Event_Loop.thy ===== *)
theory Event_Loop
  imports Bootstrap
begin

text \<open>
  The event handler goroutine (\<^verbatim>\<open>blockEventHandler\<close> of \<^verbatim>\<open>reporter/block_handler.go\<close>) as a step
  relation, and the life cycle of the reporter (\<^verbatim>\<open>New\<close>, \<^verbatim>\<open>Start\<close>, \<^verbatim>\<open>Stop\<close> of
  \<^verbatim>\<open>reporter/reporter.go\<close>).

  A receive from the event channel gives an event, or no event once the channel is closed and
  drained. Whether the quit channel is closed is read from the outside world: \<open>quit w\<close> is the
  answer of the poll and the world after it. Sleeping is not modelled.
\<close>

section \<open>One event\<close>

text \<open>The loop that delays a block until it is mature: \<open>Ok False\<close> when asked to quit.\<close>

partial_function (option) matureLoop ::
  "('w \<Rightarrow> bool \<times> 'w) \<Rightarrow> 'w reporter \<Rightarrow> block_event option \<Rightarrow> 'w reporter_state
    \<Rightarrow> (bool outcome \<times> 'w reporter_state) option" where
  "matureLoop quit r event s =
     (if fst (quit (outside s)) then Some (Ok False, s\<lparr>outside := snd (quit (outside s))\<rparr>)
      else case call (GetBestBlock (btcClient r)) (s\<lparr>outside := snd (quit (outside s))\<rparr>) of
          (Ok best, s1) \<Rightarrow>
            (case event of
               None \<Rightarrow> Some (Panic NilDereference, s1)
             | Some e \<Rightarrow>
                 if snd best \<ge> delayBlocks r + uint64_of_int32 (ev_Height e) then Some (Ok True, s1)
                 else matureLoop quit r event s1)
        | (Err e, s1) \<Rightarrow> matureLoop quit r event s1
        | (e, s1) \<Rightarrow> Some (reraise e, s1))"

text \<open>The body of the loop for a received event: \<open>Ok True\<close> to go on, \<open>Ok False\<close> to return.\<close>

definition onEvent ::
  "('w \<Rightarrow> bool \<times> 'w) \<Rightarrow> 'w boot_retry \<Rightarrow> 'w reporter \<Rightarrow> block_event option
    \<Rightarrow> ('w reporter_state, bool) action" where
  "onEvent quit R r received =
     andThen (\<lambda>s. case matureLoop quit r received s of Some res \<Rightarrow> res | None \<Rightarrow> (Hang, s)) (\<lambda>goOn.
     if \<not> goOn then lift (Ok False)
     else case received of
       None \<Rightarrow> lift (Ok False)
     | Some event \<Rightarrow> (\<lambda>s.
         case handleEvent r event s of
           (Err e, s') \<Rightarrow> andThen (bootstrapWithRetries R r True) (\<lambda>_. lift (Ok True)) s'
         | (Ok _, s') \<Rightarrow> (Ok True, s')
         | (p, s') \<Rightarrow> (reraise p, s')))"

section \<open>The loop\<close>

datatype 'w loop_state =
    Waiting "'w reporter_state"
  | Returned "'w reporter_state"
  | Crashed panic "'w reporter_state"
  | Stuck

text \<open>
  One turn of the \<^verbatim>\<open>select\<close>: an event, a closed channel or the quit channel. Between two turns
  the other goroutines and the outside world move.
\<close>

inductive handler_step ::
  "('w \<Rightarrow> bool \<times> 'w) \<Rightarrow> 'w boot_retry \<Rightarrow> 'w reporter \<Rightarrow> 'w loop_state \<Rightarrow> 'w loop_state \<Rightarrow> bool"
  for quit R r where
  goOn: "onEvent quit R r received s = (Ok True, s') \<Longrightarrow>
    handler_step quit R r (Waiting s) (Waiting s')"
| leave: "onEvent quit R r received s = (Ok False, s') \<Longrightarrow>
    handler_step quit R r (Waiting s) (Returned s')"
| crash: "onEvent quit R r received s = (Panic p, s') \<Longrightarrow>
    handler_step quit R r (Waiting s) (Crashed p s')"
| stuck: "fst (onEvent quit R r received s) = Hang \<Longrightarrow> handler_step quit R r (Waiting s) Stuck"
| stop: "fst (quit (outside s)) \<Longrightarrow> handler_step quit R r (Waiting s) (Returned s)"
| world: "handler_step quit R r (Waiting s) (Waiting (s\<lparr>outside := w\<rparr>))"

inductive_cases handler_stepE: "handler_step quit R r (Waiting s) l"

inductive handler_reaches ::
  "('w \<Rightarrow> bool \<times> 'w) \<Rightarrow> 'w boot_retry \<Rightarrow> 'w reporter \<Rightarrow> 'w reporter_state \<Rightarrow> 'w loop_state \<Rightarrow> bool"
  for quit R r s where
  here: "handler_reaches quit R r s (Waiting s)"
| step: "handler_reaches quit R r s l \<Longrightarrow> handler_step quit R r l l' \<Longrightarrow> handler_reaches quit R r s l'"

fun loop_inv :: "'w reporter \<Rightarrow> (hash \<Rightarrow> int) \<Rightarrow> 'w loop_state \<Rightarrow> bool" where
  "loop_inv r hgt (Waiting s) = reporter_inv r hgt s"
| "loop_inv r hgt (Returned s) = reporter_inv r hgt s"
| "loop_inv r hgt (Crashed p s) = reporter_inv r hgt s"
| "loop_inv r hgt Stuck = True"

section \<open>The life cycle\<close>

text \<open>
  \<open>quitClosed\<close>: the current quit channel is closed; \<open>handlers\<close>: the goroutines the wait group
  counts.
\<close>

record reporter_life =
  quitClosed :: bool
  started :: bool
  handlers :: nat

text \<open>\<^verbatim>\<open>New\<close>, with the constants of the package.\<close>

definition DefaultBtcConfirmationDepth :: u64 where "DefaultBtcConfirmationDepth = 10"

definition DefaultCheckpointFinalizationTimeout :: u64 where
  "DefaultCheckpointFinalizationTimeout = 100"

definition NewReporter ::
  "u64 \<Rightarrow> u32 \<Rightarrow> u64 \<Rightarrow> 'w btc_client \<Rightarrow> 'w lorenzo_client
    \<Rightarrow> (('w \<times> bool option, unit) action \<Rightarrow> ('w \<times> bool option, unit) action) \<Rightarrow> header_funs
    \<Rightarrow> reporter_metrics \<Rightarrow> 'w \<Rightarrow> 'w reporter \<times> 'w reporter_state \<times> reporter_life" where
  "NewReporter btcCacheSize maxHeadersInMsg delay btc lorenzo retry hf m w =
     (\<lparr>btcClient = btc, lorenzoClient = lorenzo, retryDo = retry, headerFuns = hf,
       cfg_BTCCacheSize = btcCacheSize, cfg_MaxHeadersInMsg = maxHeadersInMsg,
       btcConfirmationDepth = DefaultBtcConfirmationDepth,
       checkpointFinalizationTimeout = DefaultCheckpointFinalizationTimeout,
       delayBlocks = delay\<rparr>,
      \<lparr>btcCache = None, reorgList = newReorgList, metrics = m, outside = w\<rparr>,
      \<lparr>quitClosed = False, started = False, handlers = 0\<rparr>)"

text \<open>
  The part of \<^verbatim>\<open>Start\<close> under the lock: whether the start goes on. After a \<^verbatim>\<open>Stop\<close> it waits for
  the goroutines and makes a new quit channel; \<open>None\<close> while it has to wait.
\<close>

definition startGate :: "reporter_life \<Rightarrow> (bool \<times> reporter_life) option" where
  "startGate l =
     (if quitClosed l
      then (if handlers l = 0 then Some (True, l\<lparr>quitClosed := False\<rparr>) else None)
      else if started l then Some (False, l)
      else Some (True, l\<lparr>started := True\<rparr>))"

definition Stop :: "reporter_life \<Rightarrow> reporter_life" where
  "Stop l = l\<lparr>quitClosed := True\<rparr>"

definition ShuttingDown :: "reporter_life \<Rightarrow> bool" where
  "ShuttingDown l = quitClosed l"

text \<open>The rest of \<^verbatim>\<open>Start\<close>; \<open>catchUp\<close> is \<^verbatim>\<open>waitLorenzoCatchUpCloseToBTCTip\<close>.\<close>

definition Start ::
  "('w reporter_state, unit) action \<Rightarrow> 'w boot_retry \<Rightarrow> 'w reporter
    \<Rightarrow> (reporter_life \<times> 'w reporter_state, bool) action" where
  "Start catchUp R r st =
     (case call (MustGetAddr (lorenzoClient r)) (snd st) of
        (Ok _, s) \<Rightarrow>
          (case startGate (fst st) of
             None \<Rightarrow> (Hang, (fst st, s))
           | Some (False, l) \<Rightarrow> (Ok False, (l, s))
           | Some (True, l) \<Rightarrow>
               (case andThen (orPanic catchUp) (\<lambda>_. bootstrapWithRetries R r False) s of
                  (Ok _, s') \<Rightarrow> (Ok True, (l\<lparr>handlers := handlers l + 1\<rparr>, s'))
                | (e, s') \<Rightarrow> (reraise e, (l, s'))))
      | (e, s) \<Rightarrow> (reraise e, (fst st, s)))"

text \<open>The goroutine's \<^verbatim>\<open>defer r.wg.Done()\<close>.\<close>

definition handlerDone :: "reporter_life \<Rightarrow> reporter_life" where
  "handlerDone l = l\<lparr>handlers := handlers l - 1\<rparr>"

section \<open>The maturity loop\<close>

lemma matureLoop_induct:
  assumes run: "matureLoop quit r ev s = Some (out, s')"
    and quits: "\<And>s. fst (quit (outside s)) \<Longrightarrow> Q s (Ok False) (s\<lparr>outside := snd (quit (outside s))\<rparr>)"
    and polled: "\<And>s best s1. \<not> fst (quit (outside s)) \<Longrightarrow>
        call (GetBestBlock (btcClient r)) (s\<lparr>outside := snd (quit (outside s))\<rparr>) = (Ok best, s1) \<Longrightarrow>
        (ev = None \<longrightarrow> Q s (Panic NilDereference) s1)
        \<and> (\<forall>e. ev = Some e \<longrightarrow> snd best \<ge> delayBlocks r + uint64_of_int32 (ev_Height e) \<longrightarrow> Q s (Ok True) s1)"
    and again: "\<And>s o1 s1 out s'. call (GetBestBlock (btcClient r)) (s\<lparr>outside := snd (quit (outside s))\<rparr>)
        = (o1, s1) \<Longrightarrow> Q s1 out s' \<Longrightarrow> \<not> fst (quit (outside s)) \<Longrightarrow>
        (\<exists>err. o1 = Err err) \<or> (\<exists>best e. o1 = Ok best \<and> ev = Some e
          \<and> \<not> snd best \<ge> delayBlocks r + uint64_of_int32 (ev_Height e)) \<Longrightarrow> Q s out s'"
    and broken: "\<And>s o1 s1. \<not> graceful o1 \<Longrightarrow>
        call (GetBestBlock (btcClient r)) (s\<lparr>outside := snd (quit (outside s))\<rparr>) = (o1, s1) \<Longrightarrow>
        Q s (reraise o1) s1"
  shows "Q s out s'"
proof -
  let ?P = "\<lambda>q r' ev' s res. q = quit \<and> r' = r \<and> ev' = ev \<longrightarrow> Q s (fst res) (snd res)"
  have "?P quit r ev s (out, s')"
  proof (rule matureLoop.raw_induct [where P = ?P, OF _ run], intro impI, elim conjE)
    fix f q r' ev' s res
    assume IH: "\<And>q r' ev' s res. f q r' ev' s = Some res \<Longrightarrow> ?P q r' ev' s res"
      and same: "q = quit" "r' = r" "ev' = ev"
      and eq: "(if fst (q (outside s)) then Some (Ok False, s\<lparr>outside := snd (q (outside s))\<rparr>)
        else case call (GetBestBlock (btcClient r')) (s\<lparr>outside := snd (q (outside s))\<rparr>) of
          (Ok best, s1) \<Rightarrow>
            (case ev' of
               None \<Rightarrow> Some (Panic NilDereference, s1)
             | Some e \<Rightarrow>
                 if snd best \<ge> delayBlocks r' + uint64_of_int32 (ev_Height e) then Some (Ok True, s1)
                 else f q r' ev' s1)
        | (Err e, s1) \<Rightarrow> f q r' ev' s1
        | (e, s1) \<Rightarrow> Some (reraise e, s1)) = Some res"
    show "Q s (fst res) (snd res)"
    proof (cases "fst (quit (outside s))")
      case True
      then show ?thesis using eq same quits [of s] by auto
    next
      case False
      obtain o1 s1 where c: "call (GetBestBlock (btcClient r)) (s\<lparr>outside := snd (quit (outside s))\<rparr>)
          = (o1, s1)" by (metis surj_pair)
      have rec: "Q s (fst res) (snd res)" if "f quit r ev s1 = Some res"
          "(\<exists>err. o1 = Err err) \<or> (\<exists>best e. o1 = Ok best \<and> ev = Some e
            \<and> \<not> snd best \<ge> delayBlocks r + uint64_of_int32 (ev_Height e))"
        using IH [OF that(1)] again [OF c _ False that(2)] by blast
      show ?thesis
      proof (cases o1)
        case (Ok best)
        then show ?thesis
          using eq same False c rec polled [OF False c [unfolded Ok]] by (auto split: option.splits if_splits)
      next
        case (Err e)
        then show ?thesis using eq same False c rec by simp
      qed (use eq same False c broken [OF _ c] in auto)
    qed
  qed
  then show ?thesis by simp
qed

lemma core_matureLoop:
  assumes "matureLoop quit r ev s = Some (out, s')"
  shows "core s' = core s"
  using assms
proof (rule matureLoop_induct [where Q = "\<lambda>s out s'. core s' = core s"])
  have c: "core s1 = core s" if "call (GetBestBlock (btcClient r)) (s\<lparr>outside := w\<rparr>) = (o1, s1)"
    for s w o1 s1
    using core_call [of "GetBestBlock (btcClient r)" "s\<lparr>outside := w\<rparr>"] that by (simp add: core_def)
  show "\<And>s o1 s1 out s'. call (GetBestBlock (btcClient r)) (s\<lparr>outside := snd (quit (outside s))\<rparr>)
        = (o1, s1) \<Longrightarrow> core s' = core s1 \<Longrightarrow> core s' = core s"
    using c by metis
qed (auto simp: core_def dest!: call_OkD, auto simp: call_def split: prod.splits)

text \<open>
  \<open>awaited quit r e w w'\<close>: the polls from \<open>w\<close> to \<open>w'\<close>. The quit channel was open at each; the node gave
  no height, or one less than \<^verbatim>\<open>delayBlocks\<close> above the event, until at last it gave one that is enough.
\<close>

inductive awaited ::
  "('w \<Rightarrow> bool \<times> 'w) \<Rightarrow> 'w reporter \<Rightarrow> block_event \<Rightarrow> 'w \<Rightarrow> 'w \<Rightarrow> bool" for quit r e where
  mature: "quit w = (False, w1) \<Longrightarrow> GetBestBlock (btcClient r) w1 = (Ok (hash, h), w2) \<Longrightarrow>
    delayBlocks r + uint64_of_int32 (ev_Height e) \<le> h \<Longrightarrow> awaited quit r e w w2"
| early: "quit w = (False, w1) \<Longrightarrow> GetBestBlock (btcClient r) w1 = (Ok (hash, h), w2) \<Longrightarrow>
    h < delayBlocks r + uint64_of_int32 (ev_Height e) \<Longrightarrow> awaited quit r e w2 w3 \<Longrightarrow> awaited quit r e w w3"
| unanswered: "quit w = (False, w1) \<Longrightarrow> GetBestBlock (btcClient r) w1 = (Err err, w2) \<Longrightarrow>
    awaited quit r e w2 w3 \<Longrightarrow> awaited quit r e w w3"

lemma matureLoop_awaited:
  assumes "matureLoop quit r (Some e) s = Some (out, s')"
  shows "\<exists>w. s' = s\<lparr>outside := w\<rparr> \<and> (out = Ok True \<longrightarrow> awaited quit r e (outside s) w)"
  using assms
proof (rule matureLoop_induct [where Q = "\<lambda>s out s'. \<exists>w. s' = s\<lparr>outside := w\<rparr>
    \<and> (out = Ok True \<longrightarrow> awaited quit r e (outside s) w)"])
  fix s :: "'a reporter_state" and best s1
  assume open_: "\<not> fst (quit (outside s))"
    and c: "call (GetBestBlock (btcClient r)) (s\<lparr>outside := snd (quit (outside s))\<rparr>) = (Ok best, s1)"
  have q: "quit (outside s) = (False, snd (quit (outside s)))" using open_ by (cases "quit (outside s)") simp
  obtain w where "GetBestBlock (btcClient r) (snd (quit (outside s))) = (Ok best, w)" "s1 = s\<lparr>outside := w\<rparr>"
    using c by (auto dest: call_OkD)
  moreover obtain hash h where "best = (hash, h)" by (cases best)
  ultimately show "(Some e = None \<longrightarrow> (\<exists>w. s1 = s\<lparr>outside := w\<rparr>
        \<and> (Panic NilDereference = Ok True \<longrightarrow> awaited quit r e (outside s) w)))
    \<and> (\<forall>e'. Some e = Some e' \<longrightarrow> delayBlocks r + uint64_of_int32 (ev_Height e') \<le> snd best
      \<longrightarrow> (\<exists>w. s1 = s\<lparr>outside := w\<rparr> \<and> (Ok True = Ok True \<longrightarrow> awaited quit r e (outside s) w)))"
    using awaited.mature [where quit = quit and hash = hash and h = h and r = r and e = e, OF q] by (auto intro!: exI [of _ w])
next
  fix s :: "'a reporter_state" and o1 s1 and out :: "bool outcome" and s'
  assume c: "call (GetBestBlock (btcClient r)) (s\<lparr>outside := snd (quit (outside s))\<rparr>) = (o1, s1)"
    and IH: "\<exists>w. s' = s1\<lparr>outside := w\<rparr> \<and> (out = Ok True \<longrightarrow> awaited quit r e (outside s1) w)"
    and open_: "\<not> fst (quit (outside s))"
    and o1: "(\<exists>err. o1 = Err err) \<or> (\<exists>best e'. o1 = Ok best \<and> Some e = Some e'
      \<and> \<not> delayBlocks r + uint64_of_int32 (ev_Height e') \<le> snd best)"
  have q: "quit (outside s) = (False, snd (quit (outside s)))" using open_ by (cases "quit (outside s)") simp
  obtain w where w: "GetBestBlock (btcClient r) (snd (quit (outside s))) = (o1, w)" "s1 = s\<lparr>outside := w\<rparr>"
    using c by (auto simp: call_def split: prod.splits)
  then show "\<exists>w. s' = s\<lparr>outside := w\<rparr> \<and> (out = Ok True \<longrightarrow> awaited quit r e (outside s) w)"
    using IH o1 awaited.early [where quit = quit, OF q] awaited.unanswered [where quit = quit, OF q] by (fastforce simp: not_le)
next
  have no: "reraise o1 \<noteq> Ok True" for o1 :: "'x outcome" by (cases o1) auto
  show "\<exists>w. s1 = s\<lparr>outside := w\<rparr> \<and> (reraise o1 = Ok True \<longrightarrow> awaited quit r e (outside s) w)"
    if "call (GetBestBlock (btcClient r)) (s\<lparr>outside := snd (quit (outside s))\<rparr>) = (o1, s1)" for s o1 s1
    using that no by (auto simp: call_def split: prod.splits)
qed auto

text \<open>
  What becomes of an event: it is left alone, or its handler runs in the state at the end of the polls,
  and a bootstrap after it when it failed.
\<close>

lemma onEvent_awaits:
  assumes "onEvent quit R r (Some e) s = (out, s')"
  shows "(out \<noteq> Ok True \<and> (\<exists>w. s' = s\<lparr>outside := w\<rparr>))
    \<or> (\<exists>w. awaited quit r e (outside s) w \<and>
        (case handleEvent r e (s\<lparr>outside := w\<rparr>) of
           (Err err, t) \<Rightarrow> andThen (bootstrapWithRetries R r True) (\<lambda>_. lift (Ok True)) t = (out, s')
         | (Ok _, t) \<Rightarrow> (Ok True, t) = (out, s')
         | (p, t) \<Rightarrow> (reraise p, t) = (out, s')))"
proof (cases "matureLoop quit r (Some e) s")
  case None
  then have "s' = s\<lparr>outside := outside s\<rparr>" "out = Hang" using assms by (auto simp: onEvent_def andThen_def)
  then show ?thesis by blast
next
  case (Some res)
  obtain o1 s1 where res: "res = (o1, s1)" by (cases res)
  obtain w where w: "s1 = s\<lparr>outside := w\<rparr>" "o1 = Ok True \<longrightarrow> awaited quit r e (outside s) w"
    using matureLoop_awaited [OF Some [unfolded res]] by blast
  show ?thesis
  proof (cases "o1 = Ok True")
    case True
    have "onEvent quit R r (Some e) s = (case handleEvent r e s1 of
        (Err err, t) \<Rightarrow> andThen (bootstrapWithRetries R r True) (\<lambda>_. lift (Ok True)) t
      | (Ok _, t) \<Rightarrow> (Ok True, t) | (p, t) \<Rightarrow> (reraise p, t))"
      by (simp add: onEvent_def andThen_def Some res True)
    then show ?thesis
      using assms w True by (intro disjI2 exI [of _ w]) (auto split: prod.splits outcome.splits)
  next
    case False
    then have "out \<noteq> Ok True \<and> s' = s1"
      using assms Some res by (cases o1) (auto simp: onEvent_def andThen_def split: if_splits)
    then show ?thesis using w(1) by blast
  qed
qed

section \<open>The invariant of the loop\<close>

text \<open>
  When the event channel is closed (\<^verbatim>\<open>Client.Stop\<close> closes it) while the reporter has not been asked
  to quit and the node answers, the event handler dereferences the nil event before it looks at
  the flag that the channel is closed.
\<close>

lemma closed_event_channel_panics:
  assumes "\<not> fst (quit (outside s))"
    and "GetBestBlock (btcClient r) (snd (quit (outside s))) = (Ok best, w)"
  shows "onEvent quit R r None s = (Panic NilDereference, s\<lparr>outside := w\<rparr>)"
proof -
  have "matureLoop quit r None s = Some (Panic NilDereference, s\<lparr>outside := w\<rparr>)"
    using assms by (subst matureLoop.simps) (simp add: call_def)
  then show ?thesis by (simp add: onEvent_def andThen_def)
qed

text \<open>What the three parts of a turn keep, the turn keeps.\<close>

lemma onEvent_keeps:
  assumes "P s" and mature: "\<And>out s'. matureLoop quit r received s = Some (out, s') \<Longrightarrow> P s'"
    and event: "\<And>e s. P s \<Longrightarrow> P (snd (handleEvent r e s))"
    and boot: "\<And>s. P s \<Longrightarrow> P (snd (bootstrapWithRetries R r True s))"
  shows "P (snd (onEvent quit R r received s))"
  unfolding onEvent_def
proof (rule andThen_inv [where P = P])
  show "P (snd (case matureLoop quit r received s of Some res \<Rightarrow> res | None \<Rightarrow> (Hang, s)))"
    using assms(1) mature by (auto split: option.split)
next
  fix goOn s1 assume s1: "P s1"
  have "P (snd (case handleEvent r event s1 of
           (Err e, s') \<Rightarrow> andThen (bootstrapWithRetries R r True) (\<lambda>_. lift (Ok True)) s'
         | (Ok _, s') \<Rightarrow> (Ok True, s')
         | (p, s') \<Rightarrow> (reraise p, s')))" for event
  proof -
    obtain o2 s2 where h: "handleEvent r event s1 = (o2, s2)" by (metis surj_pair)
    then have s2: "P s2" using event [OF s1, of event] by simp
    have "P (snd (andThen (bootstrapWithRetries R r True) (\<lambda>_. lift (Ok True)) s2))"
      by (rule andThen_inv [where P = P]) (use boot [OF s2] in simp_all)
    then show ?thesis using h s2 by (cases o2) simp_all
  qed
  then show "P (snd ((if \<not> goOn then lift (Ok False)
     else case received of None \<Rightarrow> lift (Ok False)
     | Some event \<Rightarrow> (\<lambda>s. case handleEvent r event s of
           (Err e, s') \<Rightarrow> andThen (bootstrapWithRetries R r True) (\<lambda>_. lift (Ok True)) s'
         | (Ok _, s') \<Rightarrow> (Ok True, s')
         | (p, s') \<Rightarrow> (reraise p, s'))) s1))"
    using s1 by (cases received) simp_all
qed

lemma onEvent_inv:
  assumes R: "boot_retry_lawful R" and law: "client_lawful (headerFuns r) hgt (btcClient r)"
    and d: "depths_ok r" and inv: "reporter_inv r hgt s"
  shows "reporter_inv r hgt (snd (onEvent quit R r received s))"
proof (rule onEvent_keeps [where P = "reporter_inv r hgt", OF inv])
  show "reporter_inv r hgt s'" if "matureLoop quit r received s = Some (out, s')" for out s'
    using inv reporter_inv_core core_matureLoop [OF that] by blast
qed (rule handleEvent_inv [OF law] bootstrapWithRetries_inv [OF R law d], assumption)+

text \<open>A turn returns no error: a failed event is answered by a bootstrap, a failed bootstrap by a panic.\<close>

lemma onEvent_not_Err: "fst (onEvent quit R r received s) \<noteq> Err e"
proof -
  have boot: "fst (bootstrapWithRetries R r skip t) \<noteq> Err e" for skip t
    by (auto simp: bootstrapWithRetries_def split: prod.split outcome.split)
  have "out \<noteq> Err e" if "matureLoop quit r received s = Some (out, s')" for out s'
    using that by (rule matureLoop_induct [where Q = "\<lambda>s out s'. out \<noteq> Err e"]) (auto elim: reraise.elims)
  then show ?thesis
    using boot
    by (auto simp: onEvent_def andThen_def split: prod.splits outcome.splits option.splits elim!: reraise.elims)
      (metis fst_conv)+
qed

lemma handler_step_inv:
  assumes "boot_retry_lawful R" and "client_lawful (headerFuns r) hgt (btcClient r)" and "depths_ok r"
    and "handler_step quit R r l l'" and "loop_inv r hgt l"
  shows "loop_inv r hgt l'"
proof -
  have on: "reporter_inv r hgt s'" if "onEvent quit R r received s = (out, s')" "reporter_inv r hgt s"
    for received out s s'
    using onEvent_inv [OF assms(1-3) that(2), of quit received] that(1) by simp
  show ?thesis
    using assms(4)
  proof cases
    case (world s w)
    then show ?thesis using assms(5) by (simp add: reporter_inv_def)
  qed (use on assms(5) in auto)
qed

end
