(* ===== verification/Catch_Up.thy ===== *)
theory Catch_Up
  imports Event_Loop Step_Runs
begin

text \<open>
  Catching up with a Bitcoin chain far ahead of Lorenzo
  (\<^verbatim>\<open>waitLorenzoCatchUpCloseToBTCTip\<close> in \<^verbatim>\<open>reporter/bootstrapping.go\<close>): a goroutine fetches
  ranges of blocks and sends them on a channel of capacity 10, the caller receives and submits
  them; a second channel is closed when the fetching is over. The two run concurrently, so
  the function is a step relation on the state they share.
\<close>

section \<open>The ranges\<close>

definition FetchBTCBlocksBatchSize :: u64 where "FetchBTCBlocksBatchSize = 100"

text \<open>The end of the range that starts at \<open>h\<close>, where \<open>stop\<close> is \<^verbatim>\<open>btcTip-closeGap\<close>.\<close>

definition rangeEnd :: "u64 \<Rightarrow> u64 \<Rightarrow> u64" where
  "rangeEnd stop h =
     (let endHeight = h + FetchBTCBlocksBatchSize - 1 in
      if endHeight > stop then stop - 1 else endHeight)"

text \<open>The ranges the loop goes through, if it ends.\<close>

partial_function (option) ranges :: "u64 \<Rightarrow> u64 \<Rightarrow> (u64 \<times> u64) list option" where
  "ranges stop h =
     (if h < stop
      then Option.bind (ranges stop (rangeEnd stop h + 1)) (\<lambda>rs. Some ((h, rangeEnd stop h) # rs))
      else Some [])"

section \<open>The two goroutines\<close>

text \<open>
  The fetching goroutine is at the head of its loop, about to send a batch, about to send an
  error, or gone. \<open>tipHeader\<close> is the caller's \<^verbatim>\<open>lorenzoNewTipHeader\<close>; \<open>result\<close> is set when the
  caller has returned or panicked.
\<close>

datatype fetcher = AtLoop u64 | Sending u64 "indexed_block list" | Failing go_error | Gone

record 'w catchup =
  fetcher :: fetcher
  ibCh :: "indexed_block list list"
  overCh :: bool
  tipHeader :: hash
  result :: "unit outcome option"
  rep :: "'w reporter_state"

definition ibChCapacity :: nat where "ibChCapacity = 10"

text \<open>What the caller does with a batch.\<close>

definition takeBatch ::
  "'w reporter \<Rightarrow> string \<Rightarrow> indexed_block list \<Rightarrow> 'w catchup \<Rightarrow> 'w catchup" where
  "takeBatch r signer ibs k =
     (if ibs = [] then k\<lparr>result := Some (Panic IndexOutOfRange)\<rparr>
      else if PrevBlock (Header (hd ibs)) \<noteq> tipHeader k
      then k\<lparr>result := Some (Panic (PanicErr (ErrMessage ''PrevBlock is not lorenzo tip'')))\<rparr>
      else case ProcessHeaders r signer ibs (rep k) of
          (Ok _, s) \<Rightarrow> k\<lparr>rep := s, tipHeader := hashOf r (Header (last ibs))\<rparr>
        | (Err e, s) \<Rightarrow> k\<lparr>rep := s, result := Some (Panic (PanicErr e))\<rparr>
        | (e, s) \<Rightarrow> k\<lparr>rep := s, result := Some (reraise e)\<rparr>)"

inductive catchup_step ::
  "('w \<Rightarrow> bool) \<Rightarrow> 'w reporter \<Rightarrow> string \<Rightarrow> u64 \<Rightarrow> 'w catchup \<Rightarrow> 'w catchup \<Rightarrow> bool"
  for quit r signer stop where
  fetch: "fetcher k = AtLoop h \<Longrightarrow> h < stop \<Longrightarrow> \<not> quit (outside (rep k)) \<Longrightarrow>
    call (FindRangeBlocksByHeight (btcClient r) h (rangeEnd stop h)) (rep k) = (Ok ibs, s) \<Longrightarrow>
    catchup_step quit r signer stop k (k\<lparr>fetcher := Sending (rangeEnd stop h) ibs, rep := s\<rparr>)"
| fetch_error: "fetcher k = AtLoop h \<Longrightarrow> h < stop \<Longrightarrow> \<not> quit (outside (rep k)) \<Longrightarrow>
    call (FindRangeBlocksByHeight (btcClient r) h (rangeEnd stop h)) (rep k) = (Err e, s) \<Longrightarrow>
    catchup_step quit r signer stop k (k\<lparr>fetcher := Failing e, rep := s\<rparr>)"
| fetch_panic: "fetcher k = AtLoop h \<Longrightarrow> h < stop \<Longrightarrow> \<not> quit (outside (rep k)) \<Longrightarrow>
    call (FindRangeBlocksByHeight (btcClient r) h (rangeEnd stop h)) (rep k) = (Panic p, s) \<Longrightarrow>
    catchup_step quit r signer stop k (k\<lparr>result := Some (Panic p), rep := s\<rparr>)"
| send: "fetcher k = Sending endHeight ibs \<Longrightarrow> length (ibCh k) < ibChCapacity \<Longrightarrow>
    catchup_step quit r signer stop k
      (k\<lparr>fetcher := AtLoop (endHeight + 1), ibCh := ibCh k @ [ibs]\<rparr>)"
| over: "fetcher k = AtLoop h \<Longrightarrow> \<not> h < stop \<Longrightarrow>
    catchup_step quit r signer stop k (k\<lparr>fetcher := Gone, overCh := True\<rparr>)"
| fetch_quit: "fetcher k = AtLoop h \<Longrightarrow> h < stop \<Longrightarrow> quit (outside (rep k)) \<Longrightarrow>
    catchup_step quit r signer stop k (k\<lparr>fetcher := Gone, overCh := True\<rparr>)"
| receive: "result k = None \<Longrightarrow> ibCh k = ibs # rest \<Longrightarrow>
    catchup_step quit r signer stop k (takeBatch r signer ibs (k\<lparr>ibCh := rest\<rparr>))"
| receive_error: "result k = None \<Longrightarrow> fetcher k = Failing e \<Longrightarrow>
    catchup_step quit r signer stop k (k\<lparr>fetcher := Gone, result := Some (Err e)\<rparr>)"
| receive_over: "result k = None \<Longrightarrow> overCh k \<Longrightarrow>
    catchup_step quit r signer stop k (k\<lparr>result := Some (Ok ())\<rparr>)"
| receive_quit: "result k = None \<Longrightarrow> quit (outside (rep k)) \<Longrightarrow>
    catchup_step quit r signer stop k (k\<lparr>result := Some (Ok ())\<rparr>)"

inductive_cases catchup_stepE: "catchup_step quit r signer stop k k'"

inductive catchup_reaches ::
  "('w \<Rightarrow> bool) \<Rightarrow> 'w reporter \<Rightarrow> string \<Rightarrow> u64 \<Rightarrow> 'w catchup \<Rightarrow> 'w catchup \<Rightarrow> bool"
  for quit r signer stop k where
  here: "catchup_reaches quit r signer stop k k"
| step: "catchup_reaches quit r signer stop k k1 \<Longrightarrow> catchup_step quit r signer stop k1 k2 \<Longrightarrow>
    catchup_reaches quit r signer stop k k2"

interpretation catchup_runs: stepping "catchup_step quit r signer stop" "catchup_reaches quit r signer stop"
  for quit r signer stop
proof
  show "catchup_reaches quit r signer stop s s" for s :: "'a catchup" by (rule catchup_reaches.here)
  show "catchup_reaches quit r signer stop s u"
    if "catchup_reaches quit r signer stop s t" "catchup_step quit r signer stop t u" for s t u :: "'a catchup"
    using that by (rule catchup_reaches.step)
  show "P t" if "catchup_reaches quit r signer stop s t" "P s"
    "\<And>t u. P t \<Longrightarrow> catchup_step quit r signer stop t u \<Longrightarrow> P u" for s t :: "'a catchup" and P
    using that by induction auto
qed

text \<open>
  The function's own part: it does nothing when Lorenzo is close to the tip already, else it
  starts the two loops. \<open>Inl\<close> is an immediate return, \<open>Inr\<close> the signer, the bound of the
  ranges and the first state.
\<close>

definition startCatchUp ::
  "'w reporter \<Rightarrow> ('w reporter_state, unit + (string \<times> u64 \<times> fetcher \<times> hash)) action" where
  "startCatchUp r =
     (let closeGap = btcConfirmationDepth r * 2 in
     andThen (call (GetBestBlock (btcClient r))) (\<lambda>(bestHash, btcTip).
     andThen (call (BTCHeaderChainTip (lorenzoClient r))) (\<lambda>lorenzoTip.
     if lrz_Height lorenzoTip + closeGap \<ge> btcTip then lift (Ok (Inl ()))
     else andThen (call (MustGetAddr (lorenzoClient r))) (\<lambda>signer.
       lift (Ok (Inr (signer, btcTip - closeGap, AtLoop (lrz_Height lorenzoTip + 1),
         lrz_Hash lorenzoTip)))))))"

definition catchupStart :: "fetcher \<Rightarrow> hash \<Rightarrow> 'w reporter_state \<Rightarrow> 'w catchup" where
  "catchupStart f tip s =
     \<lparr>fetcher = f, ibCh = [], overCh = False, tipHeader = tip, result = None, rep = s\<rparr>"

section \<open>The ranges are consecutive\<close>

lemma rangeEnd_bounds:
  assumes "h < stop" and "unat stop < 2 ^ 63"
  shows "unat h \<le> unat (rangeEnd stop h)" and "unat (rangeEnd stop h) \<le> unat stop"
    and "unat (rangeEnd stop h) < unat h + 100"
    and "unat (rangeEnd stop h + 1) = unat (rangeEnd stop h) + 1"
proof -
  have lt: "unat h < unat stop" using assms(1) by (simp add: word_less_nat_alt)
  have e: "unat (h + FetchBTCBlocksBatchSize - 1) = unat h + 99"
  proof -
    have eq: "h + FetchBTCBlocksBatchSize - 1 = h + 99" by (simp add: FetchBTCBlocksBatchSize_def)
    have "unat (h + 99) = unat h + unat (99 :: u64)"
      using lt assms(2) by (intro unat_add_lem [THEN iffD1]) simp
    then show ?thesis unfolding eq by simp
  qed
  have p: "unat (stop - 1) = unat stop - 1"
    using lt by (simp add: unat_sub word_le_nat_alt)
  have r: "unat (rangeEnd stop h) = (if unat stop < unat h + 99 then unat stop - 1 else unat h + 99)"
    by (simp add: rangeEnd_def Let_def word_less_nat_alt e p)
  show "unat h \<le> unat (rangeEnd stop h)" and le: "unat (rangeEnd stop h) \<le> unat stop"
    and "unat (rangeEnd stop h) < unat h + 100"
    using r lt by auto
  show "unat (rangeEnd stop h + 1) = unat (rangeEnd stop h) + 1"
    using le assms(2) by (intro unat_add_lem [THEN iffD1, THEN trans]) simp_all
qed

text \<open>
  \<open>covers rs a b\<close>: the ranges are not empty, at most 100 blocks long, each starts where the one
  before ended, and together they are the heights from \<open>a\<close> below \<open>b\<close>.
\<close>

fun covers :: "(u64 \<times> u64) list \<Rightarrow> nat \<Rightarrow> nat \<Rightarrow> bool" where
  "covers [] a b = (a = b)"
| "covers ((h, e) # rs) a b =
     (unat h = a \<and> unat h \<le> unat e \<and> unat e < unat h + 100 \<and> covers rs (unat e + 1) b)"

lemma ranges_cover:
  assumes stop: "unat stop < 2 ^ 63" and "unat h \<le> unat stop + 1"
  shows "\<exists>rs last. ranges stop h = Some rs \<and> covers rs (unat h) last
    \<and> (last = unat stop \<or> last = unat stop + 1)"
  using assms(2)
proof (induction "unat stop + 1 - unat h" arbitrary: h rule: less_induct)
  case less
  show ?case
  proof (cases "h < stop")
    case False
    then have "unat h = unat stop \<or> unat h = unat stop + 1"
      using less.prems by (auto simp: word_less_nat_alt)
    then show ?thesis using False by (subst ranges.simps) auto
  next
    case True
    note b = rangeEnd_bounds [OF True stop]
    have lt: "unat h < unat stop" using True by (simp add: word_less_nat_alt)
    have "\<exists>rs last. ranges stop (rangeEnd stop h + 1) = Some rs
        \<and> covers rs (unat (rangeEnd stop h + 1)) last \<and> (last = unat stop \<or> last = unat stop + 1)"
      by (rule less.hyps) (use b lt in linarith)+
    then show ?thesis using True b by (subst ranges.simps) auto
  qed
qed

section \<open>Order of submission\<close>

text \<open>A batch that is submitted sits on the last header submitted before it.\<close>

lemma takeBatch_linked:
  assumes "rep (takeBatch r signer ibs k) \<noteq> rep k"
  shows "ibs \<noteq> [] \<and> PrevBlock (Header (hd ibs)) = tipHeader k"
  using assms by (auto simp: takeBatch_def split: if_splits)

lemma step_keeps:
  assumes "catchup_step quit r signer stop k k'" and "\<nexists>ibs rest. ibCh k = ibs # rest \<and> ibCh k' = rest"
  shows "core (rep k') = core (rep k)"
proof -
  have c: "core s = core (rep k)" if "call m (rep k) = (out, s)" for m out s
    using core_call [of m "rep k"] that by simp
  show ?thesis
    using assms(1)
  proof cases
    case (receive ibs rest)
    have "ibCh (takeBatch r signer ibs (k\<lparr>ibCh := rest\<rparr>)) = rest"
      by (auto simp: takeBatch_def split: prod.splits outcome.splits)
    then show ?thesis using assms(2) receive by blast
  qed (use c in auto)
qed

section \<open>Batches may be left behind\<close>

text \<open>
  The goroutine closes \<open>overCh\<close> after its last send, while batches may still wait in \<open>ibCh\<close>;
  the \<^verbatim>\<open>select\<close> then chooses at random. With at most 10 ranges there is always a run in which
  the function returns nil and has submitted nothing at all.
\<close>

lemma fetch_all:
  assumes answers: "\<And>h e w. \<exists>ibs w'. FindRangeBlocksByHeight (btcClient r) h e w = (Ok ibs, w')"
    and noquit: "\<And>w. \<not> quit w"
    and rs: "ranges stop h = Some rs" and room: "length (ibCh k) + length rs \<le> ibChCapacity"
    and k: "fetcher k = AtLoop h" "result k = None" and reached: "catchup_reaches quit r signer stop k0 k"
  shows "\<exists>k' s batches. catchup_reaches quit r signer stop k0 k' \<and> overCh k' \<and> result k' = None
    \<and> ibCh k' = ibCh k @ batches \<and> length batches = length rs"
  using rs room k reached
proof (induction rs arbitrary: h k)
  case Nil
  then have "\<not> h < stop" by (subst (asm) ranges.simps) (auto split: if_splits simp: bind_eq_Some_conv)
  then have "catchup_step quit r signer stop k (k\<lparr>fetcher := Gone, overCh := True\<rparr>)"
    using Nil.prems(3) by (intro over)
  then have "catchup_reaches quit r signer stop k0 (k\<lparr>fetcher := Gone, overCh := True\<rparr>)"
    using Nil.prems(5) step by blast
  then show ?case using Nil.prems(4) by fastforce
next
  case (Cons x rs)
  from Cons.prems(1) have h: "h < stop" "ranges stop (rangeEnd stop h + 1) = Some rs"
    by (subst (asm) ranges.simps, auto split: if_splits simp: bind_eq_Some_conv)+
  obtain ibs w where w: "FindRangeBlocksByHeight (btcClient r) h (rangeEnd stop h) (outside (rep k)) = (Ok ibs, w)"
    using answers by blast
  let ?k1 = "k\<lparr>fetcher := Sending (rangeEnd stop h) ibs, rep := (rep k)\<lparr>outside := w\<rparr>\<rparr>"
  let ?k2 = "?k1\<lparr>fetcher := AtLoop (rangeEnd stop h + 1), ibCh := ibCh ?k1 @ [ibs]\<rparr>"
  have "call (FindRangeBlocksByHeight (btcClient r) h (rangeEnd stop h)) (rep k) = (Ok ibs, (rep k)\<lparr>outside := w\<rparr>)"
    by (rule call_Ok) (rule w)
  then have "catchup_step quit r signer stop k ?k1"
    using Cons.prems(3) h(1) noquit by (intro fetch)
  moreover have "catchup_step quit r signer stop ?k1 ?k2"
    using Cons.prems(2) by (intro send) simp_all
  ultimately have "catchup_reaches quit r signer stop k0 ?k2"
    using Cons.prems(5) by (blast intro: step)
  from Cons.IH [OF h(2) _ _ _ this] Cons.prems(2,4) obtain k' batches where
    "catchup_reaches quit r signer stop k0 k'" "overCh k'" "result k' = None"
    "ibCh k' = ibCh ?k2 @ batches" "length batches = length rs" by auto
  then show ?case by (auto intro!: exI [of _ k'])
qed

lemma catchup_leaves_batches:
  assumes "\<And>h e w. \<exists>ibs w'. FindRangeBlocksByHeight (btcClient r) h e w = (Ok ibs, w')"
    and "\<And>w. \<not> quit w" and rs: "ranges stop h = Some rs" "length rs \<le> ibChCapacity"
  shows "\<exists>k. catchup_reaches quit r signer stop (catchupStart (AtLoop h) tip s) k
    \<and> result k = Some (Ok ()) \<and> length (ibCh k) = length rs"
proof -
  let ?k = "catchupStart (AtLoop h) tip s"
  obtain k' batches where k': "catchup_reaches quit r signer stop ?k k'" "overCh k'" "result k' = None"
    "ibCh k' = ibCh ?k @ batches" "length batches = length rs"
    using fetch_all [where quit = quit and k = ?k and ?k0.0 = ?k and signer = signer, OF assms(1,2) rs(1)]
      rs(2) here [of quit r signer stop ?k]
    by (auto simp: catchupStart_def)
  then have "catchup_step quit r signer stop k' (k'\<lparr>result := Some (Ok ())\<rparr>)" by (intro receive_over)
  then have "catchup_reaches quit r signer stop ?k (k'\<lparr>result := Some (Ok ())\<rparr>)"
    using k'(1) step by blast
  then show ?thesis using k'(4,5) by (fastforce simp: catchupStart_def)
qed

end
