(* ===== verification/Catch_Up_Runs.thy ===== *)
theory Catch_Up_Runs
  imports Catch_Up
begin

text \<open>
  The runs of \<^verbatim>\<open>waitLorenzoCatchUpCloseToBTCTip\<close> (\<^verbatim>\<open>reporter/bootstrapping.go\<close>): what every run
  has made Lorenzo accept, the function as a whole as a relation between its state and its
  outcomes, and the start of a reporter that goes through it.
\<close>

section \<open>What the runs submit\<close>

text \<open>A fetched batch: a chain of blocks of the node, not empty.\<close>

definition fetched :: "'w reporter \<Rightarrow> (hash \<Rightarrow> int) \<Rightarrow> indexed_block list \<Rightarrow> bool" where
  "fetched r hgt ibs \<longleftrightarrow> ibs \<noteq> [] \<and> chain (hashOf r) ibs \<and> (\<forall>b \<in> set ibs. on_node (headerFuns r) hgt b)"

definition pending :: "'w catchup \<Rightarrow> indexed_block list list" where
  "pending k = ibCh k @ (case fetcher k of Sending endHeight ibs \<Rightarrow> [ibs] | _ \<Rightarrow> [])"

text \<open>
  \<open>onTop hf hgt tip bs t\<close>: the blocks are one chain of the node on top of \<open>tip\<close> that ends with \<open>t\<close>.
\<close>

definition onTop :: "header_funs \<Rightarrow> (hash \<Rightarrow> int) \<Rightarrow> hash \<Rightarrow> indexed_block list \<Rightarrow> hash \<Rightarrow> bool" where
  "onTop hf hgt tip bs t \<longleftrightarrow> chain (hf_BlockHash hf) bs \<and> (\<forall>b \<in> set bs. on_node hf hgt b)
     \<and> (if bs = [] then t = tip
        else PrevBlock (Header (hd bs)) = tip \<and> t = BlockHash (hf_BlockHash hf) (last bs))"

lemma onTop_append:
  assumes "onTop hf hgt tip as t" and "onTop hf hgt t bs u"
  shows "onTop hf hgt tip (as @ bs) u"
proof (cases "as = [] \<or> bs = []")
  case False
  then have "last as \<in> set as" and "hd bs \<in> set bs" by simp_all
  then have "linked (hf_BlockHash hf) (last as) (hd bs)"
    using assms False by (simp add: onTop_def linked_def on_node_def)
  then show ?thesis using assms False by (auto simp: onTop_def chain_append_iff)
qed (use assms in \<open>auto simp: onTop_def\<close>)

text \<open>The first block is one above the tip, the last one at the height of the new tip.\<close>

lemma onTop_heights:
  assumes "onTop hf hgt tip bs t" and "i < length bs"
  shows "ht (bs ! i) = hgt tip + 1 + int i"
proof -
  have "hd bs \<in> set bs" using assms(2) by (cases bs) auto
  then have "ht (hd bs) = hgt tip + 1" using assms by (auto simp: onTop_def on_node_def split: if_splits)
  moreover have "chain (hf_BlockHash hf) bs" using assms(1) by (simp add: onTop_def)
  ultimately show ?thesis using chain_ht_nth assms(2) by fastforce
qed

text \<open>
  \<open>catchup_inv r hgt signer tip log k\<close>: since Lorenzo had accepted \<open>log\<close>, every batch taken has been
  submitted to its end, the batches taken are one chain on top of \<open>tip\<close> that ends with the tip
  the caller remembers, and only a run that ended in a panic has submitted part of another batch.
\<close>

definition catchup_inv ::
  "('w \<times> msg_insert_headers list) reporter \<Rightarrow> (hash \<Rightarrow> int) \<Rightarrow> string \<Rightarrow> hash \<Rightarrow> msg_insert_headers list
    \<Rightarrow> ('w \<times> msg_insert_headers list) catchup \<Rightarrow> bool" where
  "catchup_inv r hgt signer tip log k \<longleftrightarrow> list_all (fetched r hgt) (pending k)
     \<and> (\<exists>batches sents part. accepted (rep k) = log @ concat sents @ part
        \<and> list_all2 (submission r signer True) batches sents
        \<and> onTop (headerFuns r) hgt tip (concat batches) (tipHeader k)
        \<and> (part = [] \<or> (\<exists>out. result k = Some out \<and> \<not> graceful out)))"

lemma catchup_inv_start: "catchup_inv r hgt signer tip (accepted s) (catchupStart (AtLoop h) tip s)"
  by (auto simp: catchup_inv_def catchupStart_def pending_def onTop_def intro!: exI [of _ "[]"])

text \<open>What changes neither the log nor what has been taken keeps the invariant.\<close>

lemma catchup_inv_same:
  assumes "catchup_inv r hgt signer tip log k" and "list_all (fetched r hgt) (pending k')"
    and "accepted (rep k') = accepted (rep k)" and "tipHeader k' = tipHeader k"
    and "result k = None \<or> result k' = result k"
  shows "catchup_inv r hgt signer tip log k'"
  using assms unfolding catchup_inv_def by (metis option.distinct(1))

text \<open>A batch that was submitted whole, and one whose submission failed on the way.\<close>

lemma catchup_inv_accepts:
  assumes inv: "catchup_inv r hgt signer tip log k" and k: "result k = None"
    and k': "list_all (fetched r hgt) (pending k')" "accepted (rep k') = accepted (rep k) @ sent"
      "tipHeader k' = BlockHash (hashOf r) (last ibs)"
    and f: "fetched r hgt ibs" "PrevBlock (Header (hd ibs)) = tipHeader k" "submission r signer True ibs sent"
  shows "catchup_inv r hgt signer tip log k'"
proof -
  obtain batches sents where taken: "accepted (rep k) = log @ concat sents"
    "list_all2 (submission r signer True) batches sents"
    "onTop (headerFuns r) hgt tip (concat batches) (tipHeader k)"
    using inv k by (auto simp: catchup_inv_def)
  have "onTop (headerFuns r) hgt (tipHeader k) ibs (tipHeader k')"
    using f(1,2) k'(3) by (simp add: onTop_def fetched_def)
  then have "onTop (headerFuns r) hgt tip (concat (batches @ [ibs])) (tipHeader k')"
    using onTop_append [OF taken(3)] by simp
  moreover have "list_all2 (submission r signer True) (batches @ [ibs]) (sents @ [sent])"
    using taken(2) f(3) by (simp add: list_all2_appendI)
  moreover have "accepted (rep k') = log @ concat (sents @ [sent]) @ []" using taken(1) k'(2) by simp
  ultimately show ?thesis
    using k'(1) unfolding catchup_inv_def
    by (intro conjI exI [of _ "batches @ [ibs]"] exI [of _ "sents @ [sent]"] exI [of _ "[]"]) simp_all
qed

lemma catchup_inv_fails:
  assumes "catchup_inv r hgt signer tip log k" and "result k = None"
    and "list_all (fetched r hgt) (pending k')" and "accepted (rep k') = accepted (rep k) @ sent"
    and "tipHeader k' = tipHeader k" and "result k' = Some out" "\<not> graceful out"
  shows "catchup_inv r hgt signer tip log k'"
proof -
  obtain batches sents where taken: "accepted (rep k) = log @ concat sents"
    "list_all2 (submission r signer True) batches sents"
    "onTop (headerFuns r) hgt tip (concat batches) (tipHeader k)"
    using assms(1,2) by (auto simp: catchup_inv_def)
  then have "accepted (rep k') = log @ concat sents @ sent" using assms(4) by simp
  with taken(2,3) assms(3,5-7) show ?thesis unfolding catchup_inv_def by metis
qed

lemma takeBatch_inv:
  assumes obs: "observed r" and inv: "catchup_inv r hgt signer tip log k"
    and k: "result k = None" "ibCh k = ibs # rest"
  shows "catchup_inv r hgt signer tip log (takeBatch r signer ibs (k\<lparr>ibCh := rest\<rparr>))"
proof -
  let ?k = "k\<lparr>ibCh := rest\<rparr>"
  have R: "retry_lawful (retryDo r)" using obs by (simp add: observed_def)
  obtain l where l: "lorenzoClient r = logging l" using obs by (auto simp: observed_def)
  have f: "fetched r hgt ibs" and p: "list_all (fetched r hgt) (pending ?k)"
    using inv k(2) by (auto simp: catchup_inv_def pending_def split: fetcher.splits)
  have pend: "pending (takeBatch r signer ibs ?k) = pending ?k"
    by (auto simp: takeBatch_def pending_def split: prod.splits outcome.splits)
  show ?thesis
  proof (cases "PrevBlock (Header (hd ibs)) = tipHeader k")
    case False
    then have "takeBatch r signer ibs ?k
      = ?k\<lparr>result := Some (Panic (PanicErr (ErrMessage ''PrevBlock is not lorenzo tip'')))\<rparr>"
      using f by (simp add: takeBatch_def fetched_def)
    then show ?thesis using inv p pend k(1) by (auto intro: catchup_inv_same)
  next
    case True
    obtain out s where run: "ProcessHeaders r signer ibs (rep k) = (out, s)" by (metis surj_pair)
    from ProcessHeaders_log [OF R l run] obtain sent where sent: "accepted s = accepted (rep k) @ sent"
      "submission r signer (\<exists>n. out = Ok n) ibs sent" by blast
    show ?thesis
    proof (cases "\<exists>n. out = Ok n")
      case ok: True
      then have t: "takeBatch r signer ibs ?k = ?k\<lparr>rep := s, tipHeader := BlockHash (hashOf r) (last ibs)\<rparr>"
        using run True f by (auto simp: takeBatch_def fetched_def BlockHash_def)
      show ?thesis
        by (rule catchup_inv_accepts [OF inv k(1) _ _ _ f True, of _ sent])
          (use p pend sent ok in \<open>simp_all add: t\<close>)
    next
      case False
      then obtain out' where t: "takeBatch r signer ibs ?k = ?k\<lparr>rep := s, result := Some out'\<rparr>"
        "\<not> graceful out'"
        using run True f by (cases out) (auto simp: takeBatch_def fetched_def)
      show ?thesis
        by (rule catchup_inv_fails [OF inv k(1), of _ sent out'])
          (use p pend sent t(2) in \<open>simp_all add: t(1)\<close>)
    qed
  qed
qed

lemma range_call:
  assumes "observed r" and "client_lawful (headerFuns r) hgt (btcClient r)"
    and "call (FindRangeBlocksByHeight (btcClient r) a b) s = (out, s')"
  shows "accepted s' = accepted s" and "core s' = core s" and "out = Ok ibs \<Longrightarrow> fetched r hgt ibs"
proof -
  have "quiet (call (FindRangeBlocksByHeight (btcClient r) a b))"
    using assms(1) by (auto simp: observed_def aside_def intro!: quiet_call)
  then show "accepted s' = accepted s" using assms(3) by (auto simp: quiet_def dest: spec [of _ s])
  show "core s' = core s"
    using core_call [of "FindRangeBlocksByHeight (btcClient r) a b" s] assms(3) by simp
  show "fetched r hgt ibs" if "out = Ok ibs"
    using assms(3) that held_source.findRange [OF assms(2)] unfolding fetched_def
    by (blast dest: call_OkD)
qed

lemma catchup_step_inv:
  assumes obs: "observed r" and law: "client_lawful (headerFuns r) hgt (btcClient r)"
    and "catchup_step quit r signer stop k k'" and inv: "catchup_inv r hgt signer tip log k"
  shows "catchup_inv r hgt signer tip log k'"
proof -
  note call = range_call [OF obs law]
  have pend: "list_all (fetched r hgt) (pending k)" using inv by (simp add: catchup_inv_def)
  note same = catchup_inv_same [OF inv]
  show ?thesis
    using assms(3)
  proof cases
    case (fetch h ibs s)
    then show ?thesis using call [OF fetch(5)] pend
      by (intro same) (auto simp: pending_def)
  next
    case (fetch_error h e s)
    then show ?thesis using call [OF fetch_error(5)] pend
      by (intro same) (auto simp: pending_def)
  next
    case (fetch_panic h p s)
    then show ?thesis using call [OF fetch_panic(5)] pend inv
      by (auto simp: pending_def catchup_inv_def)
  next
    case (receive ibs rest)
    then show ?thesis using takeBatch_inv [OF obs inv] by simp
  qed (use pend same in \<open>auto simp: pending_def\<close>)
qed

lemma catchup_runs_inv:
  assumes "observed r" and "client_lawful (headerFuns r) hgt (btcClient r)"
    and "catchup_reaches quit r signer stop (catchupStart (AtLoop h) tip s) k"
  shows "catchup_inv r hgt signer tip (accepted s) k"
  by (rule catchup_runs.keeps [where I = "catchup_inv r hgt signer tip (accepted s)", OF assms(3)])
    (auto intro: catchup_inv_start catchup_step_inv [OF assms(1,2)])

section \<open>The function as a whole\<close>

text \<open>
  What \<^verbatim>\<open>waitLorenzoCatchUpCloseToBTCTip\<close> can do from a state: return at once, fail in the queries,
  or run the two loops until the caller has a result. A run in which the caller never gets one
  has no outcome here.
\<close>

inductive catchUpOutcome ::
  "('w \<Rightarrow> bool) \<Rightarrow> 'w reporter \<Rightarrow> 'w reporter_state \<Rightarrow> unit outcome \<Rightarrow> 'w reporter_state \<Rightarrow> bool"
  for quit r s where
  close: "startCatchUp r s = (Ok (Inl u), s') \<Longrightarrow> catchUpOutcome quit r s (Ok ()) s'"
| loops: "startCatchUp r s = (Ok (Inr (signer, stop, f, tip)), s1) \<Longrightarrow>
    catchup_reaches quit r signer stop (catchupStart f tip s1) k \<Longrightarrow> result k = Some out \<Longrightarrow>
    catchUpOutcome quit r s out (rep k)"
| queries: "startCatchUp r s = (e, s') \<Longrightarrow> \<forall>x. e \<noteq> Ok x \<Longrightarrow> catchUpOutcome quit r s (reraise e) s'"

text \<open>
  \<open>schedules quit r catchUp\<close>: \<open>catchUp\<close> is the function under some scheduling of its goroutines; it
  hangs or has one of these outcomes.
\<close>

definition schedules :: "('w \<Rightarrow> bool) \<Rightarrow> 'w reporter \<Rightarrow> ('w reporter_state, unit) action \<Rightarrow> bool" where
  "schedules quit r catchUp \<longleftrightarrow> (\<forall>s. (fst (catchUp s) = Hang \<and> core (snd (catchUp s)) = core s)
     \<or> catchUpOutcome quit r s (fst (catchUp s)) (snd (catchUp s)))"

lemma core_takeBatch [simp]: "core (rep (takeBatch r signer ibs k)) = core (rep k)"
proof -
  obtain out s where run: "ProcessHeaders r signer ibs (rep k) = (out, s)" by (metis surj_pair)
  then have "core s = core (rep k)" using core_ProcessHeaders [of r signer ibs "rep k"] by simp
  then show ?thesis using run by (cases out) (simp_all add: takeBatch_def)
qed

lemma core_called: "call m s = (out, s') \<Longrightarrow> core s' = core s"
  using core_call [of m s] by simp

lemma core_catchup_step:
  assumes "catchup_step quit r signer stop k k'"
  shows "core (rep k') = core (rep k)"
  using assms by cases (auto dest: core_called)

lemma core_catchup_reaches: "catchup_reaches quit r signer stop k k' \<Longrightarrow> core (rep k') = core (rep k)"
  by (rule catchup_runs.keeps_value [where f = "\<lambda>k. core (rep k)"]) (auto dest: core_catchup_step)

lemma core_startCatchUp: "core (snd (startCatchUp r s)) = core s"
  unfolding startCatchUp_def Let_def by (intro core_andThen) (auto split: prod.splits intro!: core_andThen)

lemma core_catchUpOutcome:
  assumes "catchUpOutcome quit r s out s'"
  shows "core s' = core s"
  using assms
proof cases
  case (loops signer stop f tip s1 k)
  then show ?thesis
    using core_startCatchUp [of r s] core_catchup_reaches [OF loops(3)] by (simp add: catchupStart_def)
qed (use core_startCatchUp [of r s] in simp_all)

lemma core_schedules: "schedules quit r catchUp \<Longrightarrow> core (snd (catchUp s)) = core s"
  unfolding schedules_def using core_catchUpOutcome by blast

section \<open>What the function submits\<close>

lemma startCatchUp_silent: "observed r \<Longrightarrow> silent (startCatchUp r)"
  unfolding startCatchUp_def Let_def split_def
  by (auto intro!: silence silent_calls)

lemma startCatchUp_Inr:
  assumes "startCatchUp r s = (Ok (Inr (signer, stop, f, tip)), s1)"
  shows "\<exists>w lrzTip w'. BTCHeaderChainTip (lorenzoClient r) w = (Ok lrzTip, w')
    \<and> tip = lrz_Hash lrzTip \<and> f = AtLoop (lrz_Height lrzTip + 1)"
  using assms
  by (auto simp: startCatchUp_def Let_def andThen_Ok_iff split: if_splits dest!: call_OkD)

text \<open>Lorenzo's tip, as its client has answered it.\<close>

definition lorenzoTipHash :: "'w reporter \<Rightarrow> hash \<Rightarrow> bool" where
  "lorenzoTipHash r tip \<longleftrightarrow> (\<exists>w lrzTip w'.
     BTCHeaderChainTip (lorenzoClient r) w = (Ok lrzTip, w') \<and> lrz_Hash lrzTip = tip)"

lemma catchUp_submits:
  assumes obs: "observed r" and law: "client_lawful (headerFuns r) hgt (btcClient r)"
    and run: "catchUpOutcome quit r s out s'"
  shows "\<exists>signer tip t batches sents part. accepted s' = accepted s @ concat sents @ part
    \<and> list_all2 (submission r signer True) batches sents
    \<and> onTop (headerFuns r) hgt tip (concat batches) t
    \<and> (batches \<noteq> [] \<longrightarrow> lorenzoTipHash r tip) \<and> (graceful out \<longrightarrow> part = [])"
proof -
  have start: "accepted s1 = accepted s" if "startCatchUp r s = (e, s1)" for e s1
    using startCatchUp_silent [OF obs] that by (auto simp: silent_def dest: spec [of _ s])
  have none: ?thesis if "accepted s' = accepted s"
    using that by (intro exI [of _ "''''"] exI [of _ 0] exI [of _ "[]"]) (simp add: onTop_def)
  show ?thesis
    using run
  proof cases
    case (loops signer stop f tip s1 k)
    obtain h where f: "f = AtLoop h" and tip: "lorenzoTipHash r tip"
      using startCatchUp_Inr [OF loops(2)] unfolding lorenzoTipHash_def by blast
    have "catchup_inv r hgt signer tip (accepted s1) k"
      using catchup_runs_inv [OF obs law] loops(3) unfolding f .
    then obtain batches sents part where "accepted s' = accepted s @ concat sents @ part"
      "list_all2 (submission r signer True) batches sents"
      "onTop (headerFuns r) hgt tip (concat batches) (tipHeader k)" "graceful out \<longrightarrow> part = []"
      using start [OF loops(2)] loops(1,4) by (auto simp: catchup_inv_def)
    then show ?thesis using tip by blast
  qed (use none start in blast)+
qed

section \<open>A reporter that starts\<close>

lemma NewReporter_inv:
  assumes "NewReporter n m d btc lorenzo retry hf mets w = (r, s, l)"
  shows "reporter_inv r hgt s" and "depths_ok r" and "btcClient r = btc" and "headerFuns r = hf"
    and "l = \<lparr>quitClosed = False, started = False, handlers = 0\<rparr>"
  using assms
  by (auto simp: NewReporter_def reporter_inv_def depths_ok_def DefaultBtcConfirmationDepth_def
      DefaultCheckpointFinalizationTimeout_def)

text \<open>After the first start of a new reporter that returns, one event handler runs.\<close>

lemma Start_new:
  assumes "Start catchUp R r (\<lparr>quitClosed = False, started = False, handlers = 0\<rparr>, s) = (Ok b, (l', s'))"
  shows "l' = \<lparr>quitClosed = False, started = True, handlers = 1\<rparr>"
  using assms
  by (auto simp: Start_def startGate_def split: outcome.splits option.splits bool.splits prod.splits if_splits)

lemma Start_inv:
  assumes R: "boot_retry_lawful R" and law: "client_lawful (headerFuns r) hgt (btcClient r)"
    and d: "depths_ok r" and sched: "schedules quit r catchUp" and inv: "reporter_inv r hgt s"
    and run: "Start catchUp R r (l, s) = (out, (l', s'))"
  shows "reporter_inv r hgt s'"
proof -
  obtain o1 s1 where addr: "call (MustGetAddr (lorenzoClient r)) s = (o1, s1)" by (metis surj_pair)
  have inv1: "reporter_inv r hgt s1"
    using inv reporter_inv_core core_call [of "MustGetAddr (lorenzoClient r)" s] addr by (metis snd_conv)
  have "reporter_inv r hgt (snd (andThen (orPanic catchUp) (\<lambda>_. bootstrapWithRetries R r False) s1))"
  proof (rule andThen_inv [where P = "reporter_inv r hgt"])
    show "reporter_inv r hgt (snd (orPanic catchUp s1))"
      using inv1 core_schedules [OF sched, of s1] reporter_inv_core by (metis snd_orPanic)
  qed (rule bootstrapWithRetries_inv [OF R law d])
  then show ?thesis
    using run inv1 addr
    by (auto simp: Start_def split: outcome.splits option.splits bool.splits prod.splits)
qed

end
