(* ===== verification/Bnb_Types.thy ===== *)
theory Bnb_Types
  imports Prelude
begin

text \<open>
  BNB headers (package \<^verbatim>\<open>bnbtypes\<close>): the header, its RLP encoding and its hash
  (\<^verbatim>\<open>block.go\<close>, \<^verbatim>\<open>gen_header_rlp.go\<close>), and the two JSON conversions
  (\<^verbatim>\<open>gen_header_json.go\<close>).

  A nil pointer is \<open>None\<close>. The RLP encoder buffer, the decoder, Keccak and \<^verbatim>\<open>encoding/json\<close> are
  not part of the program: the buffer is the list of the writes made to it, what turns
  such a list into bytes, bytes into a header and bytes into a hash is the record \<open>rlp_lib\<close>, and
  what turns the JSON structs into text and back is the record \<open>json_lib\<close>. What they are documented
  to do, and what the conversions then keep of a header, is in theory \<open>Bnb_Encoding\<close>.
\<close>

section \<open>The header\<close>

type_synonym address = "160 word"

record bnb_header =
  ParentHash :: hash
  UncleHash :: hash
  Coinbase :: address
  Root :: hash
  TxHash :: hash
  ReceiptHash :: hash
  Bloom :: bytes
  Difficulty :: "int option"
  Number :: "int option"
  GasLimit :: u64
  GasUsed :: u64
  Time :: u64
  Extra :: bytes
  MixDigest :: hash
  Nonce :: u64
  BaseFee :: "int option"
  WithdrawalsHash :: "hash option"
  BlobGasUsed :: "u64 option"
  ExcessBlobGas :: "u64 option"
  ParentBeaconRoot :: "hash option"

text \<open>\<^verbatim>\<open>Header{}\<close>; a \<^verbatim>\<open>types.Bloom\<close> is an array of 256 bytes.\<close>

definition zeroBloom :: bytes where "zeroBloom = replicate 256 0"

definition zeroHeader :: bnb_header where
  "zeroHeader = \<lparr>ParentHash = 0, UncleHash = 0, Coinbase = 0, Root = 0, TxHash = 0, ReceiptHash = 0,
     Bloom = zeroBloom, Difficulty = None, Number = None, GasLimit = 0, GasUsed = 0, Time = 0, Extra = [],
     MixDigest = 0, Nonce = 0, BaseFee = None, WithdrawalsHash = None, BlobGasUsed = None,
     ExcessBlobGas = None, ParentBeaconRoot = None\<rparr>"

text \<open>\<^verbatim>\<open>h.Number.Uint64()\<close>: the low 64 bits of the magnitude; a nil number panics.\<close>

definition Uint64 :: "int \<Rightarrow> u64" where
  "Uint64 n = word_of_int \<bar>n\<bar>"

definition numberOf :: "bnb_header \<Rightarrow> u64 outcome" where
  "numberOf h = (case Number h of None \<Rightarrow> Panic NilDereference | Some n \<Rightarrow> Ok (Uint64 n))"

section \<open>RLP\<close>

text \<open>
  The writes to the encoder buffer between \<^verbatim>\<open>List\<close> and \<^verbatim>\<open>ListEnd\<close>. The fixed-size byte
  arrays (hashes, the address, the nonce of 8 bytes) are kept as words, and each has its own
  kind of \<^verbatim>\<open>WriteBytes\<close>. \<open>WriteEmptyString\<close> is \<^verbatim>\<open>Write\<close> of the byte \<^verbatim>\<open>0x80\<close>, which is
  \<^verbatim>\<open>rlp.EmptyString\<close>; its bytes and those of a zero are the same (\<open>rlpString\<close> below).
\<close>

datatype rlp_write =
    WriteHash hash
  | WriteAddress address
  | WriteBytes bytes
  | WriteBigInt int
  | WriteUint64 u64
  | WriteNonce u64
  | WriteEmptyString

record rlp_lib =
  rlp_flush :: "rlp_write list \<Rightarrow> bytes"
  rlp_decode :: "bytes \<Rightarrow> bnb_header outcome"
  keccak256 :: "bytes \<Rightarrow> hash"

text \<open>A big integer field: nil is the empty string, a negative one is an error.\<close>

definition writeBig :: "int option \<Rightarrow> rlp_write list outcome" where
  "writeBig x = (case x of
     None \<Rightarrow> Ok [WriteEmptyString]
   | Some n \<Rightarrow> if n < 0 then Err (ErrExternal ''rlp: cannot encode negative big.Int'')
       else Ok [WriteBigInt n])"

definition writeOpt :: "('a \<Rightarrow> rlp_write) \<Rightarrow> 'a option \<Rightarrow> rlp_write list" where
  "writeOpt write x = (case x of None \<Rightarrow> [WriteEmptyString] | Some v \<Rightarrow> [write v])"

text \<open>
  The optional fields: one is written when it or a later one is there.
\<close>

definition rlpOptionals :: "bnb_header \<Rightarrow> rlp_write list outcome" where
  "rlpOptionals obj =
     (let tmp1 = (BaseFee obj \<noteq> None); tmp2 = (WithdrawalsHash obj \<noteq> None);
          tmp3 = (BlobGasUsed obj \<noteq> None); tmp4 = (ExcessBlobGas obj \<noteq> None);
          tmp5 = (ParentBeaconRoot obj \<noteq> None) in
      thenOk (if tmp1 \<or> tmp2 \<or> tmp3 \<or> tmp4 \<or> tmp5 then writeBig (BaseFee obj) else Ok []) (\<lambda>w1.
      Ok (w1
        @ (if tmp2 \<or> tmp3 \<or> tmp4 \<or> tmp5 then writeOpt WriteHash (WithdrawalsHash obj) else [])
        @ (if tmp3 \<or> tmp4 \<or> tmp5 then writeOpt WriteUint64 (BlobGasUsed obj) else [])
        @ (if tmp4 \<or> tmp5 then writeOpt WriteUint64 (ExcessBlobGas obj) else [])
        @ (if tmp5 then writeOpt WriteHash (ParentBeaconRoot obj) else []))))"

definition rlpWrites :: "bnb_header \<Rightarrow> rlp_write list outcome" where
  "rlpWrites obj =
     thenOk (writeBig (Difficulty obj)) (\<lambda>difficulty.
     thenOk (writeBig (Number obj)) (\<lambda>number.
     thenOk (rlpOptionals obj) (\<lambda>optionals.
     Ok ([WriteHash (ParentHash obj), WriteHash (UncleHash obj), WriteAddress (Coinbase obj),
          WriteHash (Root obj), WriteHash (TxHash obj), WriteHash (ReceiptHash obj),
          WriteBytes (Bloom obj)]
         @ difficulty @ number
         @ [WriteUint64 (GasLimit obj), WriteUint64 (GasUsed obj), WriteUint64 (Time obj),
            WriteBytes (Extra obj), WriteHash (MixDigest obj), WriteNonce (Nonce obj)]
         @ optionals))))"

definition EncodeRLP :: "rlp_lib \<Rightarrow> bnb_header \<Rightarrow> bytes outcome" where
  "EncodeRLP lib obj = thenOk (rlpWrites obj) (\<lambda>ws. Ok (rlp_flush lib ws))"

text \<open>
  \<^verbatim>\<open>rlpHash\<close> ignores the error of \<^verbatim>\<open>rlp.Encode\<close>, which writes nothing when it fails.
\<close>

definition HeaderHash :: "rlp_lib \<Rightarrow> bnb_header \<Rightarrow> hash" where
  "HeaderHash lib h = keccak256 lib (case EncodeRLP lib h of Ok b \<Rightarrow> b | _ \<Rightarrow> [])"

section \<open>JSON\<close>

text \<open>The struct \<^verbatim>\<open>UnmarshalJSON\<close> decodes into: every field may be absent.\<close>

record json_header =
  j_parentHash :: "hash option"
  j_sha3Uncles :: "hash option"
  j_miner :: "address option"
  j_stateRoot :: "hash option"
  j_transactionsRoot :: "hash option"
  j_receiptsRoot :: "hash option"
  j_logsBloom :: "bytes option"
  j_difficulty :: "int option"
  j_number :: "int option"
  j_gasLimit :: "u64 option"
  j_gasUsed :: "u64 option"
  j_timestamp :: "u64 option"
  j_extraData :: "bytes option"
  j_mixHash :: "hash option"
  j_nonce :: "u64 option"
  j_baseFeePerGas :: "int option"
  j_withdrawalsRoot :: "hash option"
  j_blobGasUsed :: "u64 option"
  j_excessBlobGas :: "u64 option"
  j_parentBeaconBlockRoot :: "hash option"

text \<open>A required field: absent it is an error, and the fields before it stay assigned.\<close>

definition required ::
  "string \<Rightarrow> 'a option \<Rightarrow> ('a \<Rightarrow> bnb_header \<Rightarrow> bnb_header) \<Rightarrow> (bnb_header, unit) action" where
  "required name x put h = (case x of
     None \<Rightarrow> (Err (ErrMessage (''missing required field '' @ name @ '' for Header'')), h)
   | Some v \<Rightarrow> (Ok (), put v h))"

definition assigned ::
  "'a option \<Rightarrow> ('a \<Rightarrow> bnb_header \<Rightarrow> bnb_header) \<Rightarrow> (bnb_header, unit) action" where
  "assigned x put h = (case x of None \<Rightarrow> (Ok (), h) | Some v \<Rightarrow> (Ok (), put v h))"

fun runAll :: "('s, unit) action list \<Rightarrow> ('s, unit) action" where
  "runAll [] s = (Ok (), s)"
| "runAll (m # ms) s = andThen m (\<lambda>_. runAll ms) s"

definition jsonFields :: "json_header \<Rightarrow> (bnb_header, unit) action list" where
  "jsonFields dec =
       [required ''parentHash'' (j_parentHash dec) (\<lambda>v h. h\<lparr>ParentHash := v\<rparr>),
        required ''sha3Uncles'' (j_sha3Uncles dec) (\<lambda>v h. h\<lparr>UncleHash := v\<rparr>),
        assigned (j_miner dec) (\<lambda>v h. h\<lparr>Coinbase := v\<rparr>),
        required ''stateRoot'' (j_stateRoot dec) (\<lambda>v h. h\<lparr>Root := v\<rparr>),
        required ''transactionsRoot'' (j_transactionsRoot dec) (\<lambda>v h. h\<lparr>TxHash := v\<rparr>),
        required ''receiptsRoot'' (j_receiptsRoot dec) (\<lambda>v h. h\<lparr>ReceiptHash := v\<rparr>),
        required ''logsBloom'' (j_logsBloom dec) (\<lambda>v h. h\<lparr>Bloom := v\<rparr>),
        required ''difficulty'' (j_difficulty dec) (\<lambda>v h. h\<lparr>Difficulty := Some v\<rparr>),
        required ''number'' (j_number dec) (\<lambda>v h. h\<lparr>Number := Some v\<rparr>),
        required ''gasLimit'' (j_gasLimit dec) (\<lambda>v h. h\<lparr>GasLimit := v\<rparr>),
        required ''gasUsed'' (j_gasUsed dec) (\<lambda>v h. h\<lparr>GasUsed := v\<rparr>),
        required ''timestamp'' (j_timestamp dec) (\<lambda>v h. h\<lparr>Time := v\<rparr>),
        required ''extraData'' (j_extraData dec) (\<lambda>v h. h\<lparr>Extra := v\<rparr>),
        assigned (j_mixHash dec) (\<lambda>v h. h\<lparr>MixDigest := v\<rparr>),
        assigned (j_nonce dec) (\<lambda>v h. h\<lparr>Nonce := v\<rparr>),
        assigned (j_baseFeePerGas dec) (\<lambda>v h. h\<lparr>BaseFee := Some v\<rparr>),
        assigned (j_withdrawalsRoot dec) (\<lambda>v h. h\<lparr>WithdrawalsHash := Some v\<rparr>),
        assigned (j_blobGasUsed dec) (\<lambda>v h. h\<lparr>BlobGasUsed := Some v\<rparr>),
        assigned (j_excessBlobGas dec) (\<lambda>v h. h\<lparr>ExcessBlobGas := Some v\<rparr>),
        assigned (j_parentBeaconBlockRoot dec) (\<lambda>v h. h\<lparr>ParentBeaconRoot := Some v\<rparr>)]"

text \<open>
  \<^verbatim>\<open>json.Marshal\<close> of the struct of \<^verbatim>\<open>MarshalJSON\<close>, which has a hash besides the fields of the other, and
  \<^verbatim>\<open>json.Unmarshal\<close> into the struct of \<^verbatim>\<open>UnmarshalJSON\<close>, with the conversions of \<^verbatim>\<open>hexutil\<close> they use.
\<close>

record 'text json_lib =
  json_Marshal :: "json_header \<times> hash \<Rightarrow> 'text outcome"
  json_Unmarshal :: "'text \<Rightarrow> json_header outcome"

definition UnmarshalJSON :: "'text json_lib \<Rightarrow> 'text \<Rightarrow> (bnb_header, unit) action" where
  "UnmarshalJSON j input = andThen (lift (json_Unmarshal j input)) (\<lambda>dec. runAll (jsonFields dec))"

text \<open>The struct \<^verbatim>\<open>enc\<close>; a nil pointer is an absent field.\<close>

definition jsonOf :: "bnb_header \<Rightarrow> json_header" where
  "jsonOf h =
     \<lparr>j_parentHash = Some (ParentHash h), j_sha3Uncles = Some (UncleHash h),
       j_miner = Some (Coinbase h), j_stateRoot = Some (Root h),
       j_transactionsRoot = Some (TxHash h), j_receiptsRoot = Some (ReceiptHash h),
       j_logsBloom = Some (Bloom h), j_difficulty = Difficulty h, j_number = Number h,
       j_gasLimit = Some (GasLimit h), j_gasUsed = Some (GasUsed h), j_timestamp = Some (Time h),
       j_extraData = Some (Extra h), j_mixHash = Some (MixDigest h), j_nonce = Some (Nonce h),
       j_baseFeePerGas = BaseFee h, j_withdrawalsRoot = WithdrawalsHash h,
       j_blobGasUsed = BlobGasUsed h, j_excessBlobGas = ExcessBlobGas h,
       j_parentBeaconBlockRoot = ParentBeaconRoot h\<rparr>"

definition MarshalJSON :: "rlp_lib \<Rightarrow> 'text json_lib \<Rightarrow> bnb_header \<Rightarrow> 'text outcome" where
  "MarshalJSON lib j h = json_Marshal j (jsonOf h, HeaderHash lib h)"

end
