(* ===== verification/Bnb_Client.thy ===== *)
theory Bnb_Client
  imports Bnb_Types Parent_Walk
begin

text \<open>
  The BNB client (package \<^verbatim>\<open>bnbclient\<close>): the interface the BNB reporter uses
  (\<^verbatim>\<open>interface.go\<close>) and its implementation over a JSON-RPC connection (\<^verbatim>\<open>client.go\<close>). The
  connection is a parameter, a record of actions; an answer may be null, \<open>None\<close>.
\<close>

record 'w bnb_rpc =
  eth_getBlockByNumber :: "u64 \<Rightarrow> ('w, bnb_header option) action"
  eth_getBlockByHash :: "hash \<Rightarrow> ('w, bnb_header option) action"
  eth_blockNumber :: "('w, u64) action"

record 'w bnb_client =
  BlockNumber :: "('w, u64) action"
  LatestHeader :: "('w, bnb_header) action"
  RangeHeaders :: "u64 \<Rightarrow> u64 \<Rightarrow> ('w, bnb_header list) action"
  HeaderByNumber :: "u64 \<Rightarrow> ('w, bnb_header) action"
  HeaderByHash :: "hash \<Rightarrow> ('w, bnb_header) action"

definition NotFound :: go_error where "NotFound = ErrExternal ''not found''"

text \<open>\<^verbatim>\<open>if err == nil && header == nil { err = ethereum.NotFound }\<close>\<close>

definition found :: "('w, bnb_header option) action \<Rightarrow> ('w, bnb_header) action" where
  "found m = andThen m (\<lambda>header. case header of None \<Rightarrow> lift (Err NotFound) | Some h \<Rightarrow> lift (Ok h))"

definition client_HeaderByNumber :: "'w bnb_rpc \<Rightarrow> u64 \<Rightarrow> ('w, bnb_header) action" where
  "client_HeaderByNumber c number = found (eth_getBlockByNumber c number)"

definition client_HeaderByHash :: "'w bnb_rpc \<Rightarrow> hash \<Rightarrow> ('w, bnb_header) action" where
  "client_HeaderByHash c h = found (eth_getBlockByHash c h)"

definition client_BlockNumber :: "'w bnb_rpc \<Rightarrow> ('w, u64) action" where
  "client_BlockNumber c = eth_blockNumber c"

definition client_LatestHeader :: "'w bnb_rpc \<Rightarrow> ('w, bnb_header) action" where
  "client_LatestHeader c = andThen (client_BlockNumber c) (client_HeaderByNumber c)"

text \<open>The loop of \<^verbatim>\<open>RangeHeaders\<close> that fills the slots below the last.\<close>

fun rangeLoop ::
  "'w bnb_rpc \<Rightarrow> nat \<Rightarrow> hash \<Rightarrow> bnb_header list \<Rightarrow> ('w, bnb_header list) action" where
  "rangeLoop c 0 preHeaderHash chainHeaders w = (Ok chainHeaders, w)"
| "rangeLoop c (Suc i) preHeaderHash chainHeaders w =
     andThen (client_HeaderByHash c preHeaderHash)
       (\<lambda>header. rangeLoop c i (ParentHash header) (header # chainHeaders)) w"

definition client_RangeHeaders :: "'w bnb_rpc \<Rightarrow> u64 \<Rightarrow> u64 \<Rightarrow> ('w, bnb_header list) action" where
  "client_RangeHeaders c start stop =
     (if start > stop
      then lift (Err (ErrMessage ''start block number should be less than end block number''))
      else andThen (client_HeaderByNumber c stop) (\<lambda>endHeader.
        let n = stop - start + 1 in
        if makeslice_panics n then lift (Panic MakeSliceOutOfRange)
        else if n = 0 then lift (Panic IndexOutOfRange)
        else rangeLoop c (unat n - 1) (ParentHash endHeader) [endHeader]))"

definition bnb_client_of :: "'w bnb_rpc \<Rightarrow> 'w bnb_client" where
  "bnb_client_of c =
     \<lparr>BlockNumber = client_BlockNumber c, LatestHeader = client_LatestHeader c,
      RangeHeaders = client_RangeHeaders c, HeaderByNumber = client_HeaderByNumber c,
      HeaderByHash = client_HeaderByHash c\<rparr>"

text \<open>
  \<^verbatim>\<open>New\<close>: two connections to the same address, the second for the calls \<^verbatim>\<open>ethclient\<close> lacks; the block
  number is asked for over the first, headers over the second.
\<close>

definition bnbclient_New ::
  "(string \<Rightarrow> ('w, ('w, u64) action) action) \<Rightarrow> (string \<Rightarrow> ('w, 'w bnb_rpc) action) \<Rightarrow> string
    \<Rightarrow> ('w, 'w bnb_client) action" where
  "bnbclient_New ethDial rpcDial rpcUrl =
     andThen (ethDial rpcUrl) (\<lambda>blockNumber.
     andThen (rpcDial rpcUrl) (\<lambda>c.
     lift (Ok (bnb_client_of (c\<lparr>eth_blockNumber := blockNumber\<rparr>)))))"

section \<open>A range is a chain\<close>

text \<open>
  A BNB node: the header it returns for a number has that number, the header for a hash has
  that hash, and the number is a function \<open>num\<close> of the hash, one more than the parent's.
\<close>

definition bnb_on_node :: "rlp_lib \<Rightarrow> (hash \<Rightarrow> int) \<Rightarrow> bnb_header \<Rightarrow> bool" where
  "bnb_on_node lib num h \<longleftrightarrow>
     (case Number h of None \<Rightarrow> False
      | Some n \<Rightarrow> 0 \<le> n \<and> n < 2 ^ 64 \<and> num (HeaderHash lib h) = n \<and> num (ParentHash h) = n - 1)"

definition bnb_lawful :: "rlp_lib \<Rightarrow> (hash \<Rightarrow> int) \<Rightarrow> 'w bnb_rpc \<Rightarrow> bool" where
  "bnb_lawful lib num c \<longleftrightarrow>
     (\<forall>k w h w'. eth_getBlockByNumber c k w = (Ok (Some h), w') \<longrightarrow>
        Number h = Some (uint k) \<and> bnb_on_node lib num h)
     \<and> (\<forall>g w h w'. eth_getBlockByHash c g w = (Ok (Some h), w') \<longrightarrow>
        HeaderHash lib h = g \<and> bnb_on_node lib num h)"

definition bnb_linked :: "rlp_lib \<Rightarrow> bnb_header \<Rightarrow> bnb_header \<Rightarrow> bool" where
  "bnb_linked lib a b \<longleftrightarrow> ParentHash b = HeaderHash lib a
     \<and> (\<exists>n. Number a = Some n \<and> Number b = Some (n + 1))"

interpretation bnb_walk: parent_walk "client_HeaderByHash c" id ParentHash "rangeLoop c"
  for c :: "'w bnb_rpc"
  by unfold_locales simp_all

lemma found_Ok_iff: "found m w = (Ok h, w') \<longleftrightarrow> m w = (Ok (Some h), w')"
  by (auto simp: found_def andThen_Ok_iff split: option.splits)

lemma bnb_link:
  assumes "bnb_on_node lib num a" and "bnb_on_node lib num b" and "ParentHash b = HeaderHash lib a"
  shows "bnb_linked lib a b"
  using assms by (auto simp: bnb_on_node_def bnb_linked_def split: option.splits)

text \<open>Numbers along a linked list are consecutive.\<close>

lemma bnb_linked_nth:
  assumes "successively (bnb_linked lib) hs" and "i < length hs" and "Number (hd hs) = Some n"
  shows "Number (hs ! i) = Some (n + int i)"
  using assms
proof (induction hs arbitrary: i n)
  case (Cons a hs)
  show ?case
  proof (cases i)
    case 0
    then show ?thesis using Cons.prems by simp
  next
    case (Suc j)
    then obtain b bs where hs: "hs = b # bs" using Cons.prems(2) by (cases hs) auto
    then have "Number (hd hs) = Some (n + 1)" using Cons.prems(1,3) by (auto simp: bnb_linked_def)
    then have "Number (hs ! j) = Some (n + 1 + int j)"
      using Cons.prems(1,2) Suc hs by (intro Cons.IH) auto
    then show ?thesis using Suc by (simp add: add.assoc add.commute)
  qed
qed simp

lemma client_RangeHeaders_chain:
  assumes law: "bnb_lawful lib num c" and run: "client_RangeHeaders c start stop w = (Ok hs, w')"
  shows "length hs = unat stop - unat start + 1" and "successively (bnb_linked lib) hs"
    and "\<forall>h \<in> set hs. bnb_on_node lib num h" and "Number (last hs) = Some (uint stop)"
    and "Number (hd hs) = Some (uint start)"
proof -
  define n where "n = stop - start + 1"
  obtain e w1 where e: "client_HeaderByNumber c stop w = (Ok e, w1)" and le: "start \<le> stop"
    and n0: "n \<noteq> 0" and walk: "rangeLoop c (unat n - 1) (ParentHash e) [e] w1 = (Ok hs, w')"
    using run by (auto simp: client_RangeHeaders_def andThen_Ok_iff Let_def n_def not_less split: if_splits)
  have n: "unat n = unat stop - unat start + 1"
    using le n0 unfolding n_def by (subst (asm) add.commute, subst add.commute) (simp add: unatSuc unat_sub)
  have top: "Number e = Some (uint stop)" "bnb_on_node lib num e"
    using law e unfolding bnb_lawful_def client_HeaderByNumber_def found_Ok_iff by blast+
  have ans: "HeaderHash lib h = g \<and> bnb_on_node lib num h" if "answers (client_HeaderByHash c) g h" for g h
    using that law unfolding answers_def client_HeaderByHash_def found_Ok_iff bnb_lawful_def by blast
  show len: "length hs = unat stop - unat start + 1"
    using bnb_walk.walk_length [OF walk] n by simp
  show ch: "successively (bnb_linked lib) hs"
  proof (rule bnb_walk.walk_linked [OF walk])
    show "bnb_linked lib (id x) (id y)"
      if "answers (client_HeaderByHash c) (ParentHash y) x" "answers (client_HeaderByHash c) g y" for g x y
      using ans [OF that(1)] ans [OF that(2)] by (auto intro: bnb_link)
    show "bnb_linked lib (id x) e" if "answers (client_HeaderByHash c) (ParentHash e) x" for x
      using ans [OF that] top by (auto intro: bnb_link)
  qed simp
  show on: "\<forall>h \<in> set hs. bnb_on_node lib num h"
    using bnb_walk.walk_set [OF walk] ans top(2) by fastforce
  show last: "Number (last hs) = Some (uint stop)"
    using bnb_walk.walk_last [OF walk] top(1) by simp
  have ne: "hs \<noteq> []" using len by auto
  then obtain k where k: "Number (hd hs) = Some k"
    using on by (force simp: bnb_on_node_def split: option.splits)
  have "Number (last hs) = Some (k + int (length hs - 1))"
    using bnb_linked_nth [OF ch _ k, of "length hs - 1"] ne by (simp add: last_conv_nth)
  then have "uint stop = k + int (unat stop - unat start)" using last len by simp
  moreover have "unat start \<le> unat stop" using le by (simp add: word_le_nat_alt)
  ultimately show "Number (hd hs) = Some (uint start)" using k by (simp add: of_nat_diff)
qed

end
