(* ===== verification/Bnb_Reporter.thy ===== *)
theory Bnb_Reporter
  imports Bnb_Client
begin

text \<open>
  The BNB reporter (package \<^verbatim>\<open>bnbreporter\<close>): it keeps the last BNB header Lorenzo has
  (\<open>lorenzoTip\<close>, nil before the bootstrap), fetches the headers above it that are deep enough
  and uploads them. The Lorenzo client is the SDK's, a parameter.
\<close>

section \<open>State and clients\<close>

text \<open>The fields of Lorenzo's \<^verbatim>\<open>types.Header\<close> for BNB, and the message that uploads them.\<close>

record lorenzo_bnb_header =
  RawHeader :: bytes
  lb_Number :: u64
  lb_Hash :: hash
  lb_ParentHash :: hash
  lb_ReceiptRoot :: hash

record msg_upload_headers =
  up_Signer :: string
  up_Headers :: "lorenzo_bnb_header list"

record 'w bnb_lorenzo_client =
  bnb_MustGetAddr :: "('w, string) action"
  BNBUploadHeaders :: "msg_upload_headers \<Rightarrow> ('w, nat) action"
  BNBLatestHeader :: "('w, lorenzo_bnb_header) action"

record 'w bnb_reporter =
  bnbDelayBlocks :: u64
  cfg_BaseHeight :: u64
  bnbLorenzo :: "'w bnb_lorenzo_client"
  bnbClient :: "'w bnb_client"
  bnbLib :: rlp_lib

record 'w bnb_state =
  lorenzoTip :: "bnb_header option"
  bnbOutside :: 'w

definition ask :: "('w, 'a) action \<Rightarrow> ('w bnb_state, 'a) action" where
  "ask m s = (case m (bnbOutside s) of (r, w) \<Rightarrow> (r, s\<lparr>bnbOutside := w\<rparr>))"

text \<open>Reading \<^verbatim>\<open>r.lorenzoTip\<close> through a nil pointer panics.\<close>

definition tip :: "('w bnb_state, bnb_header) action" where
  "tip s = (case lorenzoTip s of None \<Rightarrow> (Panic NilDereference, s) | Some t \<Rightarrow> (Ok t, s))"

definition tipNumber :: "('w bnb_state, u64) action" where
  "tipNumber = andThen tip (\<lambda>t. lift (numberOf t))"

definition setTip :: "bnb_header \<Rightarrow> ('w bnb_state, unit) action" where
  "setTip h s = (Ok (), s\<lparr>lorenzoTip := Some h\<rparr>)"

section \<open>Conversions\<close>

text \<open>A response that is nil is dereferenced.\<close>

definition ConvertLorenzoBNBResponseToHeader ::
  "rlp_lib \<Rightarrow> lorenzo_bnb_header option \<Rightarrow> bnb_header outcome" where
  "ConvertLorenzoBNBResponseToHeader lib header = (case header of
     None \<Rightarrow> Panic NilDereference
   | Some h \<Rightarrow> rlp_decode lib (RawHeader h))"

fun ConvertBNBHeaderToLorenzoBNBHeaders ::
  "rlp_lib \<Rightarrow> bnb_header list \<Rightarrow> lorenzo_bnb_header list outcome" where
  "ConvertBNBHeaderToLorenzoBNBHeaders lib [] = Ok []"
| "ConvertBNBHeaderToLorenzoBNBHeaders lib (header # headers) =
     thenOk (EncodeRLP lib header) (\<lambda>raw.
     thenOk (numberOf header) (\<lambda>number.
     thenOk (ConvertBNBHeaderToLorenzoBNBHeaders lib headers) (\<lambda>rest.
     Ok (\<lparr>RawHeader = raw, lb_Number = number, lb_Hash = HeaderHash lib header,
          lb_ParentHash = ParentHash header, lb_ReceiptRoot = ReceiptHash header\<rparr> # rest))))"

section \<open>Uploading\<close>

definition uploadHeaders :: "'w bnb_reporter \<Rightarrow> bnb_header list \<Rightarrow> ('w bnb_state, unit) action" where
  "uploadHeaders r headers =
     andThen (lift (ConvertBNBHeaderToLorenzoBNBHeaders (bnbLib r) headers)) (\<lambda>lorenzoBNBHeaders.
     andThen (ask (bnb_MustGetAddr (bnbLorenzo r))) (\<lambda>signer.
     andThen (ask (BNBUploadHeaders (bnbLorenzo r)
       \<lparr>up_Signer = signer, up_Headers = lorenzoBNBHeaders\<rparr>)) (\<lambda>_. lift (Ok ()))))"

text \<open>The two checks on the first new header against the tip.\<close>

definition checkNext :: "'w bnb_reporter \<Rightarrow> bnb_header \<Rightarrow> ('w bnb_state, unit) action" where
  "checkNext r newHeader =
     andThen (lift (numberOf newHeader)) (\<lambda>number.
     andThen tipNumber (\<lambda>t.
     if number \<noteq> t + 1
     then lift (Err (ErrMessage ''newHeader number is not the next block of lorenzoTip number''))
     else andThen tip (\<lambda>lorenzoTip'.
       if HeaderHash (bnbLib r) lorenzoTip' \<noteq> ParentHash newHeader
       then lift (Err (ErrMessage ''BNB chain is inconsistent with Lorenzo chain''))
       else lift (Ok ()))))"

definition handleHeader :: "'w bnb_reporter \<Rightarrow> bnb_header option \<Rightarrow> ('w bnb_state, unit) action" where
  "handleHeader r newHeader = (case newHeader of
     None \<Rightarrow> lift (Ok ())
   | Some h \<Rightarrow> andThen (checkNext r h) (\<lambda>_. uploadHeaders r [h]))"

text \<open>The deferred log reads the numbers of the first and the last header.\<close>

definition deferredNumbers :: "bnb_header list \<Rightarrow> ('s, 'a) action \<Rightarrow> ('s, 'a) action" where
  "deferredNumbers hs m s = (case m s of
     (Hang, s') \<Rightarrow> (Hang, s')
   | (out, s') \<Rightarrow>
       if Number (hd hs) = None \<or> Number (last hs) = None then (Panic NilDereference, s')
       else (out, s'))"

definition handleHeaders :: "'w bnb_reporter \<Rightarrow> bnb_header list \<Rightarrow> ('w bnb_state, unit) action" where
  "handleHeaders r newHeaders =
     (if newHeaders = [] then lift (Ok ())
      else deferredNumbers newHeaders
        (andThen (checkNext r (hd newHeaders)) (\<lambda>_.
         andThen (uploadHeaders r newHeaders) (\<lambda>_. setTip (last newHeaders)))))"

section \<open>Bootstrap\<close>

text \<open>The text of an error, and \<^verbatim>\<open>strings.Contains\<close>.\<close>

fun Error :: "go_error \<Rightarrow> string" where
  "Error ErrEmptyCache = ''empty cache''"
| "Error ErrInvalidMaxEntries = ''invalid max entries''"
| "Error ErrTooManyEntries = ''the number of blocks is more than maxEntries''"
| "Error ErrorUnsortedBlocks = ''blocks are not sorted by height''"
| "Error (ErrMessage m) = m"
| "Error (ErrExternal m) = m"
| "Error (ErrWrapped m e) = m @ '': '' @ Error e"

fun Contains :: "string \<Rightarrow> string \<Rightarrow> bool" where
  "Contains [] sub = (sub = [])"
| "Contains (c # s) sub = (take (length sub) (c # s) = sub \<or> Contains s sub)"

definition isHeaderNotFound :: "go_error \<Rightarrow> bool" where
  "isHeaderNotFound e = Contains (Error e) ''latested header not found''"

definition uploadBaseHeader :: "'w bnb_reporter \<Rightarrow> ('w bnb_state, unit) action" where
  "uploadBaseHeader r =
     andThen (ask (HeaderByNumber (bnbClient r) (cfg_BaseHeight r))) (\<lambda>baseHeader.
     uploadHeaders r [baseHeader])"

text \<open>
  \<^verbatim>\<open>boostrap\<close> with \<^verbatim>\<open>initLorenzoBNBBaseHeader\<close> in place: after a successful initialisation,
  which ends with a bootstrap of its own, the outer call goes on with the response it got
  beside the error, nil. Lorenzo may answer \<^verbatim>\<open>not found\<close> for ever, so the function is partial.
\<close>

partial_function (option) boostrapRun ::
  "'w bnb_reporter \<Rightarrow> 'w bnb_state \<Rightarrow> (unit outcome \<times> 'w bnb_state) option" where
  "boostrapRun r s =
     (case ask (BNBLatestHeader (bnbLorenzo r)) s of
        (Ok header, s1) \<Rightarrow>
          Some (andThen (lift (ConvertLorenzoBNBResponseToHeader (bnbLib r) (Some header))) setTip s1)
      | (Err e, s1) \<Rightarrow>
          if isHeaderNotFound e
          then (case uploadBaseHeader r s1 of
              (Ok _, s2) \<Rightarrow> Option.bind (boostrapRun r s2) (\<lambda>(out, s3).
                 Some (andThen (lift out) (\<lambda>_.
                   andThen (lift (ConvertLorenzoBNBResponseToHeader (bnbLib r) None)) setTip) s3))
            | (e, s2) \<Rightarrow> Some (reraise e, s2))
          else Some (Err e, s1)
      | (e, s1) \<Rightarrow> Some (reraise e, s1))"

definition boostrap :: "'w bnb_reporter \<Rightarrow> ('w bnb_state, unit) action" where
  "boostrap r s = (case boostrapRun r s of Some res \<Rightarrow> res | None \<Rightarrow> (Hang, s))"

definition initLorenzoBNBBaseHeader :: "'w bnb_reporter \<Rightarrow> ('w bnb_state, unit) action" where
  "initLorenzoBNBBaseHeader r = andThen (uploadBaseHeader r) (\<lambda>_. boostrap r)"

section \<open>Waiting for BNB\<close>

partial_function (option) bnbWaitLoop ::
  "'w bnb_reporter \<Rightarrow> 'w bnb_state \<Rightarrow> (unit outcome \<times> 'w bnb_state) option" where
  "bnbWaitLoop r s =
     (case andThen (ask (BlockNumber (bnbClient r))) (\<lambda>n.
          andThen tipNumber (\<lambda>t. lift (Ok (t < n)))) s of
        (Ok caughtUp, s') \<Rightarrow> if caughtUp then Some (Ok (), s') else bnbWaitLoop r s'
      | (e, s') \<Rightarrow> Some (reraise e, s'))"

definition WaitBNBCatchUp :: "'w bnb_reporter \<Rightarrow> ('w bnb_state, unit) action" where
  "WaitBNBCatchUp r =
     andThen (ask (BlockNumber (bnbClient r))) (\<lambda>bnbTipNumber.
     andThen tipNumber (\<lambda>t.
     if bnbTipNumber > t then lift (Ok ())
     else (\<lambda>s. case bnbWaitLoop r s of Some res \<Rightarrow> res | None \<Rightarrow> (Hang, s))))"

section \<open>The main loop\<close>

definition FetchBNBHeaderBatchSize :: u64 where "FetchBNBHeaderBatchSize = 100"

text \<open>The range to fetch: none while the node is less than \<open>delay\<close> blocks ahead.\<close>

definition nextRange :: "u64 \<Rightarrow> u64 \<Rightarrow> u64 \<Rightarrow> (u64 \<times> u64) option" where
  "nextRange delay t bnbTip =
     (if delay + t + 1 > bnbTip then None
      else (let start = t + 1; stop = bnbTip - delay in
        Some (start, if stop - start + 1 > FetchBNBHeaderBatchSize
                     then start + FetchBNBHeaderBatchSize - 1 else stop)))"

definition fetchAndHandle :: "'w bnb_reporter \<Rightarrow> u64 \<Rightarrow> u64 \<Rightarrow> ('w bnb_state, unit) action" where
  "fetchAndHandle r start stop =
     andThen (ask (RangeHeaders (bnbClient r) start stop)) (\<lambda>newHeaders s.
     case handleHeaders r newHeaders s of
       (Ok _, s') \<Rightarrow>
         if newHeaders = [] then (Panic IndexOutOfRange, s') else setTip (last newHeaders) s'
     | (Err e, s') \<Rightarrow> logErr (boostrap r) s'
     | (e, s') \<Rightarrow> (reraise e, s'))"

text \<open>One turn of \<^verbatim>\<open>mainLoop\<close>, after the quit channel was found open.\<close>

definition mainIteration :: "'w bnb_reporter \<Rightarrow> ('w bnb_state, unit) action" where
  "mainIteration r = logErr
     (andThen (ask (LatestHeader (bnbClient r))) (\<lambda>bnbTip.
      andThen tipNumber (\<lambda>t.
      andThen (lift (numberOf bnbTip)) (\<lambda>b.
      case nextRange (bnbDelayBlocks r) t b of
        None \<Rightarrow> lift (Ok ())
      | Some (start, stop) \<Rightarrow> fetchAndHandle r start stop))))"

section \<open>What is uploaded\<close>

text \<open>A Lorenzo client that logs the uploads it accepts, and a BNB client that does not touch the log.\<close>

definition bnb_logging ::
  "'w bnb_lorenzo_client \<Rightarrow> ('w \<times> msg_upload_headers list) bnb_lorenzo_client" where
  "bnb_logging l =
     \<lparr>bnb_MustGetAddr = logged (bnb_MustGetAddr l),
      BNBUploadHeaders = (\<lambda>msg st. case BNBUploadHeaders l msg (fst st) of
          (Ok code, w) \<Rightarrow> (Ok code, (w, snd st @ [msg]))
        | (r, w) \<Rightarrow> (r, (w, snd st))),
      BNBLatestHeader = logged (BNBLatestHeader l)\<rparr>"

definition bnb_watching :: "'w bnb_client \<Rightarrow> ('w \<times> 'm list) bnb_client" where
  "bnb_watching c =
     \<lparr>BlockNumber = logged (BlockNumber c), LatestHeader = logged (LatestHeader c),
      RangeHeaders = (\<lambda>a b. logged (RangeHeaders c a b)),
      HeaderByNumber = (\<lambda>n. logged (HeaderByNumber c n)),
      HeaderByHash = (\<lambda>h. logged (HeaderByHash c h))\<rparr>"

definition bnb_observed :: "('w \<times> msg_upload_headers list) bnb_reporter \<Rightarrow> bool" where
  "bnb_observed r \<longleftrightarrow> (\<exists>l. bnbLorenzo r = bnb_logging l) \<and> (\<exists>c. bnbClient r = bnb_watching c)"

abbreviation uploaded :: "('w \<times> 'm list) bnb_state \<Rightarrow> 'm list" where
  "uploaded s \<equiv> snd (bnbOutside s)"

lemma ask_OkD: "ask m s = (x, s') \<Longrightarrow> \<exists>w. m (bnbOutside s) = (x, w) \<and> s' = s\<lparr>bnbOutside := w\<rparr>"
  by (auto simp: ask_def split: prod.splits)

lemma lorenzoTip_ask: "ask m s = (x, s') \<Longrightarrow> lorenzoTip s' = lorenzoTip s"
  by (auto dest!: ask_OkD)

lemma ask_logged: "ask (logged m) s = (x, s') \<Longrightarrow> uploaded s' = uploaded s"
  by (auto dest!: ask_OkD logged_keeps)

lemma numberOf_Ok_iff: "numberOf h = Ok n \<longleftrightarrow> (\<exists>k. Number h = Some k \<and> n = Uint64 k)"
  by (auto simp: numberOf_def split: option.splits)

lemma unat_Uint64:
  assumes "0 \<le> n" and "n < 2 ^ 64"
  shows "unat (Uint64 n) = nat n"
proof -
  have "uint (Uint64 n) = \<bar>n\<bar> mod 2 ^ LENGTH(64)" unfolding Uint64_def by (rule uint_word_of_int)
  also have "\<dots> = n" using assms by simp
  finally show ?thesis by (metis nat_int of_nat_unat)
qed

lemma convert_numbers:
  "ConvertBNBHeaderToLorenzoBNBHeaders lib hs = Ok ls \<Longrightarrow>
     map lb_Number ls = map (\<lambda>h. Uint64 (the (Number h))) hs \<and> (\<forall>h \<in> set hs. Number h \<noteq> None)
     \<and> map lb_Hash ls = map (HeaderHash lib) hs \<and> map lb_ParentHash ls = map ParentHash hs"
  by (induction hs arbitrary: ls) (auto simp: thenOk_Ok_iff numberOf_Ok_iff)

text \<open>\<open>upload r hs sent\<close>: nothing, or one message with exactly the headers \<open>hs\<close>.\<close>

definition upload :: "'w bnb_reporter \<Rightarrow> bnb_header list \<Rightarrow> msg_upload_headers list \<Rightarrow> bool" where
  "upload r hs sent \<longleftrightarrow> sent = [] \<or>
     (\<exists>signer ls. ConvertBNBHeaderToLorenzoBNBHeaders (bnbLib r) hs = Ok ls
        \<and> sent = [\<lparr>up_Signer = signer, up_Headers = ls\<rparr>])"

lemma BNBUploadHeaders_log:
  assumes "BNBUploadHeaders (bnb_logging l) msg w = (out, w')"
  shows "snd w' = snd w @ (case out of Ok _ \<Rightarrow> [msg] | _ \<Rightarrow> [])"
  using assms by (auto simp: bnb_logging_def split: prod.splits outcome.splits)

lemma uploadHeaders_log:
  assumes obs: "bnb_observed r" and run: "uploadHeaders r hs s = (out, s')"
  shows "\<exists>sent. uploaded s' = uploaded s @ sent \<and> upload r hs sent
    \<and> (out = Ok () \<longleftrightarrow> sent \<noteq> []) \<and> lorenzoTip s' = lorenzoTip s"
proof (cases "ConvertBNBHeaderToLorenzoBNBHeaders (bnbLib r) hs")
  case conv: (Ok ls)
  obtain l where l: "bnbLorenzo r = bnb_logging l" using obs by (auto simp: bnb_observed_def)
  obtain o1 s1 where a: "ask (bnb_MustGetAddr (bnbLorenzo r)) s = (o1, s1)" by (metis surj_pair)
  have s1: "uploaded s1 = uploaded s" "lorenzoTip s1 = lorenzoTip s"
    using a ask_logged [of "bnb_MustGetAddr l"] lorenzoTip_ask by (auto simp: l bnb_logging_def)
  show ?thesis
  proof (cases o1)
    case signer: (Ok signer)
    let ?msg = "\<lparr>up_Signer = signer, up_Headers = ls\<rparr>"
    obtain o2 s2 where u: "ask (BNBUploadHeaders (bnbLorenzo r) ?msg) s1 = (o2, s2)" by (metis surj_pair)
    then obtain w where w: "BNBUploadHeaders (bnb_logging l) ?msg (bnbOutside s1) = (o2, w)"
      "s2 = s1\<lparr>bnbOutside := w\<rparr>"
      by (auto simp: l dest!: ask_OkD)
    then have s2: "uploaded s2 = uploaded s1 @ (case o2 of Ok _ \<Rightarrow> [?msg] | _ \<Rightarrow> [])"
      using BNBUploadHeaders_log [OF w(1)] by simp
    have "s' = s2" and "out = Ok () \<longleftrightarrow> (\<exists>n. o2 = Ok n)"
      using run conv a signer u by (cases o2; auto simp: uploadHeaders_def andThen_def)+
    then show ?thesis
      using s1 s2 conv lorenzoTip_ask [OF u]
      by (intro exI [of _ "case o2 of Ok _ \<Rightarrow> [?msg] | _ \<Rightarrow> []"]) (cases o2; auto simp: upload_def)
  qed (use run conv a s1 in \<open>auto simp: uploadHeaders_def andThen_def upload_def\<close>)
qed (use run in \<open>auto simp: uploadHeaders_def andThen_def upload_def\<close>)

lemma checkNext_state: "snd (checkNext r h s) = s"
  by (auto simp: checkNext_def andThen_def tipNumber_def tip_def split: option.splits outcome.splits)

lemma checkNext_Ok:
  assumes "checkNext r h s = (Ok u, s')" and "lorenzoTip s = Some t"
  shows "\<exists>n k. numberOf t = Ok n \<and> numberOf h = Ok (n + 1) \<and> ParentHash h = HeaderHash (bnbLib r) t"
  using assms
  by (auto simp: checkNext_def andThen_Ok_iff tipNumber_def tip_def split: option.splits if_splits)


lemma handleHeaders_log:
  assumes obs: "bnb_observed r" and run: "handleHeaders r hs s = (out, s')"
    and t: "lorenzoTip s = Some t" and ne: "hs \<noteq> []"
  shows "(out \<noteq> Ok () \<and> uploaded s' = uploaded s \<and> lorenzoTip s' = lorenzoTip s)
    \<or> (out = Ok () \<and> lorenzoTip s' = Some (last hs)
        \<and> (\<exists>sent. uploaded s' = uploaded s @ sent \<and> sent \<noteq> [] \<and> upload r hs sent)
        \<and> (\<exists>n. numberOf t = Ok n \<and> numberOf (hd hs) = Ok (n + 1))
        \<and> ParentHash (hd hs) = HeaderHash (bnbLib r) t)"
proof -
  let ?m = "andThen (checkNext r (hd hs)) (\<lambda>_. andThen (uploadHeaders r hs) (\<lambda>_. setTip (last hs)))"
  obtain o1 s1 where m: "?m s = (o1, s1)" by (metis surj_pair)
  have final: "s' = s1" "out = o1 \<or> (out = Panic NilDereference \<and> (Number (hd hs) = None \<or> Number (last hs) = None))"
    using run ne m by (cases o1; auto simp: handleHeaders_def deferredNumbers_def split: if_splits)+
  have chk: "snd (checkNext r (hd hs) s) = s" by (rule checkNext_state)
  show ?thesis
  proof (cases "\<exists>u. fst (checkNext r (hd hs) s) = Ok u")
    case False
    obtain o2 where c: "checkNext r (hd hs) s = (o2, s)" using chk by (metis surj_pair snd_conv)
    then have "s1 = s" "o1 \<noteq> Ok ()"
      using m False by (cases o2; simp add: andThen_def)+
    then show ?thesis using final by auto
  next
    case True
    then have ok: "checkNext r (hd hs) s = (Ok (), s)" using chk by (simp add: prod_eq_iff)
    obtain o2 s2 where u: "uploadHeaders r hs s = (o2, s2)" by (metis surj_pair)
    obtain sent where sent: "uploaded s2 = uploaded s @ sent" "upload r hs sent"
      "o2 = Ok () \<longleftrightarrow> sent \<noteq> []" "lorenzoTip s2 = lorenzoTip s"
      using uploadHeaders_log [OF obs u] by blast
    have m2: "andThen (uploadHeaders r hs) (\<lambda>_. setTip (last hs)) s = (o1, s1)"
      using m by (simp add: andThen_simps(1) [where m = "checkNext r (hd hs)", OF ok])
    show ?thesis
    proof (cases "o2 = Ok ()")
      case False
      then have "s1 = s2" "o1 \<noteq> Ok ()"
        using m2 u False by (cases o2; simp add: andThen_def)+
      then show ?thesis using final sent False by auto
    next
      case o2: True
      then have s1: "s1 = s2\<lparr>lorenzoTip := Some (last hs)\<rparr>" "o1 = Ok ()"
        using m2 u by (simp_all add: andThen_def setTip_def)
      obtain signer ls where ls: "ConvertBNBHeaderToLorenzoBNBHeaders (bnbLib r) hs = Ok ls"
        using sent(2,3) o2 by (auto simp: upload_def)
      then have "Number (hd hs) \<noteq> None" "Number (last hs) \<noteq> None"
        using convert_numbers [OF ls] ne by auto
      then have "out = Ok ()" using final(2) s1(2) by auto
      then show ?thesis
        using final(1) s1 sent o2 checkNext_Ok [OF ok t] by auto
    qed
  qed
qed

section \<open>One turn of the main loop\<close>

lemma nextRange_bounds:
  assumes "nextRange delay t b = Some (start, stop)" and room: "unat delay + unat t + 1 < 2 ^ 64"
  shows "unat start = unat t + 1" and "start \<le> stop" and "unat stop - unat start + 1 \<le> 100"
    and "unat stop + unat delay \<le> unat b"
proof -
  have t1: "unat (t + 1) = unat t + 1"
    using room by (intro unat_add_lem [THEN iffD1, THEN trans]) simp_all
  have dt: "unat (delay + t + 1) = unat delay + unat t + 1"
  proof -
    have "unat (delay + t) = unat delay + unat t" using room by (intro unat_add_lem [THEN iffD1]) simp
    then show ?thesis using room by (intro unat_add_lem [THEN iffD1, THEN trans]) simp_all
  qed
  have gt: "\<not> delay + t + 1 > b" using assms(1) by (auto simp: nextRange_def)
  then have b: "unat delay + unat t + 1 \<le> unat b" using dt by (simp only: not_less word_le_nat_alt)
  have eq: "t + 1 = start \<and> (if b - delay - (t + 1) + 1 > 100 then t + 1 + 100 - 1 else b - delay) = stop"
    by (rule assms(1) [unfolded nextRange_def Let_def FetchBNBHeaderBatchSize_def if_not_P [OF gt]
      option.inject prod.inject])
  note start = eq [THEN conjunct1, symmetric] and stop = eq [THEN conjunct2, symmetric]
  have last: "unat (b - delay) = unat b - unat delay"
    using b by (intro unat_sub) (simp add: word_le_nat_alt)
  have le: "t + 1 \<le> b - delay" using b last t1 by (simp add: word_le_nat_alt)
  have "unat (b - delay - (t + 1)) = unat b - unat delay - (unat t + 1)"
    using unat_sub [OF le] last t1 by simp
  then have len: "unat (b - delay - (t + 1) + 1) = unat b - unat delay - unat t"
    using b unat_less_u64 [of b] unat_plus1_u64 [of "b - delay - (t + 1)"] by linarith
  show "unat start = unat t + 1" using start t1 by simp
  have "unat stop = (if 100 < unat b - unat delay - unat t then unat t + 100 else unat b - unat delay)"
  proof (cases "100 < unat b - unat delay - unat t")
    case True
    have "t + 1 + 100 - 1 = t + 100" by simp
    moreover have "unat (t + 100) = unat t + unat (100 :: u64)"
    proof (rule unat_add_lem [THEN iffD1])
      have "unat t + 100 < 18446744073709551616" using True unat_less_u64 [of b] by linarith
      then show "unat t + unat (100 :: u64) < 2 ^ LENGTH(64)" by simp
    qed
    moreover have "stop = t + 1 + 100 - 1" using True len stop by (simp add: word_less_nat_alt)
    ultimately show ?thesis using True by (simp only: if_True) simp
  next
    case False
    then show ?thesis using len stop last by (simp add: word_less_nat_alt)
  qed
  then show "start \<le> stop" and "unat stop - unat start + 1 \<le> 100" and "unat stop + unat delay \<le> unat b"
    using b start t1 by (auto simp: word_le_nat_alt split: if_splits)
qed

text \<open>What the reporter relies on in its BNB client, which the implementation gives.\<close>

definition bnb_client_lawful :: "rlp_lib \<Rightarrow> 'w bnb_client \<Rightarrow> bool" where
  "bnb_client_lawful lib c \<longleftrightarrow>
     (\<forall>start stop w hs w'. RangeHeaders c start stop w = (Ok hs, w') \<longrightarrow>
        length hs = unat stop - unat start + 1 \<and> successively (bnb_linked lib) hs
        \<and> Number (hd hs) = Some (uint start) \<and> Number (last hs) = Some (uint stop))"

lemma bnb_client_of_lawful:
  "bnb_lawful lib num c \<Longrightarrow> bnb_client_lawful lib (bnb_client_of c)"
  unfolding bnb_client_lawful_def bnb_client_of_def
  by (auto dest: client_RangeHeaders_chain)

lemma bnb_watching_lawful: "bnb_client_lawful lib c \<Longrightarrow> bnb_client_lawful lib (bnb_watching c)"
  unfolding bnb_client_lawful_def
proof (intro allI impI, goal_cases)
  case (1 start stop w hs w')
  then have "\<exists>v'. RangeHeaders c start stop (fst w) = (Ok hs, v')"
    by (auto simp: bnb_watching_def logged_def split: prod.splits)
  then show ?case using 1(1) by blast
qed

lemma quiet_ask:
  assumes "bnb_observed r"
  shows "ask (LatestHeader (bnbClient r)) s = (x, s') \<Longrightarrow> uploaded s' = uploaded s"
    and "ask (RangeHeaders (bnbClient r) a b) s = (y, s') \<Longrightarrow> uploaded s' = uploaded s"
    and "ask (BNBLatestHeader (bnbLorenzo r)) s = (z, s') \<Longrightarrow> uploaded s' = uploaded s"
  using assms by (auto simp: bnb_observed_def bnb_watching_def bnb_logging_def dest: ask_logged)

text \<open>While Lorenzo knows a header, a bootstrap uploads nothing.\<close>

definition lorenzo_knows :: "'w bnb_reporter \<Rightarrow> bool" where
  "lorenzo_knows r \<longleftrightarrow>
     (\<forall>w e w'. BNBLatestHeader (bnbLorenzo r) w = (Err e, w') \<longrightarrow> \<not> isHeaderNotFound e)"

lemma boostrap_known:
  assumes obs: "bnb_observed r" and known: "lorenzo_knows r"
  shows "uploaded (snd (boostrap r s)) = uploaded s"
proof -
  obtain o1 s1 where a: "ask (BNBLatestHeader (bnbLorenzo r)) s = (o1, s1)" by (metis surj_pair)
  have s1: "uploaded s1 = uploaded s" using quiet_ask(3) [OF obs a] .
  have "\<not> isHeaderNotFound e" if "o1 = Err e" for e
    using known a that unfolding lorenzo_knows_def by (blast dest: ask_OkD)
  then show ?thesis
    using a s1 by (cases o1)
      (auto simp: boostrap_def boostrapRun.simps [of r s] andThen_def setTip_def split: outcome.split)
qed

text \<open>
  \<open>advance r t s' sent\<close>: one upload that continues the chain at \<open>t\<close>, of at most 100 headers
  that all were \<open>delayBlocks\<close> below the node's latest; its last header is the new tip.
\<close>

definition advance ::
  "'w bnb_reporter \<Rightarrow> bnb_header \<Rightarrow> 'w bnb_state \<Rightarrow> msg_upload_headers list \<Rightarrow> bool" where
  "advance r t s' sent \<longleftrightarrow> (\<exists>hs w latest w' k j.
     upload r hs sent \<and> hs \<noteq> [] \<and> length hs \<le> 100 \<and> successively (bnb_linked (bnbLib r)) (t # hs)
     \<and> lorenzoTip s' = Some (last hs)
     \<and> LatestHeader (bnbClient r) w = (Ok latest, w') \<and> numberOf latest = Ok k
     \<and> Number (last hs) = Some j \<and> j + uint (bnbDelayBlocks r) \<le> uint k)"

text \<open>The headers of the next range, once handled, are such an advance over the tip.\<close>

lemma range_advance:
  assumes t: "Number t = Some n" "0 \<le> n" "n + int (unat (bnbDelayBlocks r)) + 1 < 2 ^ 64"
    and range: "nextRange (bnbDelayBlocks r) (Uint64 n) k = Some (start, stop)"
    and latest: "LatestHeader (bnbClient r) w = (Ok latest, w')" "numberOf latest = Ok k"
    and hs: "length hs = unat stop - unat start + 1" "successively (bnb_linked (bnbLib r)) hs"
      "Number (hd hs) = Some (uint start)" "Number (last hs) = Some (uint stop)"
    and parent: "ParentHash (hd hs) = HeaderHash (bnbLib r) t"
    and "upload r hs sent" and "lorenzoTip s' = Some (last hs)"
  shows "advance r t s' sent"
proof -
  have ne: "hs \<noteq> []" using hs(1) by auto
  have "n < 2 ^ 64"
    using t(3) of_nat_0_le_iff [of "unat (bnbDelayBlocks r)", where ?'a = int] by linarith
  then have n: "unat (Uint64 n) = nat n" using t(2) by (intro unat_Uint64)
  have "int (unat (bnbDelayBlocks r) + nat n + 1) < int (2 ^ 64)" using t(2,3) by simp
  then have room: "unat (bnbDelayBlocks r) + unat (Uint64 n) + 1 < 2 ^ 64"
    unfolding n by (simp only: of_nat_less_iff)
  note b = nextRange_bounds [OF range room]
  have "int (unat start) = n + 1" using b(1) n t(2) by linarith
  then have "uint start = n + 1" by simp
  then have "bnb_linked (bnbLib r) t (hd hs)"
    using parent hs(3) t(1) by (simp add: bnb_linked_def)
  then have link: "successively (bnb_linked (bnbLib r)) (t # hs)"
    using hs(2) ne by (simp add: successively_Cons)
  have "int (unat stop) + int (unat (bnbDelayBlocks r)) \<le> int (unat k)" using b(4) by linarith
  then have "uint stop + uint (bnbDelayBlocks r) \<le> uint k" by simp
  then show ?thesis
    unfolding advance_def using assms(12,13) ne hs(1,4) b(3) link latest
    by (intro exI [of _ hs] exI [of _ w] exI [of _ latest] exI [of _ w'] exI [of _ k]
        exI [of _ "uint stop"]) simp
qed

lemma fetchAndHandle_log:
  assumes obs: "bnb_observed r" and known: "lorenzo_knows r"
    and client: "bnb_client_lawful (bnbLib r) (bnbClient r)"
    and t: "lorenzoTip s = Some t" "Number t = Some n" "0 \<le> n" "n + int (unat (bnbDelayBlocks r)) + 1 < 2 ^ 64"
    and range: "nextRange (bnbDelayBlocks r) (Uint64 n) k = Some (start, stop)"
    and latest: "LatestHeader (bnbClient r) w = (Ok latest, w')" "numberOf latest = Ok k"
  shows "\<exists>sent. uploaded (snd (fetchAndHandle r start stop s)) = uploaded s @ sent
    \<and> (sent = [] \<or> advance r t (snd (fetchAndHandle r start stop s)) sent)"
proof -
  let ?f = "fetchAndHandle r start stop s"
  obtain o1 s1 where a: "ask (RangeHeaders (bnbClient r) start stop) s = (o1, s1)" by (metis surj_pair)
  have s1: "uploaded s1 = uploaded s" "lorenzoTip s1 = Some t"
    using quiet_ask(2) [OF obs a] lorenzoTip_ask [OF a] t(1) by simp_all
  show ?thesis
  proof (cases o1)
    case o1: (Ok hs)
    have hs: "length hs = unat stop - unat start + 1" "successively (bnb_linked (bnbLib r)) hs"
      "Number (hd hs) = Some (uint start)" "Number (last hs) = Some (uint stop)"
      using client a o1 unfolding bnb_client_lawful_def by (blast dest: ask_OkD)+
    then have ne: "hs \<noteq> []" by auto
    obtain o2 s2 where h: "handleHeaders r hs s1 = (o2, s2)" by (metis surj_pair)
    from handleHeaders_log [OF obs h s1(2) ne] show ?thesis
    proof (elim disjE conjE exE)
      assume fail: "o2 \<noteq> Ok ()" "uploaded s2 = uploaded s1"
      have "uploaded (snd ?f) = uploaded s"
      proof (cases o2)
        case (Err e)
        then show ?thesis
          using a o1 h fail s1 boostrap_known [OF obs known, of s2]
          by (simp add: fetchAndHandle_def andThen_def)
      qed (use a o1 h fail s1 in \<open>simp_all add: fetchAndHandle_def andThen_def\<close>)
      then show ?thesis by simp
    next
      fix sent m
      assume ok: "o2 = Ok ()" and tip: "lorenzoTip s2 = Some (last hs)"
        and up: "uploaded s2 = uploaded s1 @ sent" "upload r hs sent"
        and parent: "ParentHash (hd hs) = HeaderHash (bnbLib r) t"
      have f: "snd ?f = s2\<lparr>lorenzoTip := Some (last hs)\<rparr>"
        using a o1 h ok ne by (simp add: fetchAndHandle_def andThen_def setTip_def)
      have "advance r t (snd ?f) sent"
        by (rule range_advance [OF t(2-4) range latest hs parent up(2)]) (simp add: f)
      then show ?thesis using up(1) s1 f by auto
    qed
  qed (use a s1 in \<open>auto simp: fetchAndHandle_def andThen_def\<close>)
qed

lemma mainIteration_log:
  assumes obs: "bnb_observed r" and known: "lorenzo_knows r"
    and client: "bnb_client_lawful (bnbLib r) (bnbClient r)"
    and t: "lorenzoTip s = Some t" "Number t = Some n" "0 \<le> n" "n + int (unat (bnbDelayBlocks r)) + 1 < 2 ^ 64"
  shows "\<exists>sent. uploaded (snd (mainIteration r s)) = uploaded s @ sent
    \<and> (sent = [] \<or> advance r t (snd (mainIteration r s)) sent)"
proof -
  obtain o1 s1 where a: "ask (LatestHeader (bnbClient r)) s = (o1, s1)" by (metis surj_pair)
  have s1: "uploaded s1 = uploaded s" "lorenzoTip s1 = Some t"
    using quiet_ask(1) [OF obs a] lorenzoTip_ask [OF a] t(1) by simp_all
  have tn: "tipNumber s1 = (Ok (Uint64 n), s1)"
    using s1(2) t(2) by (simp add: tipNumber_def andThen_def tip_def numberOf_def)
  show ?thesis
  proof (cases o1)
    case o1: (Ok latest)
    obtain w w' where latest: "LatestHeader (bnbClient r) w = (Ok latest, w')"
      using a o1 by (blast dest: ask_OkD)
    show ?thesis
    proof (cases "numberOf latest")
      case k: (Ok k)
      let ?range = "nextRange (bnbDelayBlocks r) (Uint64 n) k"
      have run: "snd (mainIteration r s) = snd ((case ?range of None \<Rightarrow> lift (Ok ())
          | Some (start, stop) \<Rightarrow> fetchAndHandle r start stop) s1)"
        using a o1 tn k by (simp add: mainIteration_def andThen_def)
      show ?thesis
      proof (cases ?range)
        case None
        then show ?thesis using run s1(1) by simp
      next
        case (Some p)
        then obtain start stop where p: "?range = Some (start, stop)" by (cases p) auto
        then show ?thesis
          using run s1(1) fetchAndHandle_log [OF obs known client s1(2) t(2-4) p latest k] by simp
      qed
    qed (use a o1 tn s1 in \<open>simp_all add: mainIteration_def andThen_def\<close>)
  qed (use a s1 in \<open>simp_all add: mainIteration_def andThen_def\<close>)
qed

section \<open>The first start\<close>

lemma boostrap_Ok_header:
  assumes "ask (BNBLatestHeader (bnbLorenzo r)) s = (Ok header, s1)"
    and "rlp_decode (bnbLib r) (RawHeader header) = Ok h"
  shows "boostrap r s = (Ok (), s1\<lparr>lorenzoTip := Some h\<rparr>)"
  using assms
  by (simp add: boostrap_def boostrapRun.simps [of r s] ConvertLorenzoBNBResponseToHeader_def
      andThen_def setTip_def)

text \<open>
  On a Lorenzo without a BNB header the bootstrap initialises it, bootstraps again, and then
  dereferences the nil response of its own first query.
\<close>

lemma boostrap_init_panics:
  assumes first: "ask (BNBLatestHeader (bnbLorenzo r)) s = (Err e, s1)" and e: "isHeaderNotFound e"
    and base: "uploadBaseHeader r s1 = (Ok u, s2)"
    and again: "ask (BNBLatestHeader (bnbLorenzo r)) s2 = (Ok header, s3)"
    and dec: "rlp_decode (bnbLib r) (RawHeader header) = Ok h"
  shows "boostrap r s = (Panic NilDereference, s3\<lparr>lorenzoTip := Some h\<rparr>)"
proof -
  have "boostrapRun r s2 = Some (Ok (), s3\<lparr>lorenzoTip := Some h\<rparr>)"
    using again dec by (simp add: boostrapRun.simps [of r s2] ConvertLorenzoBNBResponseToHeader_def
        andThen_def setTip_def)
  then show ?thesis
    using first e base
    by (simp add: boostrap_def boostrapRun.simps [of r s] ConvertLorenzoBNBResponseToHeader_def andThen_def)
qed

text \<open>Whatever happens after a first answer of not found, the bootstrap does not succeed.\<close>

lemma boostrap_not_found_never_Ok:
  assumes first: "ask (BNBLatestHeader (bnbLorenzo r)) s = (Err e, s1)" and e: "isHeaderNotFound e"
  shows "fst (boostrap r s) \<noteq> Ok ()"
proof -
  have no: "reraise out \<noteq> Ok ()" for out :: "unit outcome" by (cases out) auto
  obtain o2 s2 where b: "uploadBaseHeader r s1 = (o2, s2)" by (metis surj_pair)
  show ?thesis
  proof (cases o2)
    case (Ok u)
    have "andThen (lift out) (\<lambda>_. andThen (lift (ConvertLorenzoBNBResponseToHeader (bnbLib r) None))
        setTip) s3 \<noteq> (Ok (), s4)" for out :: "unit outcome" and s3 s4 :: "'a bnb_state"
      by (cases out) (simp_all add: andThen_def ConvertLorenzoBNBResponseToHeader_def)
    then show ?thesis
      using first e b Ok by (auto simp: boostrap_def boostrapRun.simps [of r s] split: option.split)
        (auto simp: bind_eq_Some_conv split: prod.splits)
  qed (use first e b in \<open>simp_all add: boostrap_def boostrapRun.simps [of r s]\<close>)
qed

text \<open>The wait for BNB ends with a node above the tip.\<close>

lemma WaitBNBCatchUp_done:
  assumes "ask (BlockNumber (bnbClient r)) s = (Ok k, s1)" and "lorenzoTip s = Some t"
    and "Number t = Some n" and "Uint64 n < k"
  shows "WaitBNBCatchUp r s = (Ok (), s1)"
  using assms lorenzoTip_ask [OF assms(1)]
  by (simp add: WaitBNBCatchUp_def andThen_def tipNumber_def tip_def numberOf_def)

end
