(* ===== verification/Bnb_Life.thy ===== *)
theory Bnb_Life
  imports Bnb_Reporter
begin

text \<open>
  The life cycle of the BNB reporter (\<^verbatim>\<open>bnbreporter/bnbrepoter.go\<close>): \<^verbatim>\<open>New\<close>, \<^verbatim>\<open>Start\<close>, \<^verbatim>\<open>Stop\<close>, and
  \<^verbatim>\<open>mainLoop\<close> with its quit channel. Unlike the Bitcoin reporter it has no flag that it was started.
\<close>

definition DefaultBNBDelayBlocks :: u64 where "DefaultBNBDelayBlocks = 15"

record bnb_life =
  bnbQuit :: bool
  mainLoops :: nat

text \<open>\<open>dial\<close> is \<^verbatim>\<open>bnbclient.New\<close>, which opens the connections.\<close>

definition BNBNew ::
  "('w, 'w bnb_client) action \<Rightarrow> rlp_lib \<Rightarrow> 'w bnb_lorenzo_client \<Rightarrow> u64 \<Rightarrow> u64
    \<Rightarrow> ('w, 'w bnb_reporter \<times> bnb_life) action" where
  "BNBNew dial lib lorenzo delayBlocks baseHeight =
     andThen dial (\<lambda>client.
     lift (Ok (\<lparr>bnbDelayBlocks = (if delayBlocks = 0 then DefaultBNBDelayBlocks else delayBlocks),
                cfg_BaseHeight = baseHeight, bnbLorenzo = lorenzo, bnbClient = client, bnbLib = lib\<rparr>,
               \<lparr>bnbQuit = False, mainLoops = 0\<rparr>)))"

text \<open>\<open>catchUp\<close> is \<^verbatim>\<open>WaitLorenzoCatchUp\<close>, whose steps have their own theory.\<close>

definition BNBStart ::
  "('w bnb_state, unit) action \<Rightarrow> 'w bnb_reporter \<Rightarrow> (bnb_life \<times> 'w bnb_state, unit) action" where
  "BNBStart catchUp r st =
     (if bnbQuit (fst st) then (Ok (), st)
      else case andThen (orPanic (boostrap r)) (\<lambda>_.
                andThen (orPanic catchUp) (\<lambda>_. orPanic (WaitBNBCatchUp r))) (snd st) of
          (Ok _, s) \<Rightarrow> (Ok (), ((fst st)\<lparr>mainLoops := mainLoops (fst st) + 1\<rparr>, s))
        | (e, s) \<Rightarrow> (e, (fst st, s)))"

definition BNBStop :: "bnb_life \<Rightarrow> bnb_life" where
  "BNBStop l = l\<lparr>bnbQuit := True\<rparr>"

text \<open>\<^verbatim>\<open>mainLoop\<close>: a turn for every time the quit channel is found open.\<close>

partial_function (option) bnb_mainLoop ::
  "('w \<Rightarrow> bool \<times> 'w) \<Rightarrow> 'w bnb_reporter \<Rightarrow> 'w bnb_state \<Rightarrow> (unit outcome \<times> 'w bnb_state) option" where
  "bnb_mainLoop quit r s =
     (if fst (quit (bnbOutside s)) then Some (Ok (), s\<lparr>bnbOutside := snd (quit (bnbOutside s))\<rparr>)
      else case mainIteration r (s\<lparr>bnbOutside := snd (quit (bnbOutside s))\<rparr>) of
          (Ok _, s') \<Rightarrow> bnb_mainLoop quit r s'
        | (e, s') \<Rightarrow> Some (e, s'))"

text \<open>A stopped reporter does not start, and stopping it again changes nothing.\<close>

lemma BNBStart_stopped: "BNBStart catchUp r (BNBStop l, s) = (Ok (), (BNBStop l, s))"
  by (simp add: BNBStart_def BNBStop_def)

lemma BNBStop_idempotent: "BNBStop (BNBStop l) = BNBStop l"
  by (simp add: BNBStop_def)

text \<open>Nothing but a panic or a quit ends the loop.\<close>

lemma orPanic_not_Err: "orPanic m s = (e, s') \<Longrightarrow> e \<noteq> Err x"
  using orPanic_never_Err [of m s] by auto

lemma mainIteration_never_Err: "fst (mainIteration r s) \<noteq> Err e"
  by (auto simp: mainIteration_def logErr_def split: prod.split outcome.split)

lemma bnb_mainLoop_ends:
  assumes "bnb_mainLoop quit r s = Some res"
  shows "(fst res = Ok () \<and> (\<exists>w. fst (quit w))) \<or> (\<exists>p. fst res = Panic p) \<or> fst res = Hang"
  using assms
proof (rule bnb_mainLoop.raw_induct
    [where P = "\<lambda>quit r s res. (fst res = Ok () \<and> (\<exists>w. fst (quit w))) \<or> (\<exists>p. fst res = Panic p) \<or> fst res = Hang",
     rotated])
  fix loop :: "('a \<Rightarrow> bool \<times> 'a) \<Rightarrow> 'a bnb_reporter \<Rightarrow> 'a bnb_state \<Rightarrow> (unit outcome \<times> 'a bnb_state) option"
    and quit :: "'a \<Rightarrow> bool \<times> 'a" and r :: "'a bnb_reporter" and s :: "'a bnb_state" and res
  let ?s = "s\<lparr>bnbOutside := snd (quit (bnbOutside s))\<rparr>"
  assume IH: "\<And>quit r s res. loop quit r s = Some res \<Longrightarrow>
      (fst res = Ok () \<and> (\<exists>w. fst (quit w))) \<or> (\<exists>p. fst res = Panic p) \<or> fst res = Hang"
    and eq: "(if fst (quit (bnbOutside s)) then Some (Ok (), ?s)
      else case mainIteration r ?s of (Ok _, s') \<Rightarrow> loop quit r s' | (e, s') \<Rightarrow> Some (e, s')) = Some res"
  obtain o1 s1 where it: "mainIteration r ?s = (o1, s1)" by fastforce
  have "\<forall>e. o1 \<noteq> Err e" using mainIteration_never_Err [of r ?s] unfolding it by simp
  then show "(fst res = Ok () \<and> (\<exists>w. fst (quit w))) \<or> (\<exists>p. fst res = Panic p) \<or> fst res = Hang"
    using eq [unfolded it] IH by (cases o1) (auto split: if_splits)
qed

end
