(* ===== verification/Commands.thy ===== *)
theory Commands
  imports Logger Subscriber Interrupts Catch_Up_Runs Bnb_Life
begin

text \<open>
  The two commands (\<^verbatim>\<open>cmd/lrzrelayer/cmd/reporter.go\<close>, \<^verbatim>\<open>cmd/lrzrelayer/cmd/bnbreporter.go\<close>) up to the
  wait for an interrupt, with the interrupt handlers they register. Flags, cobra and the Lorenzo SDK's constructor are parameters.
\<close>

section \<open>The reporter's command\<close>

record ('w, 'l) command_env =
  configEnv :: "('w, 'l) config_env"
  dialEnv :: "('w, 'l) dial_env"
  setKeyDirectory :: "string \<Rightarrow> 'l \<Rightarrow> 'l"
  lorenzoNew :: "'l \<Rightarrow> ('w, 'w lorenzo_client) action"

definition loadReporterConfig :: "('w, 'l) config_env \<Rightarrow> string \<Rightarrow> ('w, 'l config) action" where
  "loadReporterConfig env cfgFile =
     andThen (orPanic (wrapErr ''failed to load config'' (config_New env cfgFile))) (\<lambda>cfg.
     andThen (orPanic (wrapErr ''invalid config in reporter'' (lift (ReporterConfig_Validate (Reporter cfg))))) (\<lambda>_.
     andThen (orPanic (wrapErr ''invalid config in btc'' (lift (BTCConfig_Validate (BTC cfg))))) (\<lambda>_.
     lift (Ok cfg))))"

definition prepareReporter ::
  "('w, 'l) command_env \<Rightarrow> string \<Rightarrow> string
    \<Rightarrow> ('w, 'l config \<times> 'w btc_handle \<times> 'w lorenzo_client) action" where
  "prepareReporter env cfgFile lorenzoKeyDir =
     andThen (loadReporterConfig (configEnv env) cfgFile) (\<lambda>cfg0.
     andThen (orPanic (wrapErr ''failed to create logger'' (lift (CreateLogger cfg0)))) (\<lambda>_.
     let cfg = (if length lorenzoKeyDir \<noteq> 0
                then cfg0\<lparr>Lorenzo := setKeyDirectory env lorenzoKeyDir (Lorenzo cfg0)\<rparr> else cfg0) in
     andThen (orPanic (wrapErr ''failed to open BTC client'' (NewWithBlockSubscriber (dialEnv env) (BTC cfg)))) (\<lambda>handle.
     andThen (orPanic (wrapErr ''failed to open Lorenzo client'' (lorenzoNew env (Lorenzo cfg)))) (\<lambda>lorenzo.
     lift (Ok (cfg, handle, lorenzo))))))"

text \<open>The reporter that is made of a configuration, on clients that were opened.\<close>

definition reporterOf ::
  "reporter_config \<Rightarrow> 'w btc_client \<Rightarrow> 'w lorenzo_client
    \<Rightarrow> (('w \<times> bool option, unit) action \<Rightarrow> ('w \<times> bool option, unit) action) \<Rightarrow> header_funs \<Rightarrow> 'w
    \<Rightarrow> 'w reporter \<times> 'w reporter_state \<times> reporter_life" where
  "reporterOf cfg btc lorenzo retry hf w =
     NewReporter (BTCCacheSize cfg) (MaxHeadersInMsg cfg) (RepDelayBlocks cfg) btc lorenzo retry hf
       NewReporterMetrics w"

lemma loadReporterConfig_Ok:
  assumes "loadReporterConfig env file w = (Ok cfg, w')"
  shows "CommonConfig_Validate (Common cfg) = Ok ()" and "ReporterConfig_Validate (Reporter cfg) = Ok ()"
    and "BTCConfig_Validate (BTC cfg) = Ok ()"
proof -
  from assms obtain w1 where new: "config_New env file w = (Ok cfg, w1)"
    and *: "ReporterConfig_Validate (Reporter cfg) = Ok ()" "BTCConfig_Validate (BTC cfg) = Ok ()"
    by (auto simp: loadReporterConfig_def outcome_Ok_iffs)
  show "CommonConfig_Validate (Common cfg) = Ok ()" by (rule config_New_Ok(2) [OF new])
  show "ReporterConfig_Validate (Reporter cfg) = Ok ()" and "BTCConfig_Validate (BTC cfg) = Ok ()"
    by (fact *)+
qed

lemma ReporterConfig_ValidateD:
  assumes "ReporterConfig_Validate cfg = Ok ()"
  shows "GetValidNetParams (RepNetParams cfg) \<noteq> None" and "1000 \<le> unat (BTCCacheSize cfg)"
    and "100 \<le> unat (MaxHeadersInMsg cfg)"
proof -
  have "GetValidNetParams (RepNetParams cfg) \<noteq> None" "\<not> BTCCacheSize cfg < 1000" "\<not> MaxHeadersInMsg cfg < 100"
    using assms
    by (auto simp: ReporterConfig_Validate_def minBTCCacheSize_def maxHeadersInMsg_def split: if_splits)
  then show "GetValidNetParams (RepNetParams cfg) \<noteq> None" and "1000 \<le> unat (BTCCacheSize cfg)"
    and "100 \<le> unat (MaxHeadersInMsg cfg)"
    by (simp_all add: word_less_nat_alt not_less)
qed

section \<open>Its shutdown\<close>

text \<open>
  The part of the program the two interrupt handlers change: the life of the reporter, the event
  channel of the Bitcoin client, and whether its RPC client was shut down, after which that client
  answers requests with an error. Waiting for the reporter's goroutines ends when all of them return,
  which \<open>allReturn\<close> says of the state at the stop.
\<close>

record running =
  life :: reporter_life
  events :: event_chan
  rpcDown :: bool

definition stopReporter :: "(running \<Rightarrow> bool) \<Rightarrow> (running, unit) action" where
  "stopReporter allReturn s =
     (let s' = s\<lparr>life := Stop (life s)\<rparr> in
      if allReturn s' then (Ok (), s'\<lparr>life := (life s')\<lparr>handlers := 0\<rparr>\<rparr>) else (Hang, s'))"

text \<open>\<^verbatim>\<open>c.Shutdown()\<close> of the embedded RPC client, then the closing of the channel, which is not nil here.\<close>

definition shutdownRpc :: "(running, unit) action" where
  "shutdownRpc s = (Ok (), s\<lparr>rpcDown := True\<rparr>)"

definition closeEvents :: "(running, unit) action" where
  "closeEvents s = (case closeChan (events s) of (r, ch) \<Rightarrow> (r, s\<lparr>events := ch\<rparr>))"

definition stopBtcClient :: "(running, unit) action" where
  "stopBtcClient = andThen shutdownRpc (\<lambda>_. closeEvents)"

definition reporterHandlers :: "(running \<Rightarrow> bool) \<Rightarrow> (running, unit) action list" where
  "reporterHandlers allReturn = [stopReporter allReturn, stopBtcClient]"

section \<open>The command as a whole\<close>

text \<open>
  What the parts of the program outside these theories decide: the retry loops of Lorenzo's package and
  of retry-go, the subscription over ZMQ, the header functions, and the scheduling of the catch-up.
\<close>

record 'w externals =
  webSocketRetry :: "('w, unit) action \<Rightarrow> ('w, unit) action"
  zmqSubscribe :: "('w, unit) action"
  lorenzoRetry :: "('w \<times> bool option, unit) action \<Rightarrow> ('w \<times> bool option, unit) action"
  btcHeaderFuns :: header_funs
  catchUpRun :: "'w reporter \<Rightarrow> ('w reporter_state, unit) action"
  bootRetry :: "'w boot_retry"

text \<open>
  The command of the reporter up to its wait for an interrupt: it ends with the reporter started and
  the two interrupt handlers registered. \<open>ch\<close> is the event channel as it is then. A client without a
  connection fails at its first query.
\<close>

definition reporterCommand ::
  "('w, 'l) command_env \<Rightarrow> 'w externals \<Rightarrow> (running \<Rightarrow> bool) \<Rightarrow> event_chan \<Rightarrow> string \<Rightarrow> string
    \<Rightarrow> ('w, 'w reporter \<times> 'w reporter_state \<times> running interrupts) action" where
  "reporterCommand env ext allReturn ch cfgFile lorenzoKeyDir =
     andThen (prepareReporter env cfgFile lorenzoKeyDir) (\<lambda>(cfg, handle, lorenzo) w.
     case rpc handle of
       None \<Rightarrow> (Panic NilDereference, w)
     | Some c \<Rightarrow>
         (case reporterOf (Reporter cfg)
                (client_of (BtcBackend (Cfg handle)) (webSocketRetry ext) (zmqSubscribe ext) c)
                lorenzo (lorenzoRetry ext) (btcHeaderFuns ext) w of
            (r, s0, l0) \<Rightarrow>
              (case Start (catchUpRun ext r) (bootRetry ext) r (l0, s0) of
                 (Ok _, (l, s)) \<Rightarrow>
                   (case registerAll (reporterHandlers allReturn) (noInterrupts \<lparr>life = l, events = ch, rpcDown = False\<rparr>) of
                      Some i \<Rightarrow> (Ok (r, s, i), outside s)
                    | None \<Rightarrow> (Hang, outside s))
               | (e, (l, s)) \<Rightarrow> (reraise e, outside s))))"

text \<open>Nothing but the node, the retries and the scheduling is assumed of what is outside.\<close>

definition externals_lawful ::
  "('w, 'l) command_env \<Rightarrow> 'w externals \<Rightarrow> (hash \<Rightarrow> int) \<Rightarrow> ('w \<Rightarrow> bool) \<Rightarrow> bool" where
  "externals_lawful env ext hgt quit \<longleftrightarrow>
     (\<forall>conn w c w'. rpcNew (dialEnv env) conn w = (Ok c, w') \<longrightarrow> node_lawful (btcHeaderFuns ext) hgt c)
     \<and> boot_retry_lawful (bootRetry ext) \<and> (\<forall>r. schedules quit r (catchUpRun ext r))"

lemma NewWithBlockSubscriber_dialled:
  assumes "NewWithBlockSubscriber env cfg w = (Ok h, w')" and "rpc h = Some c"
  shows "\<exists>conn w1 w2. rpcNew env conn w1 = (Ok c, w2)"
  using assms
  by (auto simp: NewWithBlockSubscriber_def connect_def outcome_Ok_iffs split: if_splits) blast+

lemma prepareReporter_Ok:
  assumes "prepareReporter env file keyDir w = (Ok (cfg, h, lorenzo), w')"
  shows "ReporterConfig_Validate (Reporter cfg) = Ok ()" and "BTCConfig_Validate (BTC cfg) = Ok ()"
    and "\<exists>w1 w2. NewWithBlockSubscriber (dialEnv env) (BTC cfg) w1 = (Ok h, w2)"
    and "\<exists>w1 w2. lorenzoNew env (Lorenzo cfg) w1 = (Ok lorenzo, w2)"
proof -
  let ?key = "\<lambda>c. if length keyDir \<noteq> 0 then c\<lparr>Lorenzo := setKeyDirectory env keyDir (Lorenzo c)\<rparr> else c"
  obtain cfg0 w0 where load: "loadReporterConfig (configEnv env) file w = (Ok cfg0, w0)" and cfg: "cfg = ?key cfg0"
    and new: "\<exists>w1 w2. NewWithBlockSubscriber (dialEnv env) (BTC (?key cfg0)) w1 = (Ok h, w2)"
      "\<exists>w1 w2. lorenzoNew env (Lorenzo (?key cfg0)) w1 = (Ok lorenzo, w2)"
    using assms by (auto simp: prepareReporter_def Let_def outcome_Ok_iffs)
  show "ReporterConfig_Validate (Reporter cfg) = Ok ()" and "BTCConfig_Validate (BTC cfg) = Ok ()"
    and "\<exists>w1 w2. NewWithBlockSubscriber (dialEnv env) (BTC cfg) w1 = (Ok h, w2)"
    and "\<exists>w1 w2. lorenzoNew env (Lorenzo cfg) w1 = (Ok lorenzo, w2)"
    using loadReporterConfig_Ok [OF load] new by (auto simp: cfg)
qed

text \<open>What the command made when it waits.\<close>

lemma reporterCommand_made:
  assumes run: "reporterCommand env ext allReturn ch file keyDir w = (Ok (r, s, i), w')"
  obtains cfg h lorenzo c w1 s0 l0 started l where "prepareReporter env file keyDir w = (Ok (cfg, h, lorenzo), w1)"
    and "\<exists>conn w2 w3. rpcNew (dialEnv env) conn w2 = (Ok c, w3)"
    and "reporterOf (Reporter cfg) (client_of (BtcBackend (Cfg h)) (webSocketRetry ext) (zmqSubscribe ext) c)
      lorenzo (lorenzoRetry ext) (btcHeaderFuns ext) w1 = (r, s0, l0)"
    and "Start (catchUpRun ext r) (bootRetry ext) r (l0, s0) = (Ok started, (l, s))"
    and "registerAll (reporterHandlers allReturn) (noInterrupts \<lparr>life = l, events = ch, rpcDown = False\<rparr>) = Some i"
proof -
  obtain cfg h lorenzo w1 where prep: "prepareReporter env file keyDir w = (Ok (cfg, h, lorenzo), w1)"
    using run by (auto simp: reporterCommand_def andThen_Ok_iff)
  obtain c where c: "rpc h = Some c"
    using run prep by (cases "rpc h") (simp_all add: reporterCommand_def andThen_def)
  obtain r1 s0 l0 where r1: "reporterOf (Reporter cfg)
      (client_of (BtcBackend (Cfg h)) (webSocketRetry ext) (zmqSubscribe ext) c) lorenzo (lorenzoRetry ext)
      (btcHeaderFuns ext) w1 = (r1, s0, l0)" by (metis prod_cases3)
  obtain o1 l s1 where start1: "Start (catchUpRun ext r1) (bootRetry ext) r1 (l0, s0) = (o1, (l, s1))"
    by (metis prod_cases3)
  obtain started where o1: "o1 = Ok started"
    using run prep c r1 start1 by (cases o1) (simp_all add: reporterCommand_def andThen_def)
  have same: "r1 = r" "s1 = s"
    and reg: "registerAll (reporterHandlers allReturn) (noInterrupts \<lparr>life = l, events = ch, rpcDown = False\<rparr>) = Some i"
    using run prep c r1 start1 o1 by (auto simp: reporterCommand_def andThen_def split: option.splits)
  obtain wa wb where "NewWithBlockSubscriber (dialEnv env) (BTC cfg) wa = (Ok h, wb)"
    using prepareReporter_Ok(3) [OF prep] by blast
  from that [OF prep NewWithBlockSubscriber_dialled [OF this c] r1 [unfolded same]
      start1 [unfolded same o1] reg] show thesis .
qed

lemma reporterCommand_Ok:
  assumes run: "reporterCommand env ext allReturn ch file keyDir w = (Ok (r, s, i), w')"
    and law: "externals_lawful env ext hgt quit"
  shows "client_lawful (headerFuns r) hgt (btcClient r)" and "depths_ok r" and "reporter_inv r hgt s"
    and "100 \<le> unat (cfg_MaxHeadersInMsg r)" and "1000 \<le> unat (cfg_BTCCacheSize r)"
    and "registerAll (reporterHandlers allReturn) (noInterrupts (program i)) = Some i"
    and "program i = \<lparr>life = \<lparr>quitClosed = False, started = True, handlers = 1\<rparr>, events = ch, rpcDown = False\<rparr>"
proof -
  obtain cfg h lorenzo c w1 s0 l0 started l where
    prep: "prepareReporter env file keyDir w = (Ok (cfg, h, lorenzo), w1)"
    and dialled: "\<exists>conn w2 w3. rpcNew (dialEnv env) conn w2 = (Ok c, w3)"
    and r: "reporterOf (Reporter cfg) (client_of (BtcBackend (Cfg h)) (webSocketRetry ext) (zmqSubscribe ext) c)
      lorenzo (lorenzoRetry ext) (btcHeaderFuns ext) w1 = (r, s0, l0)"
    and start: "Start (catchUpRun ext r) (bootRetry ext) r (l0, s0) = (Ok started, (l, s))"
    and reg: "registerAll (reporterHandlers allReturn) (noInterrupts \<lparr>life = l, events = ch, rpcDown = False\<rparr>) = Some i"
    by (rule reporterCommand_made [OF run])
  note d = ReporterConfig_ValidateD [OF prepareReporter_Ok(1) [OF prep]]
  note new = NewReporter_inv [OF r [unfolded reporterOf_def]]
  from dialled law have "node_lawful (btcHeaderFuns ext) hgt c"
    unfolding externals_lawful_def by blast
  then show cl: "client_lawful (headerFuns r) hgt (btcClient r)" using client_of_lawful new by simp
  show "depths_ok r" by (rule new(2))
  have "boot_retry_lawful (bootRetry ext)" and "schedules quit r (catchUpRun ext r)"
    using law by (simp_all add: externals_lawful_def)
  then show "reporter_inv r hgt s" using Start_inv [OF _ cl new(2) _ new(1) start] by blast
  have f: "cfg_MaxHeadersInMsg r = MaxHeadersInMsg (Reporter cfg)" "cfg_BTCCacheSize r = BTCCacheSize (Reporter cfg)"
    using r by (auto simp: reporterOf_def NewReporter_def)
  show "100 \<le> unat (cfg_MaxHeadersInMsg r)" and "1000 \<le> unat (cfg_BTCCacheSize r)" using d f by simp_all
  have "program i = \<lparr>life = l, events = ch, rpcDown = False\<rparr>"
    using reg registerAll_from [of "noInterrupts \<lparr>life = l, events = ch, rpcDown = False\<rparr>" "reporterHandlers allReturn"]
    by (auto simp: noInterrupts_def split: if_splits)
  then show "registerAll (reporterHandlers allReturn) (noInterrupts (program i)) = Some i"
    and "program i = \<lparr>life = \<lparr>quitClosed = False, started = True, handlers = 1\<rparr>, events = ch, rpcDown = False\<rparr>"
    using reg Start_new [OF start [unfolded new(5)]] by simp_all
qed

section \<open>The BNB reporter's command\<close>

definition loadBNBConfig :: "('w, 'l) config_env \<Rightarrow> string \<Rightarrow> ('w, 'l config) action" where
  "loadBNBConfig env cfgFile =
     andThen (orPanic (config_New env cfgFile)) (\<lambda>cfg.
     andThen (orPanic (wrapErr ''invalid config in bnbreporter'' (lift (BNBReporterConfig_Validate (BNBReporter cfg))))) (\<lambda>_.
     andThen (orPanic (wrapErr ''failed to create logger'' (lift (CreateLogger cfg)))) (\<lambda>_.
     lift (Ok cfg))))"

definition bnbReporterAction ::
  "('w, 'l) config_env \<Rightarrow> ('l \<Rightarrow> ('w, 'w bnb_lorenzo_client) action)
    \<Rightarrow> (string \<Rightarrow> ('w, ('w, u64) action) action) \<Rightarrow> (string \<Rightarrow> ('w, 'w bnb_rpc) action) \<Rightarrow> rlp_lib \<Rightarrow> string \<Rightarrow> ('w, 'w bnb_reporter \<times> bnb_life) action" where
  "bnbReporterAction env newLorenzo ethDial rpcDial lib cfgFile =
     andThen (loadBNBConfig env cfgFile) (\<lambda>cfg.
     andThen (orPanic (wrapErr ''failed to open Lorenzo client'' (newLorenzo (Lorenzo cfg)))) (\<lambda>lorenzo.
     orPanic (wrapErr ''failed to create BNB reporter''
       (BNBNew (bnbclient_New ethDial rpcDial (RpcUrl (BNBReporter cfg))) lib lorenzo
          (BnbDelayBlocks (BNBReporter cfg)) (BaseHeight (BNBReporter cfg))))))"

text \<open>The validation makes the default of \<^verbatim>\<open>New\<close> for a delay of 0 unreachable.\<close>

lemma bnbReporterAction_delay:
  assumes "bnbReporterAction env newLorenzo ethDial rpcDial lib file w = (Ok (r, l), w')"
  obtains cfg w1 where "config_New env file w = (Ok cfg, w1)"
    and "bnbDelayBlocks r = BnbDelayBlocks (BNBReporter cfg)" and "bnbDelayBlocks r \<noteq> 0"
    and "cfg_BaseHeight r = BaseHeight (BNBReporter cfg)" and "cfg_BaseHeight r \<noteq> 0"
proof -
  from assms obtain cfg w1 w2 where load: "loadBNBConfig env file w = (Ok cfg, w2)"
    and r: "bnbDelayBlocks r = (if BnbDelayBlocks (BNBReporter cfg) = 0 then DefaultBNBDelayBlocks
        else BnbDelayBlocks (BNBReporter cfg))" "cfg_BaseHeight r = BaseHeight (BNBReporter cfg)"
    by (auto simp: bnbReporterAction_def outcome_Ok_iffs BNBNew_def)
  from load obtain w1 where new: "config_New env file w = (Ok cfg, w1)"
    and v: "BNBReporterConfig_Validate (BNBReporter cfg) = Ok ()"
    by (auto simp: loadBNBConfig_def outcome_Ok_iffs)
  have nz: "BnbDelayBlocks (BNBReporter cfg) \<noteq> 0" "BaseHeight (BNBReporter cfg) \<noteq> 0"
    using v by (auto simp: BNBReporterConfig_Validate_def split: if_splits)
  show thesis by (rule that [OF new]) (simp_all add: r nz)
qed

text \<open>
  The rest of the command: the start, the one interrupt handler and the wait. \<open>catchUp\<close> is
  \<^verbatim>\<open>WaitLorenzoCatchUp\<close> under some scheduling; \<open>allReturn\<close> says that the main loop returns after the stop.
\<close>

definition stopBNBReporter :: "(bnb_life \<Rightarrow> bool) \<Rightarrow> (bnb_life, unit) action" where
  "stopBNBReporter allReturn l =
     (let l' = BNBStop l in
      if allReturn l' then (Ok (), l'\<lparr>mainLoops := 0\<rparr>) else (Hang, l'))"

definition bnbReporterCommand ::
  "('w, 'l) config_env \<Rightarrow> ('l \<Rightarrow> ('w, 'w bnb_lorenzo_client) action)
    \<Rightarrow> (string \<Rightarrow> ('w, ('w, u64) action) action) \<Rightarrow> (string \<Rightarrow> ('w, 'w bnb_rpc) action) \<Rightarrow> rlp_lib
    \<Rightarrow> ('w bnb_reporter \<Rightarrow> ('w bnb_state, unit) action) \<Rightarrow> (bnb_life \<Rightarrow> bool) \<Rightarrow> string
    \<Rightarrow> ('w, 'w bnb_reporter \<times> 'w bnb_state \<times> bnb_life interrupts) action" where
  "bnbReporterCommand env newLorenzo ethDial rpcDial lib catchUp allReturn cfgFile =
     andThen (bnbReporterAction env newLorenzo ethDial rpcDial lib cfgFile) (\<lambda>(r, l0) w.
     case BNBStart (catchUp r) r (l0, \<lparr>lorenzoTip = None, bnbOutside = w\<rparr>) of
       (Ok _, (l, s)) \<Rightarrow>
         (case registerAll [stopBNBReporter allReturn] (noInterrupts l) of
            Some i \<Rightarrow> (Ok (r, s, i), bnbOutside s)
          | None \<Rightarrow> (Hang, bnbOutside s))
     | (e, (l, s)) \<Rightarrow> (reraise e, bnbOutside s))"

text \<open>
  A command that gets so far runs one main loop; an interrupt stops it when the loop returns, and the
  channel that the command waits for is closed.
\<close>

lemma bnbReporterCommand_Ok:
  assumes "bnbReporterCommand env newLorenzo ethDial rpcDial lib catchUp allReturn file w = (Ok (r, s, i), w')"
  shows "program i = \<lparr>bnbQuit = False, mainLoops = 1\<rparr>"
    and "allReturn \<lparr>bnbQuit = True, mainLoops = 1\<rparr> \<Longrightarrow> \<exists>i'. onInterrupt i = (Ok (), i') \<and> handlersDone i'
      \<and> program i' = \<lparr>bnbQuit = True, mainLoops = 0\<rparr>"
proof -
  from assms obtain l0 w1 where act: "bnbReporterAction env newLorenzo ethDial rpcDial lib file w = (Ok (r, l0), w1)"
    and rest: "(case BNBStart (catchUp r) r (l0, \<lparr>lorenzoTip = None, bnbOutside = w1\<rparr>) of
       (Ok _, (l, s)) \<Rightarrow>
         (case registerAll [stopBNBReporter allReturn] (noInterrupts l) of
            Some i \<Rightarrow> (Ok (r, s, i), bnbOutside s)
          | None \<Rightarrow> (Hang, bnbOutside s))
     | (e, (l, s)) \<Rightarrow> (reraise e, bnbOutside s)) = (Ok (r, s, i), w')"
    by (fastforce simp: bnbReporterCommand_def andThen_Ok_iff split: prod.splits outcome.splits option.splits elim: reraise.elims)
  have l0: "l0 = \<lparr>bnbQuit = False, mainLoops = 0\<rparr>"
    using act by (auto simp: bnbReporterAction_def outcome_Ok_iffs BNBNew_def)
  obtain l s1 where start: "BNBStart (catchUp r) r (l0, \<lparr>lorenzoTip = None, bnbOutside = w1\<rparr>) = (Ok (), (l, s1))"
    and reg: "registerAll [stopBNBReporter allReturn] (noInterrupts l) = Some i"
    using rest by (auto split: prod.splits outcome.splits option.splits elim: reraise.elims)
  have l: "l = \<lparr>bnbQuit = False, mainLoops = 1\<rparr>"
    using start by (auto simp: BNBStart_def l0 split: prod.splits outcome.splits)
  have i: "i = (noInterrupts l)\<lparr>mainStarted := True, interruptCallbacks := [stopBNBReporter allReturn]\<rparr>"
    using reg by (simp add: addInterruptHandler_def noInterrupts_def Let_def)
  show "program i = \<lparr>bnbQuit = False, mainLoops = 1\<rparr>" by (simp add: i noInterrupts_def l)
  show "\<exists>i'. onInterrupt i = (Ok (), i') \<and> handlersDone i' \<and> program i' = \<lparr>bnbQuit = True, mainLoops = 0\<rparr>"
    if "allReturn \<lparr>bnbQuit = True, mainLoops = 1\<rparr>"
    using that by (simp add: onInterrupt_def invokeCallbacks_def callbackLoop_reverse i noInterrupts_def l
        stopBNBReporter_def BNBStop_def andThen_def)
qed

end
