(* ===== verification/Metrics_Server.thy ===== *)
theory Metrics_Server
  imports Logger
begin

text \<open>
  The metrics server (\<^verbatim>\<open>metrics/prometheus.go\<close>): a goroutine that registers two more collectors in the
  reporter's registry, serves it over HTTP, and ends the process when the server returns. The
  Prometheus registry and the HTTP server are a parameter, acting on a state \<open>'g\<close> of their own.
\<close>

datatype collector = BuildInfoCollector | GoCollector string

text \<open>
  \<^verbatim>\<open>MustRegister\<close> panics when the collector clashes with a registered one, \<^verbatim>\<open>http.Handle\<close> when the pattern
  is taken; \<^verbatim>\<open>ListenAndServe\<close> serves for ever (\<open>Hang\<close>) or returns an error, which is never nil.
\<close>

record 'g metrics_env =
  MustRegister :: "collector \<Rightarrow> ('g, unit) action"
  http_Handle :: "string \<Rightarrow> ('g, unit) action"
  ListenAndServe :: "string \<Rightarrow> ('g, go_error) action"

text \<open>\<open>Ok e\<close> says that the server returned \<open>e\<close> and \<^verbatim>\<open>log.Fatal\<close> ends the process with status 1.\<close>

definition metrics_start :: "'g metrics_env \<Rightarrow> string \<Rightarrow> ('g, go_error) action" where
  "metrics_start env addr =
     andThen (MustRegister env BuildInfoCollector) (\<lambda>_.
     andThen (MustRegister env (GoCollector ''/.*'')) (\<lambda>_.
     andThen (http_Handle env ''/metrics'') (\<lambda>_.
     andThen (orPanic (lift (NewRootLogger ''auto'' ''debug''))) (\<lambda>_.
     ListenAndServe env addr))))"

text \<open>The address \<^verbatim>\<open>fmt.Sprintf("%s:%d", cfg.Metrics.Host, cfg.Metrics.ServerPort)\<close>.\<close>

fun decimal :: "nat \<Rightarrow> string" where
  "decimal n = (if n < 10 then [char_of (48 + n)] else decimal (n div 10) @ [char_of (48 + n mod 10)])"

declare decimal.simps [simp del]

definition metricsAddr :: "metrics_config \<Rightarrow> string" where
  "metricsAddr cfg =
     Host cfg @ '':'' @ (if sint (ServerPort cfg) < 0 then ''-'' else '''') @ decimal (nat \<bar>sint (ServerPort cfg)\<bar>)"

text \<open>The default address; the logger of the server is always made, and shows every level.\<close>

lemma metricsAddr_default: "metricsAddr DefaultMetricsConfig = ''0.0.0.0:2112''"
  by code_simp

lemma metrics_logger: "\<exists>lg. NewRootLogger ''auto'' ''debug'' = Ok lg \<and> writes lg l"
  by (cases l) (simp_all add: NewRootLogger_def encoderOf_def levelOf_def writes_def less_eq_log_level_def)

text \<open>Nothing but the registry, the pattern and the server can go wrong.\<close>

lemma metrics_start_server:
  assumes "MustRegister env BuildInfoCollector g = (Ok (), g1)"
    and "MustRegister env (GoCollector ''/.*'') g1 = (Ok (), g2)"
    and "http_Handle env ''/metrics'' g2 = (Ok (), g3)"
  shows "metrics_start env addr g = ListenAndServe env addr g3"
  using assms metrics_logger
  by (auto simp: metrics_start_def andThen_def orPanic_def split: outcome.splits)

end
