(* ===== verification/Submissions.thy ===== *)
theory Submissions
  imports Catch_Up_Runs
begin

text \<open>
  What the Bitcoin reporter has made Lorenzo accept at any point of its life: the log is a sequence of
  deliveries, each a part of one chain of the node's blocks. Every method of the reporter, whatever
  its outcome, extends the log by deliveries only.
\<close>

section \<open>Deliveries\<close>

text \<open>
  \<open>delivery r hgt sent\<close>: the messages carry, in order, a part of a chain of blocks of the Bitcoin node,
  which starts at a block Lorenzo reported missing.
\<close>

definition on_chain :: "'w reporter \<Rightarrow> (hash \<Rightarrow> int) \<Rightarrow> indexed_block list \<Rightarrow> bool" where
  "on_chain r hgt bs \<longleftrightarrow> chain (hashOf r) bs \<and> (\<forall>b \<in> set bs. on_node (headerFuns r) hgt b)"

definition delivery ::
  "'w reporter \<Rightarrow> (hash \<Rightarrow> int) \<Rightarrow> msg_insert_headers list \<Rightarrow> bool" where
  "delivery r hgt sent \<longleftrightarrow> (\<exists>bs. on_chain r hgt bs
     \<and> headersIn sent = map (hf_Encode (headerFuns r) \<circ> Header) bs
     \<and> (bs \<noteq> [] \<longrightarrow> reported r (hd bs) False)
     \<and> (\<forall>m \<in> set sent. Headers m \<noteq> [] \<and> length (Headers m) \<le> unat (cfg_MaxHeadersInMsg r)))"

definition deliveries ::
  "'w reporter \<Rightarrow> (hash \<Rightarrow> int) \<Rightarrow> msg_insert_headers list \<Rightarrow> bool" where
  "deliveries r hgt log \<longleftrightarrow> (\<exists>ds. log = concat ds \<and> list_all (delivery r hgt) ds)"

lemma on_chain_appendD: "on_chain r hgt (as @ bs) \<Longrightarrow> on_chain r hgt as \<and> on_chain r hgt bs"
  by (auto simp: on_chain_def chain_append_iff)

lemma submission_delivery:
  assumes "submission r signer whole hs sent" and "on_chain r hgt hs"
  shows "delivery r hgt sent"
  using assms on_chain_appendD unfolding submission_def delivery_def by metis

lemma deliveries_Nil: "deliveries r hgt []"
  unfolding deliveries_def by (intro exI [of _ "[]"]) simp

lemma deliveries_append: "deliveries r hgt log \<Longrightarrow> deliveries r hgt log' \<Longrightarrow> deliveries r hgt (log @ log')"
  unfolding deliveries_def by (metis concat_append list_all_append)

lemma deliveries_one: "delivery r hgt sent \<Longrightarrow> deliveries r hgt sent"
  unfolding deliveries_def by (intro exI [of _ "[sent]"]) simp

lemma deliveries_concat: "list_all (delivery r hgt) ds \<Longrightarrow> deliveries r hgt (concat ds)"
  unfolding deliveries_def by blast

text \<open>Every message by itself is not empty and within the bound.\<close>

lemma deliveries_messages:
  assumes "deliveries r hgt log" and "m \<in> set log"
  shows "Headers m \<noteq> [] \<and> length (Headers m) \<le> unat (cfg_MaxHeadersInMsg r)"
proof -
  obtain ds d where "list_all (delivery r hgt) ds" and "d \<in> set ds" and "m \<in> set d"
    using assms by (auto simp: deliveries_def)
  then show ?thesis unfolding list_all_iff delivery_def by blast
qed

section \<open>The invariant with the log\<close>

definition submits_inv ::
  "('w \<times> msg_insert_headers list) reporter \<Rightarrow> (hash \<Rightarrow> int)
    \<Rightarrow> ('w \<times> msg_insert_headers list) reporter_state \<Rightarrow> bool" where
  "submits_inv r hgt s \<longleftrightarrow> reporter_inv r hgt s \<and> deliveries r hgt (accepted s)"

lemma submits_inv_same:
  "submits_inv r hgt s \<Longrightarrow> core s' = core s \<Longrightarrow> accepted s' = accepted s \<Longrightarrow> submits_inv r hgt s'"
  using reporter_inv_core unfolding submits_inv_def by metis

lemma submits_inv_quiet: "quiet m \<Longrightarrow> submits_inv r hgt s \<Longrightarrow> submits_inv r hgt (snd (m s))"
  by (rule submits_inv_same) (simp_all add: quiet_def)

lemma submits_inv_silent:
  "silent m \<Longrightarrow> submits_inv r hgt s \<Longrightarrow> reporter_inv r hgt (snd (m s)) \<Longrightarrow> submits_inv r hgt (snd (m s))"
  by (simp add: submits_inv_def silent_def)

lemma cache_on_chain:
  "reporter_inv r hgt s \<Longrightarrow> btcCache s = Some c \<Longrightarrow> on_chain r hgt (blocks c)"
  by (simp add: reporter_inv_def cache_good_def on_chain_def)

lemma ProcessHeaders_submits:
  assumes "observed r" and "on_chain r hgt ibs" and "submits_inv r hgt s"
  shows "submits_inv r hgt (snd (ProcessHeaders r signer ibs s))"
proof -
  obtain l where "retry_lawful (retryDo r)" and l: "lorenzoClient r = logging l"
    using assms(1) by (auto simp: observed_def)
  from ProcessHeaders_log [OF this prod.collapse [symmetric]] obtain sent whole where
    "accepted (snd (ProcessHeaders r signer ibs s)) = accepted s @ sent" "submission r signer whole ibs sent"
    by blast
  then show ?thesis
    using assms(2,3) submission_delivery deliveries_append deliveries_one reporter_inv_core [OF core_ProcessHeaders]
    unfolding submits_inv_def by metis
qed

text \<open>
  A Bitcoin client over a connection that does not touch the log does not touch it either: this is the
  client of \<^verbatim>\<open>btcclient\<close> in an observed reporter.
\<close>

definition connection_aside :: "('w \<times> 'm list) rpc_client \<Rightarrow> bool" where
  "connection_aside c \<longleftrightarrow> keeps_log (GetBestBlockHash c) \<and> (\<forall>h. keeps_log (GetBlockVerbose c h))
     \<and> (\<forall>h. keeps_log (GetBlock c h)) \<and> (\<forall>h. keeps_log (GetBlockHash c h)) \<and> keeps_log (NotifyBlocks c)"

lemma connection_asideD [log_keeping]:
  assumes "connection_aside c"
  shows "keeps_log (GetBestBlockHash c)" "keeps_log (GetBlockVerbose c h)" "keeps_log (GetBlock c h)"
    "keeps_log (GetBlockHash c v)" "keeps_log (NotifyBlocks c)"
  using assms by (simp_all add: connection_aside_def)

lemma byHash_keeps_log [log_keeping]: "connection_aside c \<Longrightarrow> keeps_log (client_GetBlockByHash c h)"
  unfolding client_GetBlockByHash_def by (intro log_keeping)

lemma chainLoop_keeps_log: "connection_aside c \<Longrightarrow> keeps_log (chainLoop c n h bs)"
proof (induction n arbitrary: h bs)
  case 0
  then show ?case by (simp add: keeps_log_def)
next
  case (Suc n)
  have "chainLoop c (Suc n) h bs = andThen (wrapErr ''failed to get block by hash'' (client_GetBlockByHash c h))
      (\<lambda>(ib, mb). chainLoop c n (PrevBlock (mb_Header mb)) (ib # bs))" by (rule ext) simp
  then show ?case using Suc by (auto intro!: log_keeping split: prod.split)
qed

lemma client_of_aside:
  assumes c: "connection_aside c" and "keeps_log sub" and "\<And>m. keeps_log m \<Longrightarrow> keeps_log (retry m)"
  shows "aside (client_of backend retry sub c)"
proof -
  have blocks: "keeps_log (getChainBlocks c base tip)" for base tip
    unfolding getChainBlocks_def Let_def using chainLoop_keeps_log [OF c] by (auto intro: log_keeping)
  have "keeps_log (client_FindTailBlocksByHeight c base)" for base
    unfolding client_FindTailBlocksByHeight_def getBestIndexedBlock_def split_def
    using blocks by (auto intro!: log_keeping c)
  moreover have "keeps_log (client_GetBlockByHeight c h)" for h
    unfolding client_GetBlockByHeight_def by (intro log_keeping c)
  then have "keeps_log (client_GetBlockByHeight c h)" "keeps_log (client_FindRangeBlocksByHeight c a h)" for a h
    unfolding client_FindRangeBlocksByHeight_def split_def using blocks by (auto intro!: log_keeping)
  moreover have "keeps_log (client_MustSubscribeBlocks backend retry sub c)"
    unfolding client_MustSubscribeBlocks_def mustSubscribeBlocksByWebSocket_def mustSubscribeBlocksByZmq_def
    using assms by (auto intro!: log_keeping)
  moreover have "keeps_log (client_GetBestBlock c)"
    unfolding client_GetBestBlock_def by (intro log_keeping c)
  ultimately show ?thesis using byHash_keeps_log [OF c] by (simp add: aside_def client_of_def)
qed

section \<open>Block events\<close>

lemma handleEvent_submits:
  assumes obs: "observed r" and law: "client_lawful (headerFuns r) hgt (btcClient r)"
    and inv: "submits_inv r hgt s"
  shows "submits_inv r hgt (snd (handleEvent r event s))"
proof -
  let ?s' = "snd (handleEvent r event s)"
  have good: "reporter_inv r hgt ?s'" using handleEvent_inv [OF law] inv by (simp add: submits_inv_def)
  have "\<exists>sent. accepted ?s' = accepted s @ sent \<and> (sent = [] \<or> delivery r hgt sent)"
  proof (cases "EventType event")
    case BlockConnected
    obtain sent where sent: "sends r s ?s' sent"
      using handleConnectedBlocks_sends [OF obs, of s event] BlockConnected by (auto simp: handleEvent_def)
    have "delivery r hgt sent" if "btcCache ?s' = Some c" "blocks c = pre @ hs" "submission r signer whole hs sent"
      for c pre hs signer whole
    proof (rule submission_delivery [OF that(3)])
      have "on_chain r hgt (pre @ hs)" using cache_on_chain [OF good that(1)] by (simp add: that(2))
      then show "on_chain r hgt hs" using on_chain_appendD by blast
    qed
    then show ?thesis using sent unfolding sends_def by blast
  qed (simp_all add: handleEvent_def handleDisconnectedBlocks_accepted)
  then show ?thesis
    using good inv deliveries_append deliveries_one unfolding submits_inv_def by (metis append_Nil2)
qed

section \<open>The bootstrap\<close>

lemma dropDelayed_on_chain:
  assumes "GetLastBlocks h c = Ok tail" and "dropDelayed d tail = Ok ibs" and "on_chain r hgt (blocks c)"
  shows "on_chain r hgt ibs"
proof -
  obtain pre where "blocks c = pre @ tail" using GetLastBlocks_suffix [OF assms(1)] by blast
  moreover obtain n where "ibs = take n tail"
    using assms(2) by (auto simp: dropDelayed_def Let_def split: if_splits)
  ultimately have "blocks c = pre @ ibs @ drop n tail" by simp
  then show ?thesis using assms(3) on_chain_appendD by metis
qed

lemma quiet_checkConsistency: "observed r \<Longrightarrow> quiet (checkConsistency r)"
  using checkConsistency_silent by (simp add: quiet_def silent_def)

lemma syncHeaders_submits:
  assumes obs: "observed r" and inv: "submits_inv r hgt s"
  shows "submits_inv r hgt (snd (syncHeaders r s))"
proof -
  let ?P = "submits_inv r hgt"
  show ?thesis
    unfolding syncHeaders_def
  proof (intro andThen_inv [where P = ?P], goal_cases)
    case 1
    show ?case by (rule submits_inv_quiet [OF quiet_checkConsistency [OF obs] inv])
  next
    case (3 info s1 tail s2)
    then show ?case using submits_inv_quiet [OF quiet_lorenzo(3) [OF obs]] by blast
  next
    case (5 info s1 tail s2 signer s3 ibs s4)
    obtain c where "btcCache s2 = Some c" and last: "GetLastBlocks (startSyncHeight info) c = Ok tail"
      using 5(3) by (auto simp: orPanic_Ok_iff readCache_Ok_iff)
    then have "on_chain r hgt (blocks c)" using cache_on_chain 5(4) unfolding submits_inv_def by blast
    with last have "on_chain r hgt ibs" using 5(7) by (auto intro: dropDelayed_on_chain)
    then show ?case using ProcessHeaders_submits [OF obs] 5(8) by blast
  qed simp_all
qed

lemma bootstrap_submits:
  assumes obs: "observed r" and law: "client_lawful (headerFuns r) hgt (btcClient r)" and d: "depths_ok r"
    and inv: "submits_inv r hgt s"
  shows "submits_inv r hgt (snd (bootstrap r skip s))"
proof -
  let ?P = "submits_inv r hgt" and ?s = "s\<lparr>reorgList := clear (reorgList s)\<rparr>"
  have "reporter_inv r hgt ?s" using inv by (simp add: submits_inv_def reporter_inv_def)
  then have start: "?P (snd (waitUntilBTCSync r ?s))"
    using inv waitUntilBTCSync_silent [OF obs]
    by (simp add: submits_inv_def silent_def reporter_inv_core [OF core_waitUntilBTCSync])
  have trim: "?P (snd (resizeAndTrim r t))" if "?P t" for t
    using that resizeAndTrim_inv [OF d] by (intro submits_inv_silent resizeAndTrim_silent) (auto simp: submits_inv_def)
  have fill: "?P (snd (initBTCCache r t))" if "?P t" for t
    using that initBTCCache_inv [OF law] initBTCCache_silent [OF obs]
    by (intro submits_inv_silent) (auto simp: submits_inv_def)
  have sub: "?P (snd ((if \<not> skip then call (MustSubscribeBlocks (btcClient r)) else lift (Ok ())) t))" if "?P t" for t
    using that submits_inv_quiet [OF quiet_btc(5) [OF obs]] by simp
  show ?thesis
    unfolding bootstrap_def
    by (intro andThen_inv [where P = ?P] start fill sub trim syncHeaders_submits [OF obs])
qed

lemma bootstrapWithRetries_submits:
  assumes "boot_retry_lawful R" and "observed r" and "client_lawful (headerFuns r) hgt (btcClient r)"
    and "depths_ok r" and "submits_inv r hgt s"
  shows "submits_inv r hgt (snd (bootstrapWithRetries R r skip s))"
  unfolding snd_bootstrapWithRetries
  by (rule boot_retry_inv [where P = "submits_inv r hgt", OF assms(1,5)]) (rule bootstrap_submits [OF assms(2-4)])

section \<open>The catch-up and the start\<close>

lemma takeBatch_submits:
  assumes obs: "observed r" and ibs: "fetched r hgt ibs" and inv: "submits_inv r hgt (rep k)"
  shows "submits_inv r hgt (rep (takeBatch r signer ibs k))"
proof -
  have "submits_inv r hgt (snd (ProcessHeaders r signer ibs (rep k)))"
    using ProcessHeaders_submits [OF obs _ inv] ibs by (simp add: fetched_def on_chain_def)
  then show ?thesis using inv by (auto simp: takeBatch_def split: prod.splits outcome.splits)
qed

lemma catchup_step_submits:
  assumes obs: "observed r" and law: "client_lawful (headerFuns r) hgt (btcClient r)"
    and "catchup_step quit r signer stop k k'" and up: "catchup_inv r hgt signer tip log k"
    and inv: "submits_inv r hgt (rep k)"
  shows "submits_inv r hgt (rep k')"
proof -
  have fetch: "submits_inv r hgt s"
    if "call (FindRangeBlocksByHeight (btcClient r) a b) (rep k) = (out, s)" for a b out s
    by (rule submits_inv_same [OF inv]) (rule range_call(2,1) [OF obs law that])+
  show ?thesis
    using assms(3)
  proof cases
    case (receive ibs rest)
    then have "fetched r hgt ibs" using up by (simp add: catchup_inv_def pending_def)
    then show ?thesis using receive takeBatch_submits [OF obs] inv by simp
  qed (use inv fetch in auto)
qed

lemma catchup_runs_submits:
  assumes "observed r" and "client_lawful (headerFuns r) hgt (btcClient r)"
    and "catchup_reaches quit r signer stop (catchupStart (AtLoop h) tip s) k" and "submits_inv r hgt s"
  shows "submits_inv r hgt (rep k)"
proof -
  let ?I = "catchup_inv r hgt signer tip (accepted s)" and ?Q = "\<lambda>k. submits_inv r hgt (rep k)"
  have "?I k \<and> ?Q k"
    by (rule catchup_runs.keeps_under [where I = ?I and Q = ?Q, OF assms(3)])
      (auto intro: catchup_inv_start catchup_step_inv [OF assms(1,2)] catchup_step_submits [OF assms(1,2)],
        simp add: catchupStart_def assms(4))
  then show ?thesis by blast
qed

lemma startCatchUp_submits:
  assumes "observed r" and "submits_inv r hgt s"
  shows "submits_inv r hgt (snd (startCatchUp r s))"
  by (rule submits_inv_same [OF assms(2) core_startCatchUp])
    (use startCatchUp_silent [OF assms(1)] in \<open>simp add: silent_def\<close>)

lemma catchUpOutcome_submits:
  assumes obs: "observed r" and law: "client_lawful (headerFuns r) hgt (btcClient r)"
    and run: "catchUpOutcome quit r s out s'" and inv: "submits_inv r hgt s"
  shows "submits_inv r hgt s'"
  using run
proof cases
  case (loops signer stop f tip s1 k)
  have "submits_inv r hgt s1" using startCatchUp_submits [OF obs inv] loops(2) by simp
  then show ?thesis
    using catchup_runs_submits [OF obs law] startCatchUp_Inr [OF loops(2)] loops(1,3) by blast
qed (use startCatchUp_submits [OF obs inv] in simp_all)

text \<open>A start that returns: the catch-up, under some scheduling, and the bootstrap with its retries.\<close>

lemma Start_submits:
  assumes R: "boot_retry_lawful R" and obs: "observed r"
    and law: "client_lawful (headerFuns r) hgt (btcClient r)" and d: "depths_ok r"
    and sched: "schedules quit r catchUp" and inv: "submits_inv r hgt s"
    and run: "Start catchUp R r (l, s) = (Ok b, (l', s'))"
  shows "submits_inv r hgt s'"
proof -
  obtain o1 s1 where addr: "call (MustGetAddr (lorenzoClient r)) s = (o1, s1)" by (metis surj_pair)
  then have inv1: "submits_inv r hgt s1"
    using submits_inv_quiet [OF quiet_lorenzo(3) [OF obs] inv] by simp
  have "submits_inv r hgt t" if up: "andThen (orPanic catchUp) (\<lambda>_. bootstrapWithRetries R r False) s1 = (Ok u, t)"
    for u t
  proof -
    obtain v s2 where c: "catchUp s1 = (Ok v, s2)" and boot: "bootstrapWithRetries R r False s2 = (Ok u, t)"
      using up by (auto simp: andThen_Ok_iff orPanic_Ok_iff)
    have "catchUpOutcome quit r s1 (Ok v) s2" using sched c unfolding schedules_def by (metis fst_conv snd_conv outcome.distinct(5))
    then have "submits_inv r hgt s2" by (rule catchUpOutcome_submits [OF obs law _ inv1])
    then show ?thesis using bootstrapWithRetries_submits [OF R obs law d, of s2 False] boot by simp
  qed
  then show ?thesis
    using run inv1 addr
    by (auto simp: Start_def split: outcome.splits option.splits bool.splits prod.splits elim: reraise.elims)
qed

section \<open>The event loop\<close>

lemma matureLoop_submits:
  assumes obs: "observed r" and q: "\<And>w. snd (snd (quit w)) = snd w"
    and run: "matureLoop quit r ev s = Some (out, s')"
  shows "accepted s' = accepted s"
proof -
  have best: "accepted t = accepted s"
    if "call (GetBestBlock (btcClient r)) (s\<lparr>outside := snd (quit (outside s))\<rparr>) = (o1, t)"
    for s t :: "('a \<times> msg_insert_headers list) reporter_state" and o1
  proof -
    let ?s = "s\<lparr>outside := snd (quit (outside s))\<rparr>"
    have "accepted (snd (call (GetBestBlock (btcClient r)) ?s)) = accepted ?s"
      using silent_calls(2) [OF obs] unfolding silent_def by blast
    then show ?thesis using that q by simp
  qed
  show ?thesis
    using run
  proof (rule matureLoop_induct [where Q = "\<lambda>s out s'. accepted s' = accepted s"])
    show "accepted s' = accepted s"
      if "call (GetBestBlock (btcClient r)) (s\<lparr>outside := snd (quit (outside s))\<rparr>) = (o1, s1)"
        and "accepted s' = accepted s1" for s o1 s1 out s'
      using best [OF that(1)] that(2) by simp
  qed (use q best in auto)
qed

lemma onEvent_submits:
  assumes R: "boot_retry_lawful R" and obs: "observed r"
    and law: "client_lawful (headerFuns r) hgt (btcClient r)" and d: "depths_ok r"
    and q: "\<And>w. snd (snd (quit w)) = snd w" and inv: "submits_inv r hgt s"
  shows "submits_inv r hgt (snd (onEvent quit R r received s))"
proof (rule onEvent_keeps [where P = "submits_inv r hgt", OF inv])
  show "submits_inv r hgt s'" if "matureLoop quit r received s = Some (out, s')" for out s'
    by (rule submits_inv_same [OF inv core_matureLoop [OF that] matureLoop_submits [OF obs q that]])
qed (rule handleEvent_submits [OF obs law] bootstrapWithRetries_submits [OF R obs law d], assumption)+

end
