(* ===== verification/Exits.thy ===== *)
theory Exits
  imports Event_Loop
begin

text \<open>
  What may end the process with status 1: the logger's \<^verbatim>\<open>Fatalf\<close> in \<^verbatim>\<open>bootstrapWithRetries\<close> and, as long as
  the libraries leave the process alone, nothing else in the event handler.
\<close>

definition mild :: "'a outcome \<Rightarrow> bool" where
  "mild out \<longleftrightarrow> (\<forall>e. out \<noteq> Panic (LogFatal e))"

lemma mild_simps [simp]:
  "mild (Ok x)" "mild (Err e)" "mild Hang" "mild (Panic p) \<longleftrightarrow> (\<forall>e. p \<noteq> LogFatal e)"
  by (auto simp: mild_def)

lemma mild_reraise: "mild out \<Longrightarrow> mild (reraise out)"
  by (cases out) simp_all

definition spares :: "('s, 'a) action \<Rightarrow> bool" where
  "spares m \<longleftrightarrow> (\<forall>s. mild (fst (m s)))"

named_theorems sparing_intros \<open>actions that do not exit\<close>

lemma sparesD: "spares m \<Longrightarrow> m s = (out, s') \<Longrightarrow> mild out"
  unfolding spares_def by (metis fst_conv)

lemma spares_no_exit: "spares m \<Longrightarrow> m s = (Panic (LogFatal e), s') \<Longrightarrow> False"
  using sparesD by force

lemma spares_andThen [sparing_intros]:
  assumes "spares m" and "\<And>x. spares (f x)"
  shows "spares (andThen m f)"
  unfolding spares_def
proof
  fix s
  obtain out s' where "m s = (out, s')" by (metis surj_pair)
  then show "mild (fst (andThen m f s))"
    using sparesD [OF assms(1), of s] assms(2) by (cases out) (simp_all add: andThen_def spares_def)
qed

lemma spares_lift [sparing_intros]: "mild out \<Longrightarrow> spares (lift out)"
  by (simp add: spares_def lift_def)

lemma spares_call [sparing_intros]: "spares m \<Longrightarrow> spares (call m)"
  by (auto simp: spares_def call_def split: prod.split) (metis fst_conv)

lemma spares_wraps [sparing_intros]: "spares m \<Longrightarrow> spares (orPanic m)" "spares m \<Longrightarrow> spares (wrapErr msg m)"
  by (auto simp: spares_def orPanic_def wrapErr_def split: prod.split outcome.split) (metis fst_conv mild_def)+

lemma spares_cache [sparing_intros]:
  "(\<And>c. mild (f c)) \<Longrightarrow> spares (readCache f)" "(\<And>c. mild (g c)) \<Longrightarrow> spares (onCache g)"
  by (auto simp: spares_def readCache_def onCache_def split: option.split outcome.split)
    (metis mild_simps(4))

section \<open>The cache\<close>

lemma mild_find_loop:
  assumes "find_loop bs h l r = Some out"
  shows "mild out"
proof (rule find_loop.raw_induct [where P = "\<lambda>bs h l r out. mild out", OF _ assms])
  fix f :: "indexed_block list \<Rightarrow> i32 \<Rightarrow> u64 \<Rightarrow> u64 \<Rightarrow> indexed_block option outcome option" and bs h l r out
  assume "\<And>bs h l r out. f bs h l r = Some out \<Longrightarrow> mild out"
  moreover assume "(if l \<le> r
      then (let midPoint = l + (r - l) div 2 in
            if length bs \<le> unat midPoint then Some (Panic IndexOutOfRange)
            else if Height (bs ! unat midPoint) = h then Some (Ok (Some (bs ! unat midPoint)))
            else if sint h < ht (bs ! unat midPoint) then f bs h l (midPoint - 1)
            else f bs h (midPoint + 1) r)
      else Some (Ok None)) = Some out"
  ultimately show "mild out" by (auto simp: Let_def split: if_splits)
qed

lemma mild_cache [simp]:
  "mild (FindBlock h c)" "mild (GetLastBlocks h c)" "mild (add ib c)" "mild (Add ib c)" "mild (RemoveLast c)"
  "mild (Resize n c)" "mild (Trim c)"
  by (auto simp: FindBlock_def GetLastBlocks_def add_def Add_def RemoveLast_def Resize_def Trim_def Let_def
      split: option.split dest: mild_find_loop)

lemma mild_add_all [simp]: "mild (add_all ibs c)"
  by (induction ibs arbitrary: c) (auto simp: thenOk_def add_def split: outcome.split)

lemma mild_Init [simp]: "mild (Init ibs c)"
  by (simp add: Init_def)

section \<open>Submission\<close>

text \<open>The clients and the retries around their calls leave the process alone.\<close>

definition sparing_client :: "'w btc_client \<Rightarrow> bool" where
  "sparing_client b \<longleftrightarrow> spares (GetBestBlock b) \<and> (\<forall>h. spares (GetBlockByHash b h))
     \<and> (\<forall>h. spares (GetBlockByHeight b h)) \<and> (\<forall>h. spares (FindTailBlocksByHeight b h))"

definition sparing_lorenzo :: "'w lorenzo_client \<Rightarrow> bool" where
  "sparing_lorenzo l \<longleftrightarrow> spares (MustGetAddr l) \<and> (\<forall>msg. spares (InsertHeaders l msg))
     \<and> (\<forall>h. spares (ContainsBTCBlock l h)) \<and> spares (BTCHeaderChainTip l) \<and> spares (BTCBaseHeader l)"

definition sparing :: "'w reporter \<Rightarrow> bool" where
  "sparing r \<longleftrightarrow> sparing_client (btcClient r) \<and> sparing_lorenzo (lorenzoClient r)
     \<and> (\<forall>f. spares f \<longrightarrow> spares (retryDo r f))"

lemma sparingD [sparing_intros]:
  assumes "sparing r"
  shows "spares (GetBestBlock (btcClient r))" "spares (GetBlockByHash (btcClient r) h)"
    "spares (GetBlockByHeight (btcClient r) k)" "spares (FindTailBlocksByHeight (btcClient r) k)"
    "spares (MustGetAddr (lorenzoClient r))" "spares (BTCHeaderChainTip (lorenzoClient r))"
    "spares (BTCBaseHeader (lorenzoClient r))" "spares (ContainsBTCBlock (lorenzoClient r) h)"
  using assms by (simp_all add: sparing_def sparing_client_def sparing_lorenzo_def)

lemma sparing_attempts:
  assumes "sparing r"
  shows "spares (retryDo r (containsAttempt (lorenzoClient r) h))"
    and "spares (retryDo r (insertAttempt (lorenzoClient r) msg))"
proof -
  have retry: "spares f \<Longrightarrow> spares (retryDo r f)" for f using assms by (simp add: sparing_def)
  have a: "spares (ContainsBTCBlock (lorenzoClient r) h)" "spares (InsertHeaders (lorenzoClient r) msg)"
    using assms by (simp_all add: sparing_def sparing_lorenzo_def)
  show "spares (retryDo r (containsAttempt (lorenzoClient r) h))"
    by (rule retry) (auto simp: spares_def containsAttempt_def split: prod.split outcome.split dest: spares_no_exit [OF a(1)])
  show "spares (retryDo r (insertAttempt (lorenzoClient r) msg))"
    by (rule retry) (auto simp: spares_def insertAttempt_def split: prod.split outcome.split dest: spares_no_exit [OF a(2)])
qed

lemma spares_findStart [sparing_intros]:
  assumes "sparing r"
  shows "spares (findStart r i ibs)"
  unfolding spares_def
proof
  show "mild (fst (findStart r i ibs w))" for w
  proof (induction ibs arbitrary: i w)
    case (Cons ib ibs)
    let ?f = "containsAttempt (lorenzoClient r) (BlockHash (hf_BlockHash (headerFuns r)) ib)"
    obtain out w1 v where res: "retryDo r ?f (w, None) = (out, (w1, v))" by (metis surj_pair)
    then have "mild out" using sparesD [OF sparing_attempts(1) [OF assms]] by blast
    then show ?case using Cons.IH res by (cases out; cases v) (simp_all split: bool.split)
  qed simp
qed

lemma spares_submitHeaderMsgs [sparing_intros]:
  assumes "sparing r"
  shows "spares (submitHeaderMsgs r msg)"
  by (auto simp: spares_def submitHeaderMsgs_def split: prod.split outcome.split
      dest: spares_no_exit [OF sparing_attempts(2) [OF assms]])

lemma spares_submitLoop [sparing_intros]:
  assumes "sparing r"
  shows "spares (submitLoop r n msgs)"
proof (induction msgs arbitrary: n)
  case (Cons msg msgs)
  have "spares (andThen (wrapErr ''failed to submit headers'' (submitHeaderMsgs r msg))
      (\<lambda>_. submitLoop r (n + length (Headers msg)) msgs))"
    by (intro sparing_intros assms Cons.IH)
  then show ?case by (simp add: spares_def)
qed (simp add: spares_def)

lemma spares_ProcessHeaders [sparing_intros]:
  assumes "sparing r"
  shows "spares (ProcessHeaders r signer ibs)"
proof -
  have "spares (getHeaderMsgsToSubmit r signer ibs)"
    unfolding getHeaderMsgsToSubmit_def
    by (intro sparing_intros assms)
      (auto simp: chunkBy_def intro!: sparing_intros split: option.split)
  then have "spares (andThen (wrapErr ''failed to find headers to submit'' (getHeaderMsgsToSubmit r signer ibs))
      (\<lambda>msgs. submitLoop r 0 msgs))"
    by (intro sparing_intros assms)
  then show ?thesis
    unfolding spares_def ProcessHeaders_def by (auto split: prod.split outcome.split) (metis fst_conv mild_simps(4))
qed

text \<open>The Bitcoin client does not exit when the node's RPC client does not.\<close>

definition sparing_node :: "'w rpc_client \<Rightarrow> bool" where
  "sparing_node c \<longleftrightarrow> spares (GetBestBlockHash c) \<and> (\<forall>g. spares (GetBlockVerbose c g))
     \<and> (\<forall>g. spares (GetBlock c g)) \<and> (\<forall>h. spares (GetBlockHash c h))"

lemma client_of_sparing:
  assumes "sparing_node c"
  shows "sparing_client (client_of backend retry sub c)"
proof -
  have node: "spares (GetBestBlockHash c)" "spares (GetBlockVerbose c g)" "spares (GetBlock c g)" "spares (GetBlockHash c h)" for g h
    using assms by (simp_all add: sparing_node_def)
  have byHash: "spares (client_GetBlockByHash c g)" for g
    unfolding client_GetBlockByHash_def by (intro sparing_intros node) simp
  have loop: "spares (chainLoop c n prev bs)" for n prev bs
  proof (induction n arbitrary: prev bs)
    case (Suc n)
    have "spares (andThen (wrapErr ''failed to get block by hash'' (client_GetBlockByHash c prev))
       (\<lambda>(ib, mb). chainLoop c n (PrevBlock (mb_Header mb)) (ib # bs)))"
      using Suc.IH by (auto intro!: sparing_intros byHash split: prod.split)
    then show ?case by (simp add: spares_def)
  qed (simp add: spares_def)
  have "spares (getChainBlocks c h tip)" for h tip
    unfolding getChainBlocks_def Let_def using loop by (auto intro!: sparing_intros)
  then have "spares (client_FindTailBlocksByHeight c h)" for h
    unfolding client_FindTailBlocksByHeight_def getBestIndexedBlock_def
    by (auto intro!: sparing_intros byHash node split: prod.split)
  moreover have "spares (client_GetBestBlock c)"
    unfolding client_GetBestBlock_def by (intro sparing_intros node) simp
  moreover have "spares (client_GetBlockByHeight c h)" for h
    unfolding client_GetBlockByHeight_def by (intro sparing_intros node byHash)
  ultimately show ?thesis using byHash by (simp add: sparing_client_def client_of_def)
qed

section \<open>The handlers of events\<close>

lemma spares_submitNewHeaders [sparing_intros]:
  assumes "sparing r"
  shows "spares (submitNewHeaders r hs)"
proof -
  have "spares (\<lambda>s. case ProcessHeaders r signer hs s of
      (Ok _, s') \<Rightarrow> (Ok (), s') | (Err _, s') \<Rightarrow> (Ok (), s') | (e, s') \<Rightarrow> (reraise e, s'))" for signer
    by (auto simp: spares_def split: prod.split outcome.split
        dest: spares_no_exit [OF spares_ProcessHeaders [OF assms]])
  then show ?thesis unfolding submitNewHeaders_def by (auto intro!: sparing_intros assms)
qed

lemma spares_headersToProcess [sparing_intros]:
  assumes "sparing r"
  shows "spares (headersToProcess r ib)"
proof -
  let ?branch = "\<lambda>hs s. if calculateBranchWork (headerFuns r) hs > removedBranchWork (reorgList s)
    then (Ok hs, s\<lparr>reorgList := clear (reorgList s)\<rparr>) else (Ok [], s)"
  have "spares (andThen (orPanic (wrapErr ''failed to get block from cache after reorg''
      (readCache (GetLastBlocks h)))) ?branch)" for h
    by (intro sparing_intros mild_cache) (simp add: spares_def)
  then have "mild (fst (reorgHeaders r s))" for s
    by (auto simp: reorgHeaders_def spares_def split: option.split)
  moreover have "spares (tipHeaders r ib)"
    unfolding tipHeaders_def by (auto intro!: sparing_intros assms)
  ultimately show ?thesis by (simp add: spares_def headersToProcess_def)
qed

lemma spares_connectNewBlock [sparing_intros]:
  assumes "sparing r"
  shows "spares (connectNewBlock r event)"
  unfolding connectNewBlock_def by (auto intro!: sparing_intros assms split: option.split prod.split)

lemma spares_handleEvent:
  assumes "sparing r"
  shows "spares (handleEvent r event)"
proof -
  have "spares (checkBestChain r event)"
    unfolding checkBestChain_def by (auto intro!: sparing_intros assms split: prod.split)
  then have "spares (handleConnectedBlocks r event)"
    unfolding handleConnectedBlocks_def by (auto intro!: sparing_intros assms split: option.split)
  moreover have "spares (orPanic (onCache RemoveLast) :: ('a reporter_state, unit) action)"
    by (intro sparing_intros mild_cache)
  then have "spares (\<lambda>s. orPanic (onCache RemoveLast) (s\<lparr>reorgList := f s\<rparr>))" for f :: "'a reporter_state \<Rightarrow> reorg_list"
    by (simp add: spares_def)
  then have "spares (handleDisconnectedBlocks r event)"
    unfolding handleDisconnectedBlocks_def by (auto intro!: sparing_intros split: option.split)
  ultimately show ?thesis by (simp add: handleEvent_def split: event_type.split)
qed

section \<open>The bootstrap\<close>

lemma spares_syncLoop:
  assumes "sparing r" and "syncLoop r s = Some (out, s')"
  shows "mild out"
proof -
  have "r' = r \<longrightarrow> mild (fst res)" if "syncLoop r' s = Some res" for r' s res
  proof (rule syncLoop.raw_induct [where P = "\<lambda>r' s res. r' = r \<longrightarrow> mild (fst res)", OF _ that])
    fix f :: "'a reporter \<Rightarrow> 'a reporter_state \<Rightarrow> (unit outcome \<times> 'a reporter_state) option" and r' s res
    assume IH: "\<And>r' s res. f r' s = Some res \<Longrightarrow> r' = r \<longrightarrow> mild (fst res)"
      and eq: "(case call (GetBestBlock (btcClient r')) s of
        (Ok best, s1) \<Rightarrow>
          (case call (BTCHeaderChainTip (lorenzoClient r')) s1 of
             (Ok tip, s2) \<Rightarrow>
               if snd best > 0 \<and> snd best \<ge> lrz_Height tip then Some (Ok (), s2) else f r' s2
           | (e, s2) \<Rightarrow> Some (reraise e, s2))
      | (e, s1) \<Rightarrow> Some (reraise e, s1)) = Some res"
    show "r' = r \<longrightarrow> mild (fst res)"
      using eq IH sparesD [OF spares_call [OF sparingD(1) [OF assms(1)]]]
        sparesD [OF spares_call [OF sparingD(6) [OF assms(1)]]]
      by (auto split: prod.splits outcome.splits if_splits) (metis mild_simps(4))+
  qed
  then show ?thesis using assms(2) by fastforce
qed

lemma spares_bootstrap:
  assumes "sparing r"
  shows "spares (bootstrap r True)"
proof -
  have "spares (\<lambda>s. case syncLoop r s of Some res \<Rightarrow> res | None \<Rightarrow> (Hang, s))"
    using spares_syncLoop [OF assms] by (auto simp: spares_def split: option.split)
  then have "spares (waitUntilBTCSync r)"
    unfolding waitUntilBTCSync_def by (auto intro!: sparing_intros assms split: prod.split)
  moreover have "spares (newCache r)"
    by (auto simp: spares_def newCache_def NewBTCCache_def split: outcome.split)
  then have "spares (initBTCCache r)"
    unfolding initBTCCache_def by (auto intro!: sparing_intros assms)
  moreover have "spares (checkHeaderConsistency r h)" for h
    unfolding checkHeaderConsistency_def by (auto intro!: sparing_intros assms split: option.split)
  then have "spares (checkConsistency r)"
    unfolding checkConsistency_def by (auto intro!: sparing_intros assms simp: Let_def)
  then have "spares (syncHeaders r)"
    unfolding syncHeaders_def by (auto intro!: sparing_intros assms simp: dropDelayed_def Let_def)
  moreover have "spares (resizeAndTrim r)"
    unfolding resizeAndTrim_def by (auto intro!: sparing_intros)
  ultimately have "spares (andThen (waitUntilBTCSync r) (\<lambda>_. andThen (initBTCCache r) (\<lambda>_.
      andThen (lift (Ok ())) (\<lambda>_. andThen (syncHeaders r) (\<lambda>_. resizeAndTrim r)))))"
    by (auto intro!: sparing_intros)
  then show ?thesis by (simp add: spares_def bootstrap_def)
qed

section \<open>A turn that exits\<close>

lemma mild_matureLoop:
  assumes "sparing r" and "matureLoop quit r ev s = Some (out, s')"
  shows "mild out"
  using assms(2)
proof (rule matureLoop_induct [where Q = "\<lambda>s out s'. mild out"])
  show "mild (reraise o1)"
    if "call (GetBestBlock (btcClient r)) (s\<lparr>outside := snd (quit (outside s))\<rparr>) = (o1, s1)" for s o1 s1
    using sparesD [OF spares_call [OF sparingD(1) [OF assms(1)]] that] by (rule mild_reraise)
qed auto

lemma onEvent_exit:
  assumes "sparing r" and R: "\<And>f. spares f \<Longrightarrow> spares (R f)"
    and "onEvent quit R r ev s = (Panic (LogFatal e), s')"
  shows "\<exists>t err. R (bootstrap r True) t = (Err err, s') \<and> \<not> isCanceled err
    \<and> e = ErrWrapped ''Failed to bootstrap reporter'' err"
proof -
  have boot: ?thesis if "bootstrapWithRetries R r True t = (Panic (LogFatal e), s')" for t
    using that spares_no_exit [OF R [OF spares_bootstrap [OF assms(1)]]]
    by (auto simp: bootstrapWithRetries_def split: prod.splits outcome.splits if_splits) blast
  show ?thesis
    using assms(3) boot
    by (auto simp: onEvent_def andThen_def lift_def split: option.splits prod.splits outcome.splits if_splits
        dest: mild_matureLoop [OF assms(1)] spares_no_exit [OF spares_handleEvent [OF assms(1)]])
qed

end
