(* ===== verification/Process.thy ===== *)
theory Process
  imports Commands Metrics_Server Submissions Exits
begin

text \<open>
  The process of the reporter's command once it waits for an interrupt: the goroutine that handles
  block events, the client that sends them, the metrics server, the goroutine that runs the interrupt
  handlers and the main goroutine, over the event channel and the quit channel they share. The
  interrupt handlers run the newest first (theory \<open>Interrupts\<close>): the Bitcoin client's, which shuts the
  RPC client down and then closes the event channel, then the reporter's; each of these calls is a phase
  of its own, so that the others move between them. The wait for the goroutines of the RPC client, which
  the Bitcoin client's handler ends with, is taken to return.
\<close>

section \<open>The state\<close>

datatype process_end = Exit nat | Crash panic

datatype shutdown_phase = NoSignal | ClientStops | ClientCloses | ReporterStops | ReporterWaits | HandlersDone

record 'w process =
  run :: running
  eventLoop :: "'w loop_state"
  shutdown :: shutdown_phase
  ended :: "process_end option"

definition processOf :: "'w reporter_state \<Rightarrow> running interrupts \<Rightarrow> 'w process" where
  "processOf s i = \<lparr>run = program i, eventLoop = Waiting s, shutdown = NoSignal, ended = None\<rparr>"

text \<open>\<^verbatim>\<open>case event, open := <-blockEventChan\<close>: nothing while the channel is open and empty.\<close>

definition receive :: "event_chan \<Rightarrow> (block_event option \<times> event_chan) option" where
  "receive ch = (case waiting ch of
     e # es \<Rightarrow> Some (Some e, ch\<lparr>waiting := es\<rparr>)
   | [] \<Rightarrow> if isClosed ch then Some (None, ch) else None)"

text \<open>
  The end of a turn of the event loop; a panic in a goroutine ends the process, and a fatal log entry
  exits with status 1. A turn returns no error (\<open>onEvent_not_Err\<close>).
\<close>

fun processEnd :: "panic \<Rightarrow> process_end" where
  "processEnd (LogFatal e) = Exit 1"
| "processEnd x = Crash x"

fun afterTurn :: "bool outcome \<Rightarrow> 'w reporter_state \<Rightarrow> 'w process \<Rightarrow> 'w process" where
  "afterTurn (Ok goOn) s p = p\<lparr>eventLoop := (if goOn then Waiting s else Returned s)\<rparr>"
| "afterTurn (Err e) s p = p\<lparr>eventLoop := Waiting s\<rparr>"
| "afterTurn (Panic x) s p = p\<lparr>eventLoop := Crashed x s, ended := Some (processEnd x)\<rparr>"
| "afterTurn Hang s p = p\<lparr>eventLoop := Stuck\<rparr>"

text \<open>
  What the reporter, the retries around its bootstrap, the metrics server in its first state, its
  address, and the outside world are.
\<close>

record ('w, 'g) process_env =
  theReporter :: "'w reporter"
  bootRetries :: "'w boot_retry"
  metricsEnv :: "'g metrics_env"
  registry :: 'g
  metricsAt :: string
  worldMoves :: "'w \<Rightarrow> 'w \<Rightarrow> bool"

text \<open>
  The polls of the quit channel in a turn: while the channel is open they find it open. The world
  may move between two of them.
\<close>

definition polls :: "('w, 'g) process_env \<Rightarrow> running \<Rightarrow> ('w \<Rightarrow> bool \<times> 'w) \<Rightarrow> bool" where
  "polls env p quit \<longleftrightarrow> (\<forall>w. (fst (quit w) \<longrightarrow> quitClosed (life p))
     \<and> (snd (quit w) = w \<or> worldMoves env w (snd (quit w))))"

text \<open>
  The Bitcoin client that serves a turn. It is the reporter's until the RPC client is shut down;
  \<^verbatim>\<open>rpcclient\<close> answers every request after that with \<^verbatim>\<open>ErrClientShutdown\<close>. So in a turn that began with
  the receive from the closed channel every query fails; in a turn that received an event before, a
  query may have been answered or failed.
\<close>

definition refuses :: "'w btc_client \<Rightarrow> bool" where
  "refuses b \<longleftrightarrow> (\<forall>w. \<exists>e. GetBestBlock b w = (Err e, w)) \<and> (\<forall>h w. \<exists>e. GetBlockByHash b h w = (Err e, w))
     \<and> (\<forall>h w. \<exists>e. GetBlockByHeight b h w = (Err e, w)) \<and> (\<forall>h w. \<exists>e. FindTailBlocksByHeight b h w = (Err e, w))
     \<and> (\<forall>h k w. \<exists>e. FindRangeBlocksByHeight b h k w = (Err e, w))"

definition fades :: "('w, 'a) action \<Rightarrow> ('w, 'a) action \<Rightarrow> bool" where
  "fades m n \<longleftrightarrow> (\<forall>w. m w = n w \<or> (\<exists>e. m w = (Err e, w)))"

definition fading :: "'w btc_client \<Rightarrow> 'w btc_client \<Rightarrow> bool" where
  "fading b c \<longleftrightarrow> fades (GetBestBlock b) (GetBestBlock c)
     \<and> (\<forall>h. fades (GetBlockByHash b h) (GetBlockByHash c h))
     \<and> (\<forall>h. fades (GetBlockByHeight b h) (GetBlockByHeight c h))
     \<and> (\<forall>h. fades (FindTailBlocksByHeight b h) (FindTailBlocksByHeight c h))
     \<and> (\<forall>h k. fades (FindRangeBlocksByHeight b h k) (FindRangeBlocksByHeight c h k))
     \<and> MustSubscribeBlocks b = MustSubscribeBlocks c"

definition serving :: "running \<Rightarrow> 'w reporter \<Rightarrow> block_event option \<Rightarrow> 'w reporter \<Rightarrow> bool" where
  "serving p r ev r' \<longleftrightarrow> (\<exists>b. r' = r\<lparr>btcClient := b\<rparr> \<and> fading b (btcClient r)
     \<and> (\<not> rpcDown p \<longrightarrow> b = btcClient r) \<and> (rpcDown p \<and> ev = None \<longrightarrow> refuses b))"

section \<open>The steps\<close>

text \<open>
  A turn of the event loop is one step, placed at its end: the shutdown of the client and the stop of
  the reporter may have come in the middle of it, so that its queries may be answered or refused and its
  polls may find the quit channel open or closed.
\<close>

inductive process_move :: "('w, 'g) process_env \<Rightarrow> 'w process \<Rightarrow> 'w process \<Rightarrow> bool" for env where
  turn: "eventLoop p = Waiting s \<Longrightarrow> receive (events (run p)) = Some (ev, ch) \<Longrightarrow> polls env (run p) quit \<Longrightarrow>
    serving (run p) (theReporter env) ev r \<Longrightarrow> onEvent quit (bootRetries env) r ev s = (out, s') \<Longrightarrow>
    process_move env p (afterTurn out s' (p\<lparr>run := (run p)\<lparr>events := ch\<rparr>\<rparr>))"
| leave: "eventLoop p = Waiting s \<Longrightarrow> quitClosed (life (run p)) \<Longrightarrow>
    process_move env p (p\<lparr>eventLoop := Returned s\<rparr>)"
| world: "eventLoop p = Waiting s \<Longrightarrow> worldMoves env (outside s) w \<Longrightarrow>
    process_move env p (p\<lparr>eventLoop := Waiting (s\<lparr>outside := w\<rparr>)\<rparr>)"
| arrive: "chanSend e (events (run p)) = Some (Ok u, ch) \<Longrightarrow>
    process_move env p (p\<lparr>run := (run p)\<lparr>events := ch\<rparr>\<rparr>)"
| arrive_late: "chanSend e (events (run p)) = Some (Panic x, ch) \<Longrightarrow>
    process_move env p (p\<lparr>ended := Some (Crash x)\<rparr>)"
| signal: "shutdown p = NoSignal \<Longrightarrow> process_move env p (p\<lparr>shutdown := ClientStops\<rparr>)"
| shutdown_client: "shutdown p = ClientStops \<Longrightarrow> shutdownRpc (run p) = (Ok u, c) \<Longrightarrow>
    process_move env p (p\<lparr>run := c, shutdown := ClientCloses\<rparr>)"
| close_events: "shutdown p = ClientCloses \<Longrightarrow> closeEvents (run p) = (Ok u, c) \<Longrightarrow>
    process_move env p (p\<lparr>run := c, shutdown := ReporterStops\<rparr>)"
| close_events_panics: "shutdown p = ClientCloses \<Longrightarrow> closeEvents (run p) = (Panic x, c) \<Longrightarrow>
    process_move env p (p\<lparr>run := c, ended := Some (Crash x)\<rparr>)"
| stop_reporter: "shutdown p = ReporterStops \<Longrightarrow>
    process_move env p (p\<lparr>run := (run p)\<lparr>life := Stop (life (run p))\<rparr>, shutdown := ReporterWaits\<rparr>)"
| reporter_stopped: "shutdown p = ReporterWaits \<Longrightarrow> eventLoop p = Returned s \<Longrightarrow>
    process_move env p (p\<lparr>run := (run p)\<lparr>life := handlerDone (life (run p))\<rparr>, shutdown := HandlersDone\<rparr>)"
| main_returns: "shutdown p = HandlersDone \<Longrightarrow> process_move env p (p\<lparr>ended := Some (Exit 0)\<rparr>)"
| metrics_fails: "metrics_start (metricsEnv env) (metricsAt env) (registry env) = (Ok e, g) \<Longrightarrow>
    process_move env p (p\<lparr>ended := Some (Exit 1)\<rparr>)"
| metrics_panics: "metrics_start (metricsEnv env) (metricsAt env) (registry env) = (Panic x, g) \<Longrightarrow>
    process_move env p (p\<lparr>ended := Some (Crash x)\<rparr>)"

text \<open>A process that has ended does not move.\<close>

definition process_step :: "('w, 'g) process_env \<Rightarrow> 'w process \<Rightarrow> 'w process \<Rightarrow> bool" where
  "process_step env p p' \<longleftrightarrow> ended p = None \<and> process_move env p p'"

definition process_reaches :: "('w, 'g) process_env \<Rightarrow> 'w process \<Rightarrow> 'w process \<Rightarrow> bool" where
  "process_reaches env = (process_step env)\<^sup>*\<^sup>*"

interpretation process_runs: stepping "process_step env" "process_reaches env" for env
proof
  show "process_reaches env s u" if "process_reaches env s t" "process_step env t u" for s t u
    using that unfolding process_reaches_def by (rule rtranclp.rtrancl_into_rtrancl)
  show "P t" if "process_reaches env s t" "P s" "\<And>t u. P t \<Longrightarrow> process_step env t u \<Longrightarrow> P u" for s t P
    using that unfolding process_reaches_def by (induction rule: rtranclp_induct) auto
qed (simp add: process_reaches_def)

lemma process_stepI: "process_move env p p' \<Longrightarrow> ended p = None \<Longrightarrow> process_step env p p'"
  by (simp add: process_step_def)

lemma reaches_move:
  "process_reaches env p q \<Longrightarrow> ended q = None \<Longrightarrow> process_move env q q' \<Longrightarrow> process_reaches env p q'"
  using process_runs.reaches_step process_stepI by blast

section \<open>How the process ends\<close>

text \<open>
  \<open>orderly\<close>: the phases of the shutdown and what each has brought about; status 0 comes after the last
  of them, status 1 from the metrics server.
\<close>

fun orderly_phase :: "shutdown_phase \<Rightarrow> 'w process \<Rightarrow> bool" where
  "orderly_phase NoSignal p = (\<not> quitClosed (life (run p)))"
| "orderly_phase ClientStops p = (\<not> quitClosed (life (run p)))"
| "orderly_phase ClientCloses p = (rpcDown (run p) \<and> \<not> quitClosed (life (run p)))"
| "orderly_phase ReporterStops p = (rpcDown (run p) \<and> isClosed (events (run p)) \<and> \<not> quitClosed (life (run p)))"
| "orderly_phase ReporterWaits p = (rpcDown (run p) \<and> isClosed (events (run p)) \<and> quitClosed (life (run p)))"
| "orderly_phase HandlersDone p = (rpcDown (run p) \<and> isClosed (events (run p)) \<and> quitClosed (life (run p))
     \<and> (\<exists>s. eventLoop p = Returned s))"

text \<open>A re-bootstrap that gave up: the last attempt failed, and not because the reporter quits.\<close>

definition gaveUp :: "('w, 'g) process_env \<Rightarrow> 'w process \<Rightarrow> bool" where
  "gaveUp env p \<longleftrightarrow> (\<exists>b t err t'. fading b (btcClient (theReporter env)) \<and> bootRetries env (bootstrap ((theReporter env)\<lparr>btcClient := b\<rparr>) True) t = (Err err, t')
     \<and> \<not> isCanceled err
     \<and> eventLoop p = Crashed (LogFatal (ErrWrapped ''Failed to bootstrap reporter'' err)) t')"

definition orderly :: "('w, 'g) process_env \<Rightarrow> 'w process \<Rightarrow> bool" where
  "orderly env p \<longleftrightarrow> orderly_phase (shutdown p) p
     \<and> (\<forall>n. ended p = Some (Exit n) \<longrightarrow> (n = 0 \<and> shutdown p = HandlersDone)
          \<or> (n = 1 \<and> ((\<exists>e g. metrics_start (metricsEnv env) (metricsAt env) (registry env) = (Ok e, g))
               \<or> gaveUp env p)))"

lemma processEnd_Exit: "processEnd x = Exit n \<longleftrightarrow> n = 1 \<and> (\<exists>e. x = LogFatal e)"
  by (cases x) auto

lemma fades_same: "fades m m"
  by (simp add: fades_def)

lemma fades_Ok: "fades m n \<Longrightarrow> m w = (Ok x, w') \<Longrightarrow> n w = (Ok x, w')"
  unfolding fades_def by (metis outcome.distinct(1) prod.inject)

lemma fades_spares: "fades m n \<Longrightarrow> spares n \<Longrightarrow> spares m"
  unfolding fades_def spares_def by (metis fst_conv mild_simps(2))

lemma fades_log: "fades m n \<Longrightarrow> keeps_log n \<Longrightarrow> keeps_log m"
  unfolding fades_def keeps_log_def by (metis snd_conv)

text \<open>A client that may fail keeps what the reporter relies on.\<close>

lemma fading_lawful:
  assumes "fading b c" and "client_lawful hf hgt c"
  shows "client_lawful hf hgt b"
proof -
  have ok: "GetBlockByHash c h w = (Ok x, w')" if "GetBlockByHash b h w = (Ok x, w')" for h w x w'
    using assms(1) that fades_Ok by (fastforce simp: fading_def)
  have tail: "FindTailBlocksByHeight c h w = (Ok x, w')" if "FindTailBlocksByHeight b h w = (Ok x, w')" for h w x w'
    using assms(1) that fades_Ok by (fastforce simp: fading_def)
  have range: "FindRangeBlocksByHeight c h k w = (Ok x, w')" if "FindRangeBlocksByHeight b h k w = (Ok x, w')" for h k w x w'
    using assms(1) that fades_Ok by (fastforce simp: fading_def)
  show ?thesis
    using assms(2) unfolding client_lawful_def by (blast dest: ok tail range)
qed

lemma serving_lawful:
  assumes "serving p r ev r'"
  shows "client_lawful (headerFuns r) hgt (btcClient r) \<Longrightarrow> client_lawful (headerFuns r') hgt (btcClient r')"
    and "depths_ok r' = depths_ok r" and "reporter_inv r' = reporter_inv r"
proof -
  obtain b where b: "r' = r\<lparr>btcClient := b\<rparr>" "fading b (btcClient r)" using assms by (auto simp: serving_def)
  show "client_lawful (headerFuns r) hgt (btcClient r) \<Longrightarrow> client_lawful (headerFuns r') hgt (btcClient r')"
    using fading_lawful [OF b(2)] by (simp add: b(1))
  show "depths_ok r' = depths_ok r" by (simp add: b(1) depths_ok_def)
  show "reporter_inv r' = reporter_inv r" by (intro ext) (simp add: b(1) reporter_inv_def)
qed

lemma serving_submits:
  assumes "serving p r ev r'"
  shows "submits_inv r' = submits_inv r"
proof -
  obtain b where b: "r' = r\<lparr>btcClient := b\<rparr>" using assms by (auto simp: serving_def)
  have "delivery r' = delivery r"
    by (intro ext) (simp add: b delivery_def on_chain_def reported_def)
  then show ?thesis by (intro ext) (simp add: submits_inv_def serving_lawful(3) [OF assms] deliveries_def)
qed

lemma serving_observed:
  assumes "serving p r ev r'" and "observed r"
  shows "observed r'"
proof -
  obtain b where b: "r' = r\<lparr>btcClient := b\<rparr>" "fading b (btcClient r)" using assms(1) by (auto simp: serving_def)
  have "aside (btcClient r)" using assms(2) by (simp add: observed_def)
  with b(2) have "aside b" unfolding fading_def aside_def by (intro conjI) (metis fades_log)+
  with assms(2) show ?thesis by (simp add: b(1) observed_def)
qed

lemma serving_sparing:
  assumes "serving p r ev r'" and "sparing r"
  shows "sparing r'"
proof -
  obtain b where b: "r' = r\<lparr>btcClient := b\<rparr>" "fading b (btcClient r)" using assms(1) by (auto simp: serving_def)
  have "sparing_client (btcClient r)" using assms(2) by (simp add: sparing_def)
  with b(2) have "sparing_client b" unfolding fading_def sparing_client_def by (intro conjI) (metis fades_spares)+
  with assms(2) show ?thesis by (simp add: b(1) sparing_def)
qed

text \<open>Without a shutdown the reporter serves itself.\<close>

lemma serving_self: "\<not> rpcDown p \<Longrightarrow> serving p r ev r"
  by (simp add: serving_def fading_def fades_same)

lemma receive_isClosed: "receive ch = Some (e, ch') \<Longrightarrow> isClosed ch' = isClosed ch"
  by (auto simp: receive_def split: list.splits if_splits)

lemma chanSend_isClosed: "chanSend e ch = Some (out, ch') \<Longrightarrow> isClosed ch' = isClosed ch"
  by (auto simp: chanSend_def split: if_splits)

lemma afterTurn_parts:
  "run (afterTurn out s p) = run p" "shutdown (afterTurn out s p) = shutdown p"
  "ended (afterTurn out s p) = (case out of Panic x \<Rightarrow> Some (processEnd x) | _ \<Rightarrow> ended p)"
  by (cases out; simp)+

text \<open>The libraries of the reporter leave the process alone.\<close>

definition sparing_env :: "('w, 'g) process_env \<Rightarrow> bool" where
  "sparing_env env \<longleftrightarrow> sparing (theReporter env) \<and> (\<forall>f. spares f \<longrightarrow> spares (bootRetries env f))"

definition externals_spare :: "('w, 'l) command_env \<Rightarrow> 'w externals \<Rightarrow> bool" where
  "externals_spare cenv ext \<longleftrightarrow>
     (\<forall>conn w c w'. rpcNew (dialEnv cenv) conn w = (Ok c, w') \<longrightarrow> sparing_node c)
     \<and> (\<forall>cfg w l w'. lorenzoNew cenv cfg w = (Ok l, w') \<longrightarrow> sparing_lorenzo l)
     \<and> (\<forall>f. spares f \<longrightarrow> spares (lorenzoRetry ext f))"

lemma boot_retry_spares:
  assumes "boot_retry_lawful R" and "spares f"
  shows "spares (R f)"
  unfolding spares_def
proof
  fix s
  obtain t where "R f s = f t \<or> R f s = (Err (ErrExternal ''context canceled''), t)"
    using assms(1) unfolding boot_retry_lawful_def by blast
  then show "mild (fst (R f s))" using assms(2) by (auto simp: spares_def)
qed

lemma command_sparing:
  assumes "reporterCommand cenv ext allReturn ch file keyDir w = (Ok (r, s, i), w')"
    and "externals_lawful cenv ext hgt quit" and "externals_spare cenv ext"
    and "theReporter env = r" and "bootRetries env = bootRetry ext"
  shows "sparing_env env"
proof -
  obtain cfg h lorenzo c w1 s0 l0 where
    prep: "prepareReporter cenv file keyDir w = (Ok (cfg, h, lorenzo), w1)"
    and dialled: "\<exists>conn w2 w3. rpcNew (dialEnv cenv) conn w2 = (Ok c, w3)"
    and r: "reporterOf (Reporter cfg) (client_of (BtcBackend (Cfg h)) (webSocketRetry ext) (zmqSubscribe ext) c)
      lorenzo (lorenzoRetry ext) (btcHeaderFuns ext) w1 = (r, s0, l0)"
    by (rule reporterCommand_made [OF assms(1)])
  have "sparing_node c" and "sparing_lorenzo lorenzo"
    using dialled prepareReporter_Ok(4) [OF prep] assms(3) unfolding externals_spare_def by blast+
  then have "sparing r"
    using r client_of_sparing assms(3) by (auto simp: reporterOf_def NewReporter_def sparing_def externals_spare_def)
  moreover have "boot_retry_lawful (bootRetry ext)" using assms(2) by (simp add: externals_lawful_def)
  ultimately show ?thesis using boot_retry_spares assms(4,5) by (auto simp: sparing_env_def)
qed

lemma turn_exit:
  assumes "sparing_env env" and "serving c (theReporter env) ev r"
    and "onEvent quit (bootRetries env) r ev s = (Panic (LogFatal e), s')"
  shows "gaveUp env (afterTurn (Panic (LogFatal e)) s' p)"
proof -
  have "sparing r" using assms(1,2) serving_sparing by (auto simp: sparing_env_def)
  moreover obtain b where "r = (theReporter env)\<lparr>btcClient := b\<rparr>" "fading b (btcClient (theReporter env))"
    using assms(2) by (auto simp: serving_def)
  ultimately show ?thesis
    using onEvent_exit [of r "bootRetries env", OF _ _ assms(3)] assms(1)
    by (auto simp: gaveUp_def sparing_env_def)
qed

lemma process_step_orderly:
  assumes "process_step env p p'" and "sparing_env env" and "orderly env p"
  shows "orderly env p'"
proof -
  have ph: "orderly_phase (shutdown p) p" and run: "ended p = None" and move: "process_move env p p'"
    using assms by (simp_all add: orderly_def process_step_def)
  show ?thesis
    using move
  proof cases
    case (turn s ev ch quit r out s')
    have "orderly_phase (shutdown p) p'"
      using ph turn receive_isClosed [OF turn(3)] by (cases "shutdown p") (simp_all add: afterTurn_parts)
    moreover have "gaveUp env p'" if "out = Panic (LogFatal e)" for e
      using turn_exit [OF assms(2) turn(5) turn(6) [unfolded that]] turn(1) that by simp
    ultimately show ?thesis
      using turn(1) run by (auto simp: orderly_def afterTurn_parts processEnd_Exit split: outcome.splits)
  next
    case (arrive e u ch)
    then have "orderly_phase (shutdown p) p'"
      using ph chanSend_isClosed [OF arrive(2)] by (cases "shutdown p") simp_all
    then show ?thesis using arrive run by (simp add: orderly_def)
  qed (use ph run in \<open>cases "shutdown p"; auto simp: orderly_def shutdownRpc_def closeEvents_def closeChan_def
      Stop_def handlerDone_def split: if_splits\<close>)+
qed

lemma orderly_runs:
  assumes "process_reaches env p p'" and "sparing_env env" and "orderly env p"
  shows "orderly env p'"
  by (rule process_runs.keeps [where I = "orderly env", OF assms(1,3)]) (rule process_step_orderly [OF _ assms(2)])

text \<open>
  \<open>drained\<close>: the event channel is closed only after the RPC client was shut down, and an event loop that
  crashed has ended the process.
\<close>

definition drained :: "'w process \<Rightarrow> bool" where
  "drained p \<longleftrightarrow> (isClosed (events (run p)) \<longrightarrow> rpcDown (run p))
     \<and> (shutdown p \<notin> {NoSignal, ClientStops} \<longrightarrow> rpcDown (run p))
     \<and> (\<forall>x t. eventLoop p = Crashed x t \<longrightarrow> ended p \<noteq> None)"

lemma process_step_drained:
  assumes "process_step env p p'" and "drained p"
  shows "drained p'"
proof -
  have inv: "drained p" and run: "ended p = None" and move: "process_move env p p'"
    using assms by (simp_all add: process_step_def)
  show ?thesis
    using move
  proof cases
    case (turn s ev ch quit r out s')
    then show ?thesis
      using inv receive_isClosed [OF turn(3)] by (cases out) (auto simp: drained_def)
  next
    case (arrive e u ch)
    then show ?thesis using inv chanSend_isClosed [OF arrive(2)] by (auto simp: drained_def)
  qed (use inv run in \<open>auto simp: drained_def shutdownRpc_def closeEvents_def closeChan_def split: if_splits\<close>)
qed

text \<open>
  The maturity loop on a client that was shut down, for no event: it goes on polling until the reporter
  is told to quit, so it never comes to read the event that is not there.
\<close>

lemma refused_never_crashes:
  assumes "refuses (btcClient r)" and "onEvent quit R r None s = (out, s')"
  shows "out = Ok False \<or> out = Hang"
proof -
  have "out' = Ok False" if "matureLoop quit r None t = Some (out', t')" for out' t t'
    using that
  proof (rule matureLoop_induct [where Q = "\<lambda>s out s'. out = Ok False"])
    have err: "\<exists>e. call (GetBestBlock (btcClient r)) u = (Err e, u)" for u
    proof -
      obtain e where "GetBestBlock (btcClient r) (outside u) = (Err e, outside u)"
        using assms(1) unfolding refuses_def by blast
      then show ?thesis by (simp add: call_def)
    qed
    show "(None = None \<longrightarrow> Panic NilDereference = Ok False) \<and>
      (\<forall>e. None = Some e \<longrightarrow> delayBlocks r + uint64_of_int32 (ev_Height e) \<le> snd best \<longrightarrow> Ok True = Ok False)"
      if "call (GetBestBlock (btcClient r)) (u\<lparr>outside := snd (quit (outside u))\<rparr>) = (Ok best, u1)" for u best u1
      using err [of "u\<lparr>outside := snd (quit (outside u))\<rparr>"] that by simp
    show "reraise o1 = Ok False"
      if "\<not> graceful o1" "call (GetBestBlock (btcClient r)) (u\<lparr>outside := snd (quit (outside u))\<rparr>) = (o1, u1)" for u o1 u1
      using err [of "u\<lparr>outside := snd (quit (outside u))\<rparr>"] that by auto
  qed auto
  then have "matureLoop quit r None s = None \<or> (\<exists>t. matureLoop quit r None s = Some (Ok False, t))"
    by (cases "matureLoop quit r None s") auto
  then show ?thesis using assms(2) by (auto simp: onEvent_def andThen_def)
qed

lemma closed_channel_never_crashes:
  assumes "process_reaches env p0 p" and "drained p0" and "process_step env p p'"
    and "eventLoop p' = Crashed x t"
  shows "waiting (events (run p)) \<noteq> []"
proof -
  have inv: "drained p"
    by (rule process_runs.keeps [where I = drained, OF assms(1,2)]) (rule process_step_drained)
  have run: "ended p = None" and move: "process_move env p p'" using assms(3) by (simp_all add: process_step_def)
  have here: "eventLoop p \<noteq> Crashed x t" using inv run by (auto simp: drained_def)
  show ?thesis
    using move
  proof cases
    case (turn s ev ch quit r out s')
    show ?thesis
    proof
      assume "waiting (events (run p)) = []"
      then have none: "ev = None" and "isClosed (events (run p))"
        using turn(3) by (auto simp: receive_def split: if_splits)
      then have "refuses (btcClient r)" using inv turn(5) by (auto simp: drained_def serving_def)
      then have "out = Ok False \<or> out = Hang" using refused_never_crashes turn(6) none by blast
      then show False using turn(1) assms(4) by auto
    qed
  qed (use assms(4) here in auto)
qed

section \<open>What every turn keeps\<close>

fun loop_all :: "('w reporter_state \<Rightarrow> bool) \<Rightarrow> 'w loop_state \<Rightarrow> bool" where
  "loop_all P (Waiting s) = P s"
| "loop_all P (Returned s) = P s"
| "loop_all P (Crashed x s) = P s"
| "loop_all P Stuck = True"

lemma loop_all_inv: "loop_all (reporter_inv r hgt) l = loop_inv r hgt l"
  by (cases l) simp_all

lemma loop_all_afterTurn:
  "P s \<Longrightarrow> loop_all P (eventLoop (afterTurn out s p))"
  by (cases out) simp_all

lemma process_runs_all:
  assumes "process_reaches env p p'" and "loop_all P (eventLoop p)"
    and turn: "\<And>c quit ev s r. polls env c quit \<Longrightarrow> serving c (theReporter env) ev r \<Longrightarrow> P s
      \<Longrightarrow> P (snd (onEvent quit (bootRetries env) r ev s))"
    and world: "\<And>s w. P s \<Longrightarrow> worldMoves env (outside s) w \<Longrightarrow> P (s\<lparr>outside := w\<rparr>)"
  shows "loop_all P (eventLoop p')"
proof (rule process_runs.keeps [where I = "\<lambda>p. loop_all P (eventLoop p)", OF assms(1,2)])
  fix p p' assume step: "process_step env p p'" and inv: "loop_all P (eventLoop p)"
  have "process_move env p p'" using step by (simp add: process_step_def)
  then show "loop_all P (eventLoop p')"
  proof cases
    case (turn s ev ch quit r out s')
    then have "P s'" using assms(3) [OF turn(4,5), of s] inv by simp
    then show ?thesis using turn(1) loop_all_afterTurn by blast
  qed (use inv world in auto)
qed

lemma process_submits:
  assumes "boot_retry_lawful (bootRetries env)" and "observed (theReporter env)"
    and "client_lawful (headerFuns (theReporter env)) hgt (btcClient (theReporter env))"
    and "depths_ok (theReporter env)" and moves: "\<And>w w'. worldMoves env w w' \<Longrightarrow> snd w' = snd w"
    and "process_reaches env p p'" and "loop_all (submits_inv (theReporter env) hgt) (eventLoop p)"
  shows "loop_all (submits_inv (theReporter env) hgt) (eventLoop p')"
proof (rule process_runs_all [OF assms(6,7)])
  fix c quit ev r and s :: "('a \<times> msg_insert_headers list) reporter_state"
  assume quit: "polls env c quit" and r: "serving c (theReporter env) ev r"
    and inv: "submits_inv (theReporter env) hgt s"
  note law = serving_lawful [OF r] serving_submits [OF r] serving_observed [OF r assms(2)]
  have "snd (snd (quit w)) = snd w" for w
  proof -
    have "snd (quit w) = w \<or> worldMoves env w (snd (quit w))"
      using spec [OF quit [unfolded polls_def], of w] by (rule conjunct2)
    then show ?thesis
    proof
      show "snd (snd (quit w)) = snd w" if "worldMoves env w (snd (quit w))" using moves [OF that] .
    qed simp
  qed
  then have "submits_inv r hgt (snd (onEvent quit (bootRetries env) r ev s))"
    by (intro onEvent_submits [where quit = quit, OF assms(1) law(5)]) (simp_all add: law assms(3,4) inv)
  then show "submits_inv (theReporter env) hgt (snd (onEvent quit (bootRetries env) r ev s))" by (simp add: law(4))
next
  fix s :: "('a \<times> msg_insert_headers list) reporter_state" and w
  assume inv: "submits_inv (theReporter env) hgt s" and "worldMoves env (outside s) w"
  have "snd w = accepted s" by (rule moves) fact
  then show "submits_inv (theReporter env) hgt (s\<lparr>outside := w\<rparr>)"
    by (intro submits_inv_same [OF inv]) (simp_all add: core_def)
qed

section \<open>An interrupt that stops the reporter\<close>

text \<open>
  The shutdown of the process is what the goroutine of the interrupt handlers computes (theory
  \<open>Interrupts\<close>) when the event handler returns: the run that stops in order ends in the same state.
\<close>

definition stopped :: "running \<Rightarrow> running" where
  "stopped c = \<lparr>life = (Stop (life c))\<lparr>handlers := 0\<rparr>, events = (events c)\<lparr>isClosed := True\<rparr>, rpcDown = True\<rparr>"

lemma onInterrupt_stops:
  assumes "registerAll (reporterHandlers (\<lambda>c. True)) (noInterrupts c) = Some i" and "\<not> isClosed (events c)"
  shows "\<exists>i'. onInterrupt i = (Ok (), i') \<and> program i' = stopped c"
proof -
  have i: "i = (noInterrupts c)\<lparr>mainStarted := True, interruptCallbacks := reporterHandlers (\<lambda>c. True)\<rparr>"
    using assms(1) registerAll_from [of "noInterrupts c" "reporterHandlers (\<lambda>c. True)"]
    by (simp add: noInterrupts_def reporterHandlers_def)
  show ?thesis
    using assms(2)
    by (simp add: i onInterrupt_def invokeCallbacks_def callbackLoop_reverse noInterrupts_def reporterHandlers_def
        andThen_def stopBtcClient_def shutdownRpc_def closeEvents_def closeChan_def stopReporter_def stopped_def Stop_def Let_def)
qed

lemma interrupt_closes:
  assumes p: "eventLoop p = Waiting s" "shutdown p = NoSignal" "ended p = None" and ch: "\<not> isClosed (events (run p))"
    and c: "c = \<lparr>life = Stop (life (run p)), events = (events (run p))\<lparr>isClosed := True\<rparr>, rpcDown = True\<rparr>"
  shows "process_reaches env p (p\<lparr>run := c, shutdown := ReporterWaits\<rparr>)"
proof -
  let ?p1 = "p\<lparr>shutdown := ClientStops\<rparr>"
  let ?c1 = "(run p)\<lparr>rpcDown := True\<rparr>"
  let ?p2 = "?p1\<lparr>run := ?c1, shutdown := ClientCloses\<rparr>"
  let ?c2 = "?c1\<lparr>events := (events (run p))\<lparr>isClosed := True\<rparr>\<rparr>"
  let ?p3 = "?p2\<lparr>run := ?c2, shutdown := ReporterStops\<rparr>"
  have client: "shutdownRpc (run ?p1) = (Ok (), ?c1)" "closeEvents (run ?p2) = (Ok (), ?c2)"
    using ch by (simp_all add: shutdownRpc_def closeEvents_def closeChan_def)
  have "process_reaches env p ?p1"
    by (rule reaches_move [OF process_runs.reaches_here p(3) process_move.signal [OF p(2)]])
  then have "process_reaches env p ?p2"
    by (rule reaches_move [OF _ _ process_move.shutdown_client [OF _ client(1)]]) (simp_all add: p(3))
  then have "process_reaches env p ?p3"
    by (rule reaches_move [OF _ _ process_move.close_events [OF _ client(2)]]) (simp_all add: p(3))
  then have "process_reaches env p
      (?p3\<lparr>run := (run ?p3)\<lparr>life := Stop (life (run ?p3))\<rparr>, shutdown := ReporterWaits\<rparr>)"
    by (rule reaches_move [OF _ _ process_move.stop_reporter]) (simp_all add: p(3))
  then show ?thesis by (cases "run p") (simp add: c)
qed

lemma interrupt_stops:
  assumes p: "eventLoop p = Waiting s" "shutdown p = NoSignal" "ended p = None"
    and ch: "\<not> isClosed (events (run p))" and one: "handlers (life (run p)) = 1"
  shows "\<exists>p'. process_reaches env p p' \<and> ended p' = Some (Exit 0) \<and> run p' = stopped (run p)"
proof -
  let ?c = "\<lparr>life = Stop (life (run p)), events = (events (run p))\<lparr>isClosed := True\<rparr>, rpcDown = True\<rparr>"
  let ?p4 = "p\<lparr>run := ?c, shutdown := ReporterWaits\<rparr>"
  let ?p5 = "?p4\<lparr>eventLoop := Returned s\<rparr>"
  let ?p6 = "?p5\<lparr>run := (run ?p5)\<lparr>life := handlerDone (life (run ?p5))\<rparr>, shutdown := HandlersDone\<rparr>"
  let ?p7 = "?p6\<lparr>ended := Some (Exit 0)\<rparr>"
  have "process_reaches env p ?p4" by (rule interrupt_closes [OF p ch refl])
  then have "process_reaches env p ?p5"
    by (rule reaches_move [OF _ _ process_move.leave]) (simp_all add: p(1,3) Stop_def)
  then have "process_reaches env p ?p6"
    by (rule reaches_move [OF _ _ process_move.reporter_stopped]) (simp_all add: p(3))
  then have "process_reaches env p ?p7"
    by (rule reaches_move [OF _ _ process_move.main_returns]) (simp_all add: p(3))
  moreover have "run ?p7 = stopped (run p)"
    using one by (cases "run p") (simp add: stopped_def handlerDone_def Stop_def)
  ultimately show ?thesis by (intro exI [of _ ?p7]) simp
qed

text \<open>The interrupt may also find the event handler in the receive: it then meets the closed channel.\<close>

lemma closed_channel_turn:
  assumes p: "eventLoop p = Waiting s" "shutdown p = NoSignal" "ended p = None" and ch: "\<not> isClosed (events (run p))"
    and empty: "waiting (events (run p)) = []"
  shows "\<exists>q q'. process_reaches env p q \<and> waiting (events (run q)) = [] \<and> isClosed (events (run q))
    \<and> process_step env q q' \<and> eventLoop q = Waiting s \<and> eventLoop q' = Returned s"
proof -
  let ?c = "\<lparr>life = Stop (life (run p)), events = (events (run p))\<lparr>isClosed := True\<rparr>, rpcDown = True\<rparr>"
  let ?q = "p\<lparr>run := ?c, shutdown := ReporterWaits\<rparr>"
  let ?down = "\<lambda>w. (Err (ErrExternal ''the client has been shutdown''), w)"
  let ?b = "(btcClient (theReporter env))\<lparr>GetBestBlock := ?down, GetBlockByHash := \<lambda>_. ?down,
    GetBlockByHeight := \<lambda>_. ?down, FindTailBlocksByHeight := \<lambda>_. ?down, FindRangeBlocksByHeight := \<lambda>_ _. ?down\<rparr>"
  let ?r = "(theReporter env)\<lparr>btcClient := ?b\<rparr>" and ?quit = "\<lambda>w. (True, w)"
  have "polls env (run ?q) ?quit" by (simp add: polls_def Stop_def)
  moreover have "serving (run ?q) (theReporter env) None ?r"
    by (auto simp: serving_def fading_def fades_def refuses_def)
  moreover have "onEvent ?quit (bootRetries env) ?r None s = (Ok False, s)"
    by (simp add: onEvent_def matureLoop.simps andThen_def lift_def)
  moreover have "receive (events (run ?q)) = Some (None, events (run ?q))" using empty by (simp add: receive_def)
  ultimately have "process_step env ?q (afterTurn (Ok False) s (?q\<lparr>run := (run ?q)\<lparr>events := events (run ?q)\<rparr>\<rparr>))"
    by (intro process_stepI process_move.turn [where quit = ?quit]) (simp_all add: p)
  moreover have "process_reaches env p ?q" by (rule interrupt_closes [OF p ch refl])
  ultimately show ?thesis using empty p(1) by (intro exI conjI) (assumption | simp)+
qed

end
