(* ===== verification/Program.thy ===== *)
theory Program
  imports Process
begin

text \<open>
  The program: the command tree (\<^verbatim>\<open>cmd/lrzrelayer/cmd/root.go\<close> and the two constructors of commands) and
  \<^verbatim>\<open>main\<close> (\<^verbatim>\<open>cmd/lrzrelayer/main.go\<close>). Parsing the arguments is cobra's, a parameter.
\<close>

section \<open>The command tree\<close>

text \<open>A command with its one-line help, its string flags with their defaults, and its subcommands.\<close>

datatype cobra_command =
  Command (Use: string) (Short: string) (Flags: "(string \<times> string) list") (Commands: "cobra_command list")

text \<open>\<^verbatim>\<open>filepath.Join\<close> of a clean directory and a file name.\<close>

definition filepath_Join :: "string \<Rightarrow> string \<Rightarrow> string" where
  "filepath_Join dir file = (if dir = '''' then file else dir @ ''/'' @ file)"

text \<open>\<open>appDataDir\<close> is btcutil's \<^verbatim>\<open>AppDataDir\<close> for a local user.\<close>

definition DefaultConfigFile :: "(string \<Rightarrow> string) \<Rightarrow> string" where
  "DefaultConfigFile appDataDir = filepath_Join (appDataDir ''lorenzo-relayer'') ''lrzrelayer.yml''"

definition GetReporterCmd :: "string \<Rightarrow> cobra_command" where
  "GetReporterCmd defaultConfigFile =
     Command ''reporter'' ''Lrzrelayer reporter'' [(''lorenzo-key-dir'', ''''), (''config'', defaultConfigFile)] []"

definition GetBNBReporterCommand :: "string \<Rightarrow> cobra_command" where
  "GetBNBReporterCommand defaultConfigFile =
     Command ''bnbreporter'' ''Lrzrelayer BNB reporter'' [(''config'', defaultConfigFile)] []"

definition NewRootCmd :: "string \<Rightarrow> cobra_command" where
  "NewRootCmd defaultConfigFile =
     Command ''lrzrelayer'' ''Lorenzo relayer'' []
       [GetReporterCmd defaultConfigFile, GetBNBReporterCommand defaultConfigFile]"

text \<open>
  What cobra makes of the arguments: an error, help that it prints itself, or the subcommand to run
  and the values its flags have.
\<close>

datatype invocation = Rejected go_error | Helped | Invoked string "string \<Rightarrow> string"

type_synonym cobra_parser = "cobra_command \<Rightarrow> string list \<Rightarrow> invocation"

text \<open>
  Cobra runs only subcommands of the tree, and a flag that is not given (\<open>given\<close> lists those that are)
  has its default.
\<close>

definition parser_lawful :: "cobra_parser \<Rightarrow> (string list \<Rightarrow> (string \<times> string) list) \<Rightarrow> bool" where
  "parser_lawful parse given \<longleftrightarrow> (\<forall>root args name flags. parse root args = Invoked name flags \<longrightarrow>
     (\<exists>c \<in> set (Commands root). Use c = name \<and> (\<forall>(f, dflt) \<in> set (Flags c).
        flags f = (case map_of (given args) f of Some v \<Rightarrow> v | None \<Rightarrow> dflt))))"

section \<open>The main function\<close>

text \<open>What the two commands need of the outside, the reporter's and the BNB reporter's.\<close>

record ('w, 'l) program_env =
  commandEnv :: "('w, 'l) command_env"
  externalsOf :: "'w externals"
  returning :: "running \<Rightarrow> bool"
  newBnbLorenzo :: "'l \<Rightarrow> ('w, 'w bnb_lorenzo_client) action"
  dialEth :: "string \<Rightarrow> ('w, ('w, u64) action) action"
  dialRpc :: "string \<Rightarrow> ('w, 'w bnb_rpc) action"
  rlpLib :: rlp_lib
  bnbCatchUp :: "'w bnb_reporter \<Rightarrow> ('w bnb_state, unit) action"
  bnbReturning :: "bnb_life \<Rightarrow> bool"

datatype 'w started =
    Finished nat
  | ReporterRuns "'w reporter" "'w reporter_state" "running interrupts"
  | BNBReporterRuns "'w bnb_reporter" "'w bnb_state" "bnb_life interrupts"

text \<open>
  \<^verbatim>\<open>main\<close> up to the wait of the command it runs: \<open>Finished n\<close> ends the process with status \<open>n\<close>. The event
  channel is as \<open>ch\<close> when the command waits.
\<close>

definition main ::
  "('w, 'l) program_env \<Rightarrow> ('w, unit) action \<Rightarrow> cobra_parser \<Rightarrow> (string \<Rightarrow> string) \<Rightarrow> event_chan \<Rightarrow> string list
    \<Rightarrow> ('w, 'w started) action" where
  "main env setAddressPrefixes execute appDataDir ch args =
     andThen setAddressPrefixes (\<lambda>_.
     case execute (NewRootCmd (DefaultConfigFile appDataDir)) args of
       Rejected e \<Rightarrow> lift (Ok (Finished 1))
     | Helped \<Rightarrow> lift (Ok (Finished 0))
     | Invoked name flags \<Rightarrow>
         if name = ''reporter''
         then andThen (reporterCommand (commandEnv env) (externalsOf env) (returning env) ch
                (flags ''config'') (flags ''lorenzo-key-dir'')) (\<lambda>(r, s, i).
              lift (Ok (ReporterRuns r s i)))
         else andThen (bnbReporterCommand (configEnv (commandEnv env)) (newBnbLorenzo env) (dialEth env)
                (dialRpc env) (rlpLib env) (bnbCatchUp env) (bnbReturning env) (flags ''config'')) (\<lambda>(r, s, i).
              lift (Ok (BNBReporterRuns r s i))))"

text \<open>The tree offers two commands; the program runs the one that was asked for, on its flags.\<close>

lemma NewRootCmd_commands: "map Use (Commands (NewRootCmd f)) = [''reporter'', ''bnbreporter'']"
  by (simp add: NewRootCmd_def GetReporterCmd_def GetBNBReporterCommand_def)

lemma main_reporter:
  assumes "main env prefixes execute dir ch args w = (Ok (ReporterRuns r s i), w')"
    and "parser_lawful execute given"
  shows "\<exists>w1. reporterCommand (commandEnv env) (externalsOf env) (returning env) ch
      (case map_of (given args) ''config'' of Some v \<Rightarrow> v | None \<Rightarrow> DefaultConfigFile dir)
      (case map_of (given args) ''lorenzo-key-dir'' of Some v \<Rightarrow> v | None \<Rightarrow> '''') w1 = (Ok (r, s, i), w')"
proof -
  let ?root = "NewRootCmd (DefaultConfigFile dir)"
  obtain name flags w1 where inv: "execute ?root args = Invoked name flags" "name = ''reporter''"
    and run: "reporterCommand (commandEnv env) (externalsOf env) (returning env) ch (flags ''config'')
      (flags ''lorenzo-key-dir'') w1 = (Ok (r, s, i), w')"
    using assms(1) by (auto simp: main_def andThen_Ok_iff split: invocation.splits if_splits)
  obtain c where c: "c \<in> set (Commands ?root)" "Use c = ''reporter''"
    and flags: "\<forall>(f, dflt) \<in> set (Flags c). flags f = (case map_of (given args) f of Some v \<Rightarrow> v | None \<Rightarrow> dflt)"
    using assms(2) inv unfolding parser_lawful_def by blast
  have "c = GetReporterCmd (DefaultConfigFile dir)"
    using c by (auto simp: NewRootCmd_def GetReporterCmd_def GetBNBReporterCommand_def)
  then have "flags ''config'' = (case map_of (given args) ''config'' of Some v \<Rightarrow> v | None \<Rightarrow> DefaultConfigFile dir)"
    and "flags ''lorenzo-key-dir'' = (case map_of (given args) ''lorenzo-key-dir'' of Some v \<Rightarrow> v | None \<Rightarrow> '''')"
    using flags by (auto simp: GetReporterCmd_def)
  then show ?thesis using run by metis
qed

text \<open>Without a subcommand that runs the process ends at once, with status 1 when cobra refused the arguments.\<close>

lemma main_finished:
  assumes "main env prefixes execute dir ch args w = (Ok (Finished n), w')"
  shows "(n = 0 \<and> execute (NewRootCmd (DefaultConfigFile dir)) args = Helped)
    \<or> (n = 1 \<and> (\<exists>e. execute (NewRootCmd (DefaultConfigFile dir)) args = Rejected e))"
  using assms by (auto simp: main_def andThen_Ok_iff split: invocation.splits if_splits)

end
