(* ===== verification/Restart.thy ===== *)
theory Restart
  imports Event_Loop Step_Runs
begin

text \<open>
  Starting, stopping and restarting the Bitcoin reporter concurrently (\<^verbatim>\<open>reporter/reporter.go\<close>): the
  goroutines that run \<^verbatim>\<open>Start\<close>, \<^verbatim>\<open>Stop\<close>, \<^verbatim>\<open>ShuttingDown\<close>, \<^verbatim>\<open>WaitForShutdown\<close> and the event handler, with
  the lock \<^verbatim>\<open>quitMu\<close>, the quit channels, the wait group and the contexts of \<^verbatim>\<open>reporterQuitCtx\<close>
  (\<^verbatim>\<open>reporter/bootstrapping.go\<close>). What they do between two of these operations is in the other
  theories; here they only take the time it takes.
\<close>

section \<open>Goroutines\<close>

text \<open>
  \<open>quitNo\<close> numbers the channel \<^verbatim>\<open>r.quit\<close> holds, \<open>closedQuits\<close> are the closed ones; \<open>contexts\<close> numbers the
  contexts made so far.
\<close>

record life_shared =
  quitMu :: bool
  quitNo :: nat
  closedQuits :: "nat list"
  startedFlag :: bool
  wg :: nat
  contexts :: nat
  cancelled :: "nat list"
  life_crashed :: bool

text \<open>
  Where a goroutine is. \<open>Restarting\<close> holds the lock. A start catches up at once (\<open>CatchingUp\<close>) or, far
  behind Bitcoin, with loops that watch the quit channel it has read. A bootstrap is run by \<^verbatim>\<open>Start\<close> (\<open>None\<close>) or by
  the handler with the quit channel it has read (\<open>Some q\<close>).
\<close>

datatype life_thread =
    Starting | Restarting | CatchingUp | CatchUpLoops nat
  | Booting "nat option" | Bootstrapping "nat option" nat | Watcher nat nat
  | HandlerStarts | Handling nat
  | Stopping | StopChecking nat | StopClosing nat
  | Asking | ShutdownWaiting

definition life_new :: life_shared where
  "life_new = \<lparr>quitMu = False, quitNo = 0, closedQuits = [], startedFlag = False, wg = 0,
     contexts = 0, cancelled = [], life_crashed = False\<rparr>"

definition quitIsClosed :: "nat \<Rightarrow> life_shared \<Rightarrow> bool" where
  "quitIsClosed q s \<longleftrightarrow> q \<in> set (closedQuits s)"

text \<open>
  \<^verbatim>\<open>reporterQuitCtx\<close>, after it has read the quit channel: it makes a context and starts the goroutine
  that ends with the quit channel or with the context.
\<close>

definition reporterQuitCtx :: "nat option \<Rightarrow> life_shared \<Rightarrow> life_shared \<times> life_thread list" where
  "reporterQuitCtx by s =
     (s\<lparr>wg := wg s + 1, contexts := contexts s + 1\<rparr>,
      [Bootstrapping by (contexts s), Watcher (quitNo s) (contexts s)])"

text \<open>
  \<open>thread_step s t s' ts\<close>: a goroutine at \<open>t\<close> moves on; \<open>ts\<close> is where it is then, and the goroutines it
  has started. Taking and releasing the lock around a read is one step.
\<close>

inductive thread_step ::
  "life_shared \<Rightarrow> life_thread \<Rightarrow> life_shared \<Rightarrow> life_thread list \<Rightarrow> bool"
  for s where
  start_ignored: "\<not> quitMu s \<Longrightarrow> \<not> quitIsClosed (quitNo s) s \<Longrightarrow> startedFlag s \<Longrightarrow>
    thread_step s Starting s []"
| start_first: "\<not> quitMu s \<Longrightarrow> \<not> quitIsClosed (quitNo s) s \<Longrightarrow> \<not> startedFlag s \<Longrightarrow>
    thread_step s Starting (s\<lparr>startedFlag := True\<rparr>) [CatchingUp]"
| start_again: "\<not> quitMu s \<Longrightarrow> quitIsClosed (quitNo s) s \<Longrightarrow>
    thread_step s Starting (s\<lparr>quitMu := True\<rparr>) [Restarting]"
| restart: "wg s = 0 \<Longrightarrow>
    thread_step s Restarting (s\<lparr>quitMu := False, quitNo := quitNo s + 1\<rparr>) [CatchingUp]"
| caught_up: "thread_step s CatchingUp s [Booting None]"
| far_behind: "\<not> quitMu s \<Longrightarrow> thread_step s CatchingUp s [CatchUpLoops (quitNo s)]"
| loops_end: "thread_step s (CatchUpLoops q) s [Booting None]"
| quit_ctx: "\<not> quitMu s \<Longrightarrow> reporterQuitCtx by s = (s', ts) \<Longrightarrow> thread_step s (Booting by) s' ts"
| start_booted:
    "thread_step s (Bootstrapping None c) (s\<lparr>cancelled := c # cancelled s, wg := wg s + 1\<rparr>) [HandlerStarts]"
| handler_booted:
    "thread_step s (Bootstrapping (Some q) c) (s\<lparr>cancelled := c # cancelled s\<rparr>) [Handling q]"
| watched: "quitIsClosed q s \<or> c \<in> set (cancelled s) \<Longrightarrow>
    thread_step s (Watcher q c) (s\<lparr>wg := wg s - 1\<rparr>) []"
| handler_quit: "\<not> quitMu s \<Longrightarrow> thread_step s HandlerStarts s [Handling (quitNo s)]"
| handler_error: "thread_step s (Handling q) s [Booting (Some q)]"
| handler_ends: "quitIsClosed q s \<Longrightarrow> thread_step s (Handling q) (s\<lparr>wg := wg s - 1\<rparr>) []"
| stop_read: "\<not> quitMu s \<Longrightarrow> thread_step s Stopping s [StopChecking (quitNo s)]"
| stop_closed: "quitIsClosed q s \<Longrightarrow> thread_step s (StopChecking q) s []"
| stop_open: "\<not> quitIsClosed q s \<Longrightarrow> thread_step s (StopChecking q) s [StopClosing q]"
| stop_close: "\<not> quitIsClosed q s \<Longrightarrow>
    thread_step s (StopClosing q) (s\<lparr>closedQuits := q # closedQuits s\<rparr>) []"
| stop_twice: "quitIsClosed q s \<Longrightarrow> thread_step s (StopClosing q) (s\<lparr>life_crashed := True\<rparr>) []"
| asked: "\<not> quitMu s \<Longrightarrow> thread_step s Asking s []"
| shut_down: "wg s = 0 \<Longrightarrow> thread_step s ShutdownWaiting s []"

inductive_cases thread_stepE: "thread_step s t s' ts"

type_synonym life_state = "life_shared \<times> life_thread list"

text \<open>Any goroutine moves, or a caller of the package calls; a panic ends the program.\<close>

inductive life_step :: "life_state \<Rightarrow> life_state \<Rightarrow> bool" where
  move: "\<not> life_crashed s \<Longrightarrow> thread_step s t s' ts \<Longrightarrow> life_step (s, pre @ t # post) (s', pre @ ts @ post)"
| calls: "\<not> life_crashed s \<Longrightarrow> t \<in> {Starting, Stopping, Asking, ShutdownWaiting} \<Longrightarrow>
    life_step (s, ts) (s, ts @ [t])"

inductive life_reaches :: "life_state \<Rightarrow> life_state \<Rightarrow> bool" for k where
  here: "life_reaches k k"
| step: "life_reaches k k1 \<Longrightarrow> life_step k1 k2 \<Longrightarrow> life_reaches k k2"

interpretation life_runs: stepping life_step life_reaches
proof
  show "life_reaches s u" if "life_reaches s t" "life_step t u" for s t u
    using that by (rule life_reaches.step)
  show "P t" if "life_reaches s t" "P s" "\<And>t u. P t \<Longrightarrow> life_step t u \<Longrightarrow> P u" for s t P
    using that by induction auto
qed (rule life_reaches.here)

section \<open>The wait group and the lock\<close>

text \<open>The goroutines that call \<^verbatim>\<open>wg.Done()\<close> when they end.\<close>

fun counted :: "life_thread \<Rightarrow> bool" where
  "counted HandlerStarts = True"
| "counted (Handling q) = True"
| "counted (Booting by) = (by \<noteq> None)"
| "counted (Bootstrapping by c) = (by \<noteq> None)"
| "counted (Watcher q c) = True"
| "counted _ = False"

definition alive :: "life_thread list \<Rightarrow> nat" where
  "alive ts = length (filter counted ts)"

definition lockers :: "life_thread list \<Rightarrow> nat" where
  "lockers ts = length (filter ((=) Restarting) ts)"

lemma alive_simps [simp]: "alive [] = 0" "alive (t # ts) = (if counted t then 1 else 0) + alive ts"
  "alive (as @ bs) = alive as + alive bs"
  by (simp_all add: alive_def)

lemma lockers_simps [simp]: "lockers [] = 0"
  "lockers (t # ts) = (if t = Restarting then 1 else 0) + lockers ts"
  "lockers (as @ bs) = lockers as + lockers bs"
  by (simp_all add: lockers_def)

fun life_inv :: "life_state \<Rightarrow> bool" where
  "life_inv (s, ts) \<longleftrightarrow> wg s = alive ts \<and> lockers ts = (if quitMu s then 1 else 0)
     \<and> (\<forall>q \<in> set (closedQuits s). q \<le> quitNo s)
     \<and> (\<forall>q. StopChecking q \<in> set ts \<or> StopClosing q \<in> set ts \<longrightarrow> q \<le> quitNo s)"

lemma thread_step_inv:
  assumes "thread_step s t s' ts" and "life_inv (s, pre @ t # post)"
  shows "life_inv (s', pre @ ts @ post)"
  using assms by cases (auto simp: quitIsClosed_def reporterQuitCtx_def le_SucI split: if_splits)

lemma life_step_inv: "life_step k k' \<Longrightarrow> life_inv k \<Longrightarrow> life_inv k'"
  by (induction rule: life_step.induct) (use thread_step_inv in blast, auto)

lemma life_new_inv: "life_inv (life_new, [])"
  by (simp add: life_new_def)

lemma life_reaches_inv: "life_reaches (life_new, []) k \<Longrightarrow> life_inv k"
  by (rule life_runs.keeps [where I = life_inv]) (auto intro: life_new_inv life_step_inv)

section \<open>A restart that waits for ever\<close>

text \<open>The goroutines the wait group counts that are about to take the lock.\<close>

fun needsLock :: "life_thread \<Rightarrow> bool" where
  "needsLock HandlerStarts = True"
| "needsLock (Booting by) = True"
| "needsLock _ = False"

lemma blocked_step:
  assumes "thread_step s u s' ts" and "quitMu s" and "wg s \<noteq> 0"
  shows "quitMu s' \<and> u \<noteq> Restarting \<and> \<not> needsLock u"
  using assms by cases auto

lemma waiting_step:
  assumes "life_step k k'" and "life_inv k" and "counted t" and "needsLock t"
    and "quitMu (fst k)" and "Restarting \<in> set (snd k)" and "t \<in> set (snd k)"
  shows "quitMu (fst k') \<and> Restarting \<in> set (snd k') \<and> t \<in> set (snd k')"
  using assms(1)
proof cases
  case (move s u s' ts pre post)
  have "wg s = alive (snd k)" using assms(2) move(1) by simp
  moreover have "alive (snd k) \<noteq> 0" using assms(3,7) by (auto simp: alive_def filter_empty_conv)
  ultimately have "quitMu s'" and "u \<noteq> Restarting" and "\<not> needsLock u"
    using blocked_step [OF move(4)] assms(5) move(1) by simp_all
  then show ?thesis using assms(4,6,7) move(1,2) by auto
qed (use assms in auto)

lemma wedged_for_ever:
  assumes "life_reaches k k'" and "life_inv k" and "counted t" and "needsLock t"
    and "Restarting \<in> set (snd k)" and "t \<in> set (snd k)"
  shows "life_inv k' \<and> quitMu (fst k') \<and> Restarting \<in> set (snd k') \<and> t \<in> set (snd k')"
proof (rule life_runs.keeps_under [where I = life_inv, OF assms(1,2) life_step_inv])
  have "lockers (snd k) \<noteq> 0" using assms(5) by (auto simp: lockers_def filter_empty_conv)
  then show "quitMu (fst k) \<and> Restarting \<in> set (snd k) \<and> t \<in> set (snd k)"
    using assms by (cases k) (auto split: if_splits)
qed (use waiting_step assms(3,4) in blast)+

section \<open>Runs\<close>

lemma reach_move:
  assumes "life_reaches k (s, pre @ t # post)" and "thread_step s t s' ts" and "\<not> life_crashed s"
  shows "life_reaches k (s', pre @ ts @ post)"
  using assms by (blast intro: life_reaches.step life_step.move)

lemma reach_call:
  assumes "life_reaches k (s, ts)" and "t \<in> {Starting, Stopping, Asking, ShutdownWaiting}" and "\<not> life_crashed s"
  shows "life_reaches k (s, ts @ [t])"
  using assms by (blast intro: life_reaches.step life_step.calls)

text \<open>A stop, the way from the catch-up to the handler, and a restart when nothing is counted.\<close>

lemma run_stop:
  assumes "life_reaches k (s, ts)" and "\<not> quitMu s" "\<not> quitIsClosed (quitNo s) s" "\<not> life_crashed s"
  shows "life_reaches k (s\<lparr>closedQuits := quitNo s # closedQuits s\<rparr>, ts)"
proof -
  have "life_reaches k (s, ts @ [Stopping])" using assms by (intro reach_call) simp_all
  then have "life_reaches k (s, ts @ [StopChecking (quitNo s)] @ [])"
    using assms by (intro reach_move [OF _ stop_read]) simp_all
  then have "life_reaches k (s, ts @ [StopClosing (quitNo s)] @ [])"
    using assms by (intro reach_move [OF _ stop_open]) simp_all
  then have "life_reaches k (s\<lparr>closedQuits := quitNo s # closedQuits s\<rparr>, ts @ [] @ [])"
    using assms by (intro reach_move [OF _ stop_close]) simp_all
  then show ?thesis by simp
qed

lemma run_boot:
  assumes "life_reaches k (s, pre @ CatchingUp # post)" and "\<not> quitMu s" "\<not> life_crashed s"
  shows "life_reaches k (s\<lparr>wg := wg s + 1, contexts := contexts s + 1, cancelled := contexts s # cancelled s\<rparr>,
    pre @ HandlerStarts # post)"
proof -
  let ?c = "contexts s" and ?q = "quitNo s"
  let ?s1 = "s\<lparr>wg := wg s + 1, contexts := ?c + 1\<rparr>"
  let ?s2 = "?s1\<lparr>cancelled := ?c # cancelled ?s1, wg := wg ?s1 + 1\<rparr>"
  have "life_reaches k (s, pre @ [Booting None] @ post)"
    using assms by (intro reach_move [OF _ caught_up]) simp_all
  then have "life_reaches k (?s1, pre @ [Bootstrapping None ?c, Watcher ?q ?c] @ post)"
    using assms by (intro reach_move [OF _ quit_ctx]) (simp_all add: reporterQuitCtx_def)
  then have "life_reaches k (?s1, pre @ Bootstrapping None ?c # (Watcher ?q ?c # post))" by simp
  then have "life_reaches k (?s2, pre @ [HandlerStarts] @ (Watcher ?q ?c # post))"
    using assms by (intro reach_move [OF _ start_booted]) simp_all
  then have "life_reaches k (?s2, (pre @ [HandlerStarts]) @ Watcher ?q ?c # post)" by simp
  then have "life_reaches k (?s2\<lparr>wg := wg ?s2 - 1\<rparr>, (pre @ [HandlerStarts]) @ [] @ post)"
    using assms by (intro reach_move [OF _ watched]) (simp, rule disjI2, simp, simp)
  moreover have "?s2\<lparr>wg := wg ?s2 - 1\<rparr>
      = s\<lparr>wg := wg s + 1, contexts := contexts s + 1, cancelled := contexts s # cancelled s\<rparr>"
    by (cases s) simp
  ultimately show ?thesis by (simp only: append_assoc append_Cons append_Nil)
qed

lemma run_start_again:
  assumes "life_reaches k (s, ts)" and "\<not> quitMu s" "quitIsClosed (quitNo s) s" "\<not> life_crashed s"
  shows "life_reaches k (s\<lparr>quitMu := True\<rparr>, ts @ [Restarting])"
proof -
  have "life_reaches k (s, ts @ [Starting])" using assms by (intro reach_call) simp_all
  then have "life_reaches k (s\<lparr>quitMu := True\<rparr>, ts @ [Restarting] @ [])"
    using assms by (intro reach_move [OF _ start_again]) simp_all
  then show ?thesis by simp
qed

lemma run_restart:
  assumes "life_reaches k (s, ts)" and "\<not> quitMu s" "quitIsClosed (quitNo s) s" "\<not> life_crashed s" "wg s = 0"
  shows "life_reaches k (s\<lparr>quitNo := quitNo s + 1\<rparr>, ts @ [CatchingUp])"
proof -
  have "life_reaches k (s\<lparr>quitMu := True\<rparr>, ts @ Restarting # [])" using run_start_again assms by simp
  then have "life_reaches k (s\<lparr>quitMu := True\<rparr>\<lparr>quitMu := False, quitNo := quitNo s + 1\<rparr>, ts @ [CatchingUp] @ [])"
    using reach_move [OF _ restart, of k "s\<lparr>quitMu := True\<rparr>" ts "[]"] assms by simp
  moreover have "s\<lparr>quitMu := True\<rparr>\<lparr>quitMu := False, quitNo := quitNo s + 1\<rparr> = s\<lparr>quitNo := quitNo s + 1\<rparr>"
    using assms(2) by (cases s) simp
  ultimately show ?thesis by simp
qed

lemma run_first_start:
  "life_reaches (life_new, []) (life_new\<lparr>startedFlag := True\<rparr>, [CatchingUp])"
proof -
  have "life_reaches (life_new, []) (life_new, [] @ [Starting])"
    by (intro reach_call here) (simp_all add: life_new_def)
  then have "life_reaches (life_new, []) (life_new\<lparr>startedFlag := True\<rparr>, [] @ [CatchingUp] @ [])"
    by (intro reach_move [OF _ start_first]) (simp_all add: life_new_def quitIsClosed_def)
  then show ?thesis by simp
qed

lemma run_handler:
  assumes "life_reaches k (s, pre @ HandlerStarts # post)" and "\<not> quitMu s" "\<not> life_crashed s"
  shows "life_reaches k (s, pre @ Handling (quitNo s) # post)"
  using reach_move [OF assms(1) handler_quit] assms by simp

text \<open>Two calls of \<^verbatim>\<open>Stop\<close> may both find the channel open; the second close panics.\<close>

lemma concurrent_stops_panic: "\<exists>s ts. life_reaches (life_new, []) (s, ts) \<and> life_crashed s"
proof -
  have "life_reaches (life_new, []) (life_new, [] @ [Stopping])"
    by (intro reach_call here) (simp_all add: life_new_def)
  then have "life_reaches (life_new, []) (life_new, [] @ [StopChecking 0] @ [])"
    using stop_read [of life_new] by (intro reach_move [where s = life_new]) (simp_all add: life_new_def)
  then have "life_reaches (life_new, []) (life_new, [] @ [StopClosing 0] @ [])"
    by (intro reach_move [OF _ stop_open]) (simp_all add: life_new_def quitIsClosed_def)
  then have "life_reaches (life_new, []) (life_new\<lparr>closedQuits := [0]\<rparr>, [StopClosing 0])"
    using run_stop [of "(life_new, [])" life_new] by (simp add: life_new_def quitIsClosed_def)
  then have "life_reaches (life_new, []) (life_new\<lparr>closedQuits := [0]\<rparr>, [] @ StopClosing 0 # [])" by simp
  then have "life_reaches (life_new, [])
      (life_new\<lparr>closedQuits := [0]\<rparr>\<lparr>life_crashed := True\<rparr>, [] @ [] @ [])"
    by (rule reach_move [OF _ stop_twice]) (simp_all add: life_new_def quitIsClosed_def)
  then show ?thesis by (intro exI conjI) (assumption, simp)
qed

section \<open>One handler until the first stop\<close>

text \<open>The goroutines that are on the way to the handler or run it.\<close>

fun worker :: "life_thread \<Rightarrow> bool" where
  "worker CatchingUp = True"
| "worker (CatchUpLoops q) = True"
| "worker (Booting by) = True"
| "worker (Bootstrapping by c) = True"
| "worker HandlerStarts = True"
| "worker (Handling q) = True"
| "worker _ = False"

definition workers :: "life_thread list \<Rightarrow> nat" where
  "workers ts = length (filter worker ts)"

lemma workers_simps [simp]: "workers [] = 0" "workers (t # ts) = (if worker t then 1 else 0) + workers ts"
  "workers (as @ bs) = workers as + workers bs"
  by (simp_all add: workers_def)

lemma single_step:
  assumes "life_step k k'" and "life_inv k" and "closedQuits (fst k) = [] \<longrightarrow>
      \<not> quitMu (fst k) \<and> workers (snd k) \<le> (if startedFlag (fst k) then 1 else 0)"
  shows "closedQuits (fst k') = [] \<longrightarrow>
      \<not> quitMu (fst k') \<and> workers (snd k') \<le> (if startedFlag (fst k') then 1 else 0)"
  using assms(1)
proof cases
  case (move s u s' ts pre post)
  show ?thesis
    using move(4) assms(2,3) move(1,2)
    by cases (auto simp: quitIsClosed_def reporterQuitCtx_def split: if_splits)
qed (use assms in auto)

lemma single_handler:
  assumes "life_reaches (life_new, []) k" and "closedQuits (fst k) = []"
  shows "workers (snd k) \<le> 1"
proof -
  have "life_inv k \<and> (closedQuits (fst k) = [] \<longrightarrow>
      \<not> quitMu (fst k) \<and> workers (snd k) \<le> (if startedFlag (fst k) then 1 else 0))"
    by (rule life_runs.keeps_under [where I = life_inv, OF assms(1) life_new_inv life_step_inv _ single_step])
      (simp_all add: life_new_def)
  then show ?thesis using assms(2) by (auto split: if_splits)
qed

end
