(* ===== verification/Properties_Bitcoin.thy ===== *)
theory Properties_Bitcoin
  imports Reorg_Run
begin

text \<open>
  The properties of the cache (\<^verbatim>\<open>types/btccache.go\<close>), of the Bitcoin client
  (\<^verbatim>\<open>btcclient/query.go\<close>) and of the submission of headers (\<^verbatim>\<open>reporter/utils.go\<close>), each with
  an application to a concrete input.
\<close>

section \<open>The cache\<close>

text \<open>
  C15: on a well-formed, non-empty cache that holds a chain, the binary search \<^verbatim>\<open>FindBlock\<close> returns
  what a linear search for the height returns; it never indexes out of range and always ends.
\<close>

theorem FindBlock_is_linear_search:
  assumes wf: "cache_wf c" and ch: "chain H (blocks c)" and ne: "blocks c \<noteq> []"
  shows "FindBlock h c = Ok (List.find (\<lambda>b. Height b = int32_of_uint64 h) (blocks c))"
proof (cases "List.find (\<lambda>b. Height b = int32_of_uint64 h) (blocks c)")
  case None
  then have "FindBlock h c = Ok None"
    using FindBlock_chain(2) [OF ch wf ne] by (auto simp: find_None_iff)
  then show ?thesis using None by simp
next
  case (Some b)
  then have "b \<in> set (blocks c)" "Height b = int32_of_uint64 h"
    by (auto simp: find_Some_iff)
  then show ?thesis using Some FindBlock_chain(1) [OF ch wf ne] by simp
qed

abbreviation sampleMain :: "indexed_block list" where
  "sampleMain \<equiv> [sampleBlock 1 1, sampleBlock 2 2, sampleBlock 3 3]"

lemma sampleMain_cache:
  "cache_wf (sampleCache sampleMain)" "blocks (sampleCache sampleMain) = sampleMain"
  "chain (hf_BlockHash sampleFuns) sampleMain"
  by (simp_all add: sample_simps cache_wf_def linked_def BlockHash_def)

theorem FindBlock_is_linear_search_witness:
  "FindBlock 2 (sampleCache sampleMain) = Ok (Some (sampleBlock 2 2))
   \<and> FindBlock 7 (sampleCache sampleMain) = Ok None"
proof -
  note find = FindBlock_is_linear_search [of "sampleCache sampleMain" "hf_BlockHash sampleFuns",
      unfolded sampleMain_cache(2), OF sampleMain_cache(1,3)]
  show ?thesis using find [of 2] find [of 7] by (simp add: sampleBlock_def)
qed

text \<open>
  C16: on a non-empty cache that holds a chain, \<^verbatim>\<open>GetLastBlocks\<close> returns the blocks from the asked
  height to the tip, and an error exactly when no block has that height.
\<close>

theorem GetLastBlocks_is_suffix_from_height:
  assumes ch: "chain H (blocks c)" and ne: "blocks c \<noteq> []"
  shows "GetLastBlocks h c =
    (if \<exists>b \<in> set (blocks c). Height b = int32_of_uint64 h
     then Ok (dropWhile (\<lambda>b. Height b \<noteq> int32_of_uint64 h) (blocks c))
     else Err (ErrMessage ''the given stopHeight is out of range of BTC cache''))"
proof (cases "\<exists>b \<in> set (blocks c). Height b = int32_of_uint64 h")
  case True
  with GetLastBlocks_chain [OF ch ne, of h] obtain pre x post where
    split: "blocks c = pre @ x # post" and x: "Height x = int32_of_uint64 h"
    and get: "GetLastBlocks h c = Ok (x # post)" by blast
  have "Height b \<noteq> int32_of_uint64 h" if "b \<in> set pre" for b
  proof
    assume h: "Height b = int32_of_uint64 h"
    obtain i where i: "i < length pre" "pre ! i = b"
      using \<open>b \<in> set pre\<close> by (auto simp: in_set_conv_nth)
    have "i = length pre"
      using chain_ht_inj [OF ch, of i "length pre"] i h x split by (simp add: nth_append)
    with i(1) show False by simp
  qed
  then have "dropWhile (\<lambda>b. Height b \<noteq> int32_of_uint64 h) (pre @ x # post) = x # post"
    using x by (subst dropWhile_append2) auto
  then show ?thesis using True split get by simp
next
  case False
  then show ?thesis using ne by (simp add: GetLastBlocks_def outOfRange_chain [OF ch ne])
qed

theorem GetLastBlocks_is_suffix_from_height_witness:
  "GetLastBlocks 2 (sampleCache sampleMain) = Ok [sampleBlock 2 2, sampleBlock 3 3]
   \<and> GetLastBlocks 4 (sampleCache sampleMain)
       = Err (ErrMessage ''the given stopHeight is out of range of BTC cache'')"
proof -
  note get = GetLastBlocks_is_suffix_from_height [of "hf_BlockHash sampleFuns" "sampleCache sampleMain",
      unfolded sampleMain_cache(2), OF sampleMain_cache(3)]
  show ?thesis using get [of 2] get [of 4] by (simp add: sampleBlock_def)
qed

definition window :: "nat \<Rightarrow> 'a list \<Rightarrow> 'a list" where
  "window n xs = drop (length xs - n) xs"

text \<open>
  C17: a cache refines a sliding window. Adding blocks one after the other keeps the newest
  \<^verbatim>\<open>maxEntries\<close> of what was there and what was added; \<^verbatim>\<open>Resize\<close> followed by \<^verbatim>\<open>Trim\<close> narrows the
  window to its newest blocks; no operation fails, and the cache stays well formed.
\<close>

theorem cache_refines_sliding_window:
  assumes wf: "cache_wf c" and m: "0 < unat m" "unat m < 2 ^ 63"
  shows "(\<exists>c'. add_all ibs c = Ok c' \<and> cache_wf c' \<and> maxEntries c' = maxEntries c
      \<and> blocks c' = window (unat (maxEntries c)) (blocks c @ ibs))
    \<and> (\<exists>c1 c2. Resize m c = Ok c1 \<and> Trim c1 = Ok c2 \<and> cache_wf c2 \<and> maxEntries c2 = m
      \<and> blocks c2 = window (unat m) (blocks c))"
proof
  show "\<exists>c'. add_all ibs c = Ok c' \<and> cache_wf c' \<and> maxEntries c' = maxEntries c
      \<and> blocks c' = window (unat (maxEntries c)) (blocks c @ ibs)"
    using cache.pushAll_window [OF wf, of ibs] add_all_maxEntries
    by (fastforce simp: add_all_pushAll window_def)
  have m0: "m \<noteq> 0" using m(1) by auto
  have "Trim (c\<lparr>maxEntries := m\<rparr>)
      = Ok (c\<lparr>maxEntries := m, blocks := drop (length (blocks c) - unat m) (blocks c)\<rparr>)"
    using Trim_Ok [of "c\<lparr>maxEntries := m\<rparr>"] cache_wfD(4) [OF wf] m(2) by simp
  moreover have "cache_wf (c\<lparr>maxEntries := m, blocks := drop (length (blocks c) - unat m) (blocks c)\<rparr>)"
    using m by (simp add: cache_wf_def)
  ultimately show "\<exists>c1 c2. Resize m c = Ok c1 \<and> Trim c1 = Ok c2 \<and> cache_wf c2 \<and> maxEntries c2 = m
      \<and> blocks c2 = window (unat m) (blocks c)"
    using m0 by (simp add: Resize_def window_def)
qed

theorem cache_refines_sliding_window_witness:
  "\<exists>c1 c2. Resize 2 (sampleCache sampleMain) = Ok c1 \<and> Trim c1 = Ok c2
     \<and> blocks c2 = [sampleBlock 2 2, sampleBlock 3 3]"
  using cache_refines_sliding_window [OF sampleMain_cache(1), of 2 "[]"]
  by (auto simp: window_def sampleMain_cache(2))

text \<open>
  C18: \<^verbatim>\<open>Init\<close> of a fresh cache stores the given blocks when they fit and are sorted by height, and
  otherwise returns the error for what is wrong, the size first; it never panics.
\<close>

theorem Init_outcomes:
  assumes wf: "cache_wf b" and empty: "blocks b = []"
  shows "Init ibs b =
    (if unat (maxEntries b) < length ibs then Err ErrTooManyEntries
     else if \<not> sorted_by_height ibs then Err ErrorUnsortedBlocks
     else Ok (b\<lparr>blocks := ibs\<rparr>))"
proof -
  have max: "int_of_uint64 (maxEntries b) = int (unat (maxEntries b))"
    using sint_eq_unat_u64 [OF cache_wfD(2) [OF wf]] .
  show ?thesis
  proof (cases "length ibs \<le> unat (maxEntries b) \<and> sorted_by_height ibs")
    case True
    then show ?thesis using Init_Ok_iff [OF wf empty, of ibs "b\<lparr>blocks := ibs\<rparr>"] by auto
  next
    case False
    then show ?thesis unfolding Init_def max by auto
  qed
qed

theorem Init_outcomes_witness:
  "Init sampleMain (sampleCache []) = Ok (sampleCache sampleMain)
   \<and> Init [sampleBlock 2 2, sampleBlock 1 1] (sampleCache []) = Err ErrorUnsortedBlocks"
proof -
  have wf: "cache_wf (sampleCache [])" and e: "blocks (sampleCache []) = []"
    by (simp_all add: sampleCache_def cache_wf_def)
  show ?thesis
    unfolding Init_outcomes [OF wf e]
    by (simp add: sampleCache_def sorted_by_height_def sampleBlock_def)
qed

text \<open>
  \<^verbatim>\<open>TrimConfirmedBlocks\<close> splits the cache: what it returns followed by what it keeps is what
  was there, and it keeps the last \<open>k\<close> blocks, or all of them when there are fewer.
\<close>

lemma TrimConfirmedBlocks_splits:
  assumes "0 \<le> k"
  shows "\<exists>taken c'. TrimConfirmedBlocks k c = Ok (taken, c') \<and> taken @ blocks c' = blocks c
    \<and> int (length (blocks c')) = min k (int (length (blocks c))) \<and> maxEntries c' = maxEntries c"
  using assms by (auto simp: TrimConfirmedBlocks_def Let_def)

lemma TrimConfirmedBlocks_splits_witness:
  "\<exists>taken c'. TrimConfirmedBlocks 1 (sampleCache sampleMain) = Ok (taken, c')
     \<and> taken @ blocks c' = sampleMain \<and> length (blocks c') = 1"
  using TrimConfirmedBlocks_splits [of 1 "sampleCache sampleMain"] by (auto simp: sampleMain_cache(2))

section \<open>The Bitcoin client\<close>

text \<open>
  C19: over a node that answers as a Bitcoin node does, the client keeps every promise of the
  interface the reporter uses: an answer for a hash is the block with that hash, a tail or a
  range is a non-empty chain of blocks at their heights, from the asked height on.
\<close>

theorem client_refines_interface:
  assumes "node_lawful hf hgt c"
  shows "client_lawful hf hgt (client_of backend retry sub c)"
  using assms by (rule client_of_lawful)

theorem client_refines_interface_witness:
  "client_lawful sampleFuns sampleHgt (client_of ''btcd'' id (\<lambda>w. (Ok (), w)) (sampleNode True 5))"
  by (rule client_refines_interface [OF sampleNode_lawful])

text \<open>
  C20: \<^verbatim>\<open>FindTailBlocksByHeight\<close> returns every block from the asked height up to the node's best
  block, each linked to the one before, with no gap.
\<close>

theorem FindTailBlocksByHeight_reaches_best:
  assumes law: "node_lawful hf hgt c" and run: "client_FindTailBlocksByHeight c base w = (Ok bs, w')"
  shows "\<exists>w1 best. GetBestBlockHash c w = (Ok best, w1) \<and> BlockHash (hf_BlockHash hf) (last bs) = best
    \<and> bs \<noteq> [] \<and> chain (hf_BlockHash hf) bs \<and> ht (hd bs) = uint base
    \<and> int (length bs) = hgt best - uint base + 1"
proof -
  obtain tip w2 where tip: "getBestIndexedBlock c w = (Ok tip, w2)"
    and chain: "getChainBlocks c base tip w2 = (Ok bs, w')"
    using run by (auto simp: client_FindTailBlocksByHeight_def andThen_Ok_iff split: if_splits)
  from tip obtain w1 best mb where best: "GetBestBlockHash c w = (Ok best, w1)"
    and byHash: "client_GetBlockByHash c best w1 = (Ok (tip, mb), w2)"
    by (auto simp: getBestIndexedBlock_def outcome_Ok_iffs)
  note b = client_GetBlockByHash_lawful [OF law byHash]
  note ch = getChainBlocks_lawful [OF law b(3) chain]
  have "ht tip = hgt best" using b(1,3) by (simp add: on_node_def)
  then show ?thesis using best b(1) ch chain_ht_last [OF ch(2,1)] by auto
qed

lemma sampleNode_tail:
  "client_FindTailBlocksByHeight (sampleNode True 4) 2 () =
     (Ok [sampleBlock 2 2, sampleBlock 3 203, sampleBlock 4 204], ())"
proof -
  have best: "GetBestBlockHash (sampleNode True 4) w = (Ok 204, w)" for w
    by (simp add: sampleNode_def)
  have h: "sampleHgt 204 = 4" "sampleHgt 203 = 3" "sampleHgt 2 = 2"
    by (simp_all add: sampleHgt_def)
  have idx: "getBestIndexedBlock (sampleNode True 4) () = (Ok (sampleBlock 4 204), ())"
    by (simp add: getBestIndexedBlock_def andThen_def wrapErr_def best sampleNode_byHash h)
  have p: "PrevBlock (Header (sampleBlock 4 204)) = 203" "PrevBlock (sampleHeader 203) = 2" "Height (sampleBlock 4 204) = 4"
    by (simp_all add: sampleBlock_def sampleHeader_def)
  have "chainLoop (sampleNode True 4) (Suc (Suc 0)) 203 [sampleBlock 4 204] () =
     (Ok [sampleBlock 2 2, sampleBlock 3 203, sampleBlock 4 204], ())"
    by (simp add: p sampleNode_byHash h andThen_def wrapErr_def)
  then have loop: "chainLoop (sampleNode True 4) 2 203 [sampleBlock 4 204] () =
     (Ok [sampleBlock 2 2, sampleBlock 3 203, sampleBlock 4 204], ())"
    by (simp only: numeral_2_eq_2)
  have "getChainBlocks (sampleNode True 4) 2 (sampleBlock 4 204) () =
     (Ok [sampleBlock 2 2, sampleBlock 3 203, sampleBlock 4 204], ())"
    by (simp add: getChainBlocks_def makeslice_panics_def p Let_def loop)
  then show ?thesis
    by (simp add: client_FindTailBlocksByHeight_def andThen_def idx p)
qed

theorem FindTailBlocksByHeight_reaches_best_witness:
  "\<exists>w1 best. GetBestBlockHash (sampleNode True 4) () = (Ok best, w1)
    \<and> BlockHash (hf_BlockHash sampleFuns) (sampleBlock 4 204) = best"
  using FindTailBlocksByHeight_reaches_best [OF sampleNode_lawful sampleNode_tail] by auto

section \<open>Submission\<close>

text \<open>
  C10: whatever its outcome, \<^verbatim>\<open>ProcessHeaders\<close> makes Lorenzo accept only a contiguous run of the given
  headers, in order, that starts at the first block Lorenzo reported missing, in messages of the
  given signer that are not empty and hold at most \<^verbatim>\<open>MaxHeadersInMsg\<close> headers; when it returns no
  error the run reaches the last block and the number returned is the number of headers accepted.
\<close>

theorem ProcessHeaders_submission:
  assumes "retry_lawful (retryDo r)" and "lorenzoClient r = logging l"
    and "ProcessHeaders r signer ibs s = (out, s')"
  shows "\<exists>sent. accepted s' = accepted s @ sent
    \<and> submission r signer (\<exists>n. out = Ok n) ibs sent
    \<and> SuccessfulHeadersCounter (metrics s')
        = SuccessfulHeadersCounter (metrics s) + length (headersIn sent)
    \<and> (\<forall>n. out = Ok n \<longrightarrow> n = length (headersIn sent))"
  using assms by (rule ProcessHeaders_log)

theorem ProcessHeaders_submission_witness:
  "\<exists>sent. accepted (snd (ProcessHeaders (sampleReporter False 3 1) ''lrz1relayer'' sampleMain (sampleState sampleMain)))
     = accepted (sampleState sampleMain) @ sent"
proof -
  have l: "lorenzoClient (sampleReporter False 3 1) = logging (sampleLorenzo 1)"
    and R: "retry_lawful (retryDo (sampleReporter False 3 1))"
    by (simp_all add: sampleReporter_def retry_once)
  obtain out s' where run: "ProcessHeaders (sampleReporter False 3 1) ''lrz1relayer'' sampleMain
      (sampleState sampleMain) = (out, s')" by fastforce
  show ?thesis using ProcessHeaders_submission [OF R l run] run by auto
qed

text \<open>
  C11: when Lorenzo answers every query and accepts every message, \<^verbatim>\<open>ProcessHeaders\<close> on a non-empty
  list returns the number of headers from the first one Lorenzo lacks to the end, and exactly
  these have been accepted.
\<close>

theorem ProcessHeaders_delivers:
  assumes w: "welcoming r" and R: "retry_lawful (retryDo r)" and l: "lorenzoClient r = logging l"
    and chunk: "0 < unat (cfg_MaxHeadersInMsg r)" and ne: "ibs \<noteq> []"
  shows "\<exists>n s' sent. ProcessHeaders r signer ibs s = (Ok n, s') \<and> accepted s' = accepted s @ sent
    \<and> submission r signer True ibs sent \<and> n = length (headersIn sent)"
proof -
  obtain n s' where run: "ProcessHeaders r signer ibs s = (Ok n, s')"
    using ProcessHeaders_welcome [OF w R chunk ne] by blast
  then show ?thesis using ProcessHeaders_log [OF R l run] by auto
qed

theorem ProcessHeaders_delivers_witness:
  "\<exists>n s' sent. ProcessHeaders (sampleReporter False 3 1) ''lrz1relayer'' sampleMain (sampleState sampleMain)
      = (Ok n, s') \<and> accepted s' = sent
      \<and> submission (sampleReporter False 3 1) ''lrz1relayer'' True sampleMain sent"
proof -
  have l: "lorenzoClient (sampleReporter False 3 1) = logging (sampleLorenzo 1)"
    and R: "retry_lawful (retryDo (sampleReporter False 3 1))"
    and chunk: "0 < unat (cfg_MaxHeadersInMsg (sampleReporter False 3 1))"
    and ne: "sampleMain \<noteq> []" and e: "accepted (sampleState sampleMain) = []"
    by (simp_all add: sampleReporter_def retry_once sampleState_def)
  show ?thesis
    using ProcessHeaders_delivers [OF sampleReporter_welcoming R l chunk ne,
        of "''lrz1relayer''" "sampleState sampleMain"] e by auto
qed

text \<open>
  C21: \<^verbatim>\<open>chunkBy\<close> of a non-empty list ends exactly when the chunk size is positive, and then cuts the
  list into consecutive chunks, none empty, each but the last of exactly the chunk size; with a
  size of 0 it never returns.
\<close>

theorem chunkBy_partitions:
  assumes "items \<noteq> []"
  shows "if k = 0 then chunkBy items k = Hang
    else \<exists>cs. chunkBy items k = Ok cs \<and> concat cs = items \<and> [] \<notin> set cs
      \<and> (\<forall>c \<in> set cs. length c \<le> k) \<and> (\<forall>c \<in> set (butlast cs). length c = k)"
  using chunkLoop_spec [of k items "[]"] chunkLoop_zero_diverges [OF assms] assms
  by (auto simp: chunkBy_def)

theorem chunkBy_partitions_witness:
  "(\<exists>cs. chunkBy [1, 2, 3, 4, 5 :: nat] 2 = Ok cs \<and> concat cs = [1, 2, 3, 4, 5])
   \<and> chunkBy [1 :: nat] 0 = Hang"
  using chunkBy_partitions [of "[1, 2, 3, 4, 5 :: nat]" 2] chunkBy_partitions [of "[1 :: nat]" 0] by auto

end
