(* ===== verification/Properties_Reporter.thy ===== *)
theory Properties_Reporter
  imports Catch_Up Properties_Bitcoin
begin

text \<open>
  The properties of the reporter: what it submits over a whole reorganisation, the invariant of
  its event loop, the outcome of each handler on each branch, the bootstrap, the catch-up and
  the life cycle, each with an application to a concrete input.
\<close>

section \<open>Reorganisations\<close>

text \<open>
  C1: a reorganisation of the Bitcoin chain (the blocks \<open>old\<close> disconnected from the tip down, then
  the blocks of the longer branch connected, of which only the last gives the new branch more
  work) makes the reporter hold the new branch in its cache, forget the reorganisation, and
  submit to Lorenzo exactly what it lacks of the whole new branch; nothing is submitted before
  the new branch has more work, and no bootstrap is needed.
\<close>

theorem reorg_delivers_new_branch:
  assumes obs: "observed r" and w: "welcoming r" and chunk: "0 < unat (cfg_MaxHeadersInMsg r)"
    and add: "additive_work (headerFuns r)"
    and good: "cache_good (headerFuns r) hgt c" and c: "btcCache s = Some c"
    and b: "blocks c = base @ old" "base \<noteq> []" "old \<noteq> []" and empty: "reorgList s = newReorgList"
    and ch: "chain (hashOf r) (base @ new @ [b])"
    and new: "\<forall>x \<in> set (new @ [b]). serves r x \<and> on_node (headerFuns r) hgt x"
    and room: "length (base @ new @ [b]) \<le> unat (maxEntries c)"
    and work: "calculateBranchWork (headerFuns r) new \<le> calculateBranchWork (headerFuns r) old"
      "calculateBranchWork (headerFuns r) old < calculateBranchWork (headerFuns r) (new @ [b])"
  shows "\<exists>s' sent signer.
    runEvents r (map (eventFor BlockDisconnected) (rev old) @ map (eventFor BlockConnected) (new @ [b])) s
      = (Ok (), s')
    \<and> btcCache s' = Some (c\<lparr>blocks := base @ new @ [b]\<rparr>) \<and> reorgList s' = newReorgList
    \<and> accepted s' = accepted s @ sent \<and> submission r signer True (new @ [b]) sent"
proof -
  from reorg_run [OF obs add good c b empty ch new room work] obtain w' where
    keep: "snd w' = accepted s" and run:
    "runEvents r (map (eventFor BlockDisconnected) (rev old) @ map (eventFor BlockConnected) (new @ [b])) s
      = submitNewHeaders r (new @ [b])
          (s\<lparr>outside := w', btcCache := Some (c\<lparr>blocks := base @ new @ [b]\<rparr>)\<rparr>)" by blast
  have "new @ [b] \<noteq> []" by simp
  from submitNewHeaders_delivers [OF obs w chunk this, of
      "s\<lparr>outside := w', btcCache := Some (c\<lparr>blocks := base @ new @ [b]\<rparr>)\<rparr>"] obtain s' sent signer where
    s': "submitNewHeaders r (new @ [b])
          (s\<lparr>outside := w', btcCache := Some (c\<lparr>blocks := base @ new @ [b]\<rparr>)\<rparr>) = (Ok (), s')"
    "core s' = core (s\<lparr>outside := w', btcCache := Some (c\<lparr>blocks := base @ new @ [b]\<rparr>)\<rparr>)"
    "accepted s' = snd w' @ sent" "submission r signer True (new @ [b]) sent"
    by auto
  show ?thesis
    unfolding run using s' keep empty by (auto simp: core_def)
qed

lemma sampleNode_byHeight:
  assumes "v \<le> best"
  shows "client_GetBlockByHeight (sampleNode forked best) v w =
    client_GetBlockByHash (sampleNode forked best) (if forked \<and> 2 < v then 200 + ucast v else ucast v) w"
proof -
  have "GetBlockHash (sampleNode forked best) v w
      = (Ok (if forked \<and> 2 < v then 200 + ucast v else ucast v), w)"
    using assms by (simp add: sampleNode_def Let_def not_less [symmetric])
  then show ?thesis by (simp add: client_GetBlockByHeight_def andThen_def wrapErr_def)
qed

lemma sampleBranch_serves:
  "serves (sampleReporter True 4 1) (sampleBlock 3 203)"
  "serves (sampleReporter True 4 1) (sampleBlock 4 204)"
proof -
  have h: "sampleHgt 203 = 3" "sampleHgt 204 = 4"
    by (simp_all add: sampleHgt_def)
  show "serves (sampleReporter True 4 1) (sampleBlock 3 203)"
    "serves (sampleReporter True 4 1) (sampleBlock 4 204)"
    by (simp_all add: serves_def sampleReporter_def watching_def sampleClient_def client_of_def
        logged_def sampleNode_byHeight sampleNode_byHash h MsgBlock_def BlockHash_def
        sampleFuns_def sampleBlock_def sampleHeader_def)
qed

lemma sampleBranch_on_node:
  "on_node sampleFuns sampleHgt (sampleBlock 1 1)" "on_node sampleFuns sampleHgt (sampleBlock 2 2)"
  "on_node sampleFuns sampleHgt (sampleBlock 3 3)"
  "on_node sampleFuns sampleHgt (sampleBlock 3 203)" "on_node sampleFuns sampleHgt (sampleBlock 4 204)"
  by (simp_all add: on_node_def sample_simps BlockHash_def)

lemma sampleMain_good: "cache_good sampleFuns sampleHgt (sampleCache sampleMain)"
  using sampleMain_cache sampleBranch_on_node by (simp add: cache_good_def)

lemma sampleReporter_simps [simp]:
  "headerFuns (sampleReporter forked best lrz) = sampleFuns"
  "cfg_MaxHeadersInMsg (sampleReporter forked best lrz) = 100"
  "retryDo (sampleReporter forked best lrz) = id"
  "cfg_BTCCacheSize (sampleReporter forked best lrz) = 1000"
  "btcConfirmationDepth (sampleReporter forked best lrz) = 10"
  "checkpointFinalizationTimeout (sampleReporter forked best lrz) = 100"
  "delayBlocks (sampleReporter forked best lrz) = 1"
  by (simp_all add: sampleReporter_def)

lemma sampleState_simps [simp]:
  "btcCache (sampleState bs) = Some (sampleCache bs)" "reorgList (sampleState bs) = newReorgList"
  "blocks (sampleCache bs) = bs" "maxEntries (sampleCache bs) = 10" "Height (sampleBlock h n) = h"
  by (simp_all add: sampleState_def sampleCache_def sampleBlock_def)

theorem reorg_delivers_new_branch_witness:
  "\<exists>s' sent signer. runEvents (sampleReporter True 4 1)
      [eventFor BlockDisconnected (sampleBlock 3 3), eventFor BlockConnected (sampleBlock 3 203),
       eventFor BlockConnected (sampleBlock 4 204)] (sampleState sampleMain) = (Ok (), s')
    \<and> submission (sampleReporter True 4 1) signer True [sampleBlock 3 203, sampleBlock 4 204] sent"
proof -
  let ?r = "sampleReporter True 4 1"
  have add: "additive_work (headerFuns ?r)" by (simp add: additive_work_def sampleFuns_def)
  have ch: "chain (hashOf ?r) ([sampleBlock 1 1, sampleBlock 2 2] @ [sampleBlock 3 203] @ [sampleBlock 4 204])"
    by (simp add: linked_def BlockHash_def sample_simps)
  have work: "calculateBranchWork (headerFuns ?r) [sampleBlock 3 203]
        \<le> calculateBranchWork (headerFuns ?r) [sampleBlock 3 3]"
    "calculateBranchWork (headerFuns ?r) [sampleBlock 3 3]
        < calculateBranchWork (headerFuns ?r) ([sampleBlock 3 203] @ [sampleBlock 4 204])"
    by (simp_all add: calculateBranchWork_def sample_simps)
  have "\<exists>s' sent signer. runEvents ?r (map (eventFor BlockDisconnected) (rev [sampleBlock 3 3])
      @ map (eventFor BlockConnected) ([sampleBlock 3 203] @ [sampleBlock 4 204])) (sampleState sampleMain) = (Ok (), s')
    \<and> btcCache s' = Some ((sampleCache sampleMain)\<lparr>blocks := [sampleBlock 1 1, sampleBlock 2 2]
        @ [sampleBlock 3 203] @ [sampleBlock 4 204]\<rparr>) \<and> reorgList s' = newReorgList
    \<and> accepted s' = accepted (sampleState sampleMain) @ sent
    \<and> submission ?r signer True ([sampleBlock 3 203] @ [sampleBlock 4 204]) sent"
    by (rule reorg_delivers_new_branch [OF sampleReporter_observed sampleReporter_welcoming _ add _ _ _ _ _ _ ch _ _ work])
      (use sampleMain_good sampleBranch_serves sampleBranch_on_node in auto)
  then show ?thesis by auto
qed

section \<open>The event loop\<close>

text \<open>
  In every state the event loop reaches, through any events, re-bootstraps and moves of the
  outside world, the cache is well formed and holds a chain of blocks of the Bitcoin node at
  their heights, and the reorg list keeps the work of exactly the blocks it holds.
\<close>

lemma event_loop_keeps_invariant:
  assumes "handler_reaches quit R r s l" and "reporter_inv r hgt s"
    and "boot_retry_lawful R" and "client_lawful (headerFuns r) hgt (btcClient r)" and "depths_ok r"
  shows "loop_inv r hgt l"
  using assms by (induction rule: handler_reaches.induct) (auto intro: handler_step_inv)

lemma boot_retry_once: "boot_retry_lawful id"
  unfolding boot_retry_lawful_def by (auto intro: attempts.start)

lemma sampleReporter_depths: "depths_ok (sampleReporter forked best lrz)"
  by (simp add: depths_ok_def sampleReporter_def)

lemma sampleState_inv: "reporter_inv (sampleReporter forked best lrz) sampleHgt (sampleState sampleMain)"
  using sampleMain_good by (simp add: reporter_inv_def)

lemma event_loop_keeps_invariant_witness:
  "loop_inv (sampleReporter True 4 1) sampleHgt
     (Waiting ((sampleState sampleMain)\<lparr>outside := ((), [])\<rparr>))"
proof (rule event_loop_keeps_invariant [OF _ sampleState_inv boot_retry_once sampleReporter_lawful
      sampleReporter_depths])
  show "handler_reaches (\<lambda>w. (False, w)) id (sampleReporter True 4 1) (sampleState sampleMain)
      (Waiting ((sampleState sampleMain)\<lparr>outside := ((), [])\<rparr>))"
    by (rule handler_reaches.step [OF handler_reaches.here handler_step.world])
qed

section \<open>Connected blocks\<close>

text \<open>
  C5: whatever a connected block leads to, Lorenzo accepts nothing, or a submission of a suffix of
  the cache; in the middle of a reorganisation only when that suffix has more work than the
  branch that was removed, and then the reorganisation is over.
\<close>

theorem connected_block_sends_better_suffix:
  assumes "observed r"
  shows "\<exists>sent. sends r s (snd (handleConnectedBlocks r event s)) sent"
  using assms by (rule handleConnectedBlocks_sends)

theorem connected_block_sends_better_suffix_witness:
  "\<exists>sent. sends (sampleReporter True 4 1) (sampleState sampleMain)
     (snd (handleConnectedBlocks (sampleReporter True 4 1) (eventFor BlockConnected (sampleBlock 4 204))
        (sampleState sampleMain))) sent"
  by (rule connected_block_sends_better_suffix [OF sampleReporter_observed])

text \<open>
  C6: the handler of connected blocks never panics and never hangs, whatever the event, while the
  clients answer (with a result or an error), the invariant holds, \<^verbatim>\<open>MaxHeadersInMsg\<close> is positive
  and the newest removed block of a reorganisation under way is at a height the cache reaches.
\<close>

theorem connected_block_never_panics:
  assumes "client_lawful (headerFuns r) hgt (btcClient r)" and "calm_clients r"
    and "retry_lawful (retryDo r)" and "0 < unat (cfg_MaxHeadersInMsg r)"
    and "reporter_inv r hgt s" and "btcCache s = Some c" and "reorg_reached c (reorgList s)"
  shows "graceful (fst (handleConnectedBlocks r event s))"
  using assms by (rule handleConnectedBlocks_graceful)

lemma answering_logged [simp]: "answering (logged m) \<longleftrightarrow> answering m"
  by (auto simp: answering_def logged_def split: prod.splits) (metis fst_conv surj_pair)+

lemma sampleNode_byHash_unknown:
  "sampleHgt g < 0 \<Longrightarrow> graceful (fst (client_GetBlockByHash (sampleNode forked best) g w))"
  by (simp add: client_GetBlockByHash_def andThen_def wrapErr_def sampleNode_def Let_def)

lemma sampleNode_byHash_graceful: "graceful (fst (client_GetBlockByHash (sampleNode forked best) g w))"
  by (cases "sampleHgt g < 0") (simp_all add: sampleNode_byHash_unknown sampleNode_byHash)

lemma sampleNode_byHeight_graceful:
  "graceful (fst (client_GetBlockByHeight (sampleNode forked best) v w))"
proof (cases "v \<le> best")
  case True
  then show ?thesis by (simp add: sampleNode_byHeight sampleNode_byHash_graceful)
next
  case False
  then have "GetBlockHash (sampleNode forked best) v w = (Err (ErrExternal ''no such height''), w)"
    by (simp add: sampleNode_def Let_def not_le)
  then show ?thesis by (simp add: client_GetBlockByHeight_def andThen_def wrapErr_def)
qed

lemma sampleReporter_calm: "calm_clients (sampleReporter forked best lrz)"
proof -
  have "answering (GetBlockByHash (sampleClient forked best) h)" for h
    by (simp add: answering_def sampleClient_def client_of_def sampleNode_byHash_graceful)
  moreover have "answering (GetBlockByHeight (sampleClient forked best) v)" for v
    by (simp add: answering_def sampleClient_def client_of_def sampleNode_byHeight_graceful)
  ultimately show ?thesis
    by (simp add: calm_clients_def sampleReporter_def watching_def logging_def)
      (simp add: answering_def sampleLorenzo_def)
qed

theorem connected_block_never_panics_witness:
  "graceful (fst (handleConnectedBlocks (sampleReporter True 4 1)
     (eventFor BlockConnected (sampleBlock 4 204)) (sampleState sampleMain)))"
  by (rule connected_block_never_panics [OF sampleReporter_lawful sampleReporter_calm _ _ sampleState_inv])
    (simp_all add: retry_once reorg_reached_def newReorgList_def getLastRemovedBlock_def)

section \<open>The bootstrap\<close>

text \<open>
  C7: a bootstrap that returns no error has asked Lorenzo whether it has the block of Bitcoin's chain at
  the confirmed height (the height of Lorenzo's tip less the confirmation depth, or of its base when the
  tip is not so far above it), and was told yes; with its next calls it has submitted everything Lorenzo
  lacked of the blocks from just above that height up to \<^verbatim>\<open>delayBlocks\<close> below the tip; it has narrowed
  the cache to the newest \<open>k + w\<close> blocks of that chain, and has dropped any reorganisation.
\<close>

theorem bootstrap_submits_what_Lorenzo_lacks:
  assumes "bootstrap r skip s = (Ok u, s')" and "observed r"
    and "client_lawful (headerFuns r) hgt (btcClient r)" and "depths_ok r" and "reporter_inv r hgt s"
  shows "\<exists>c sent. cache_good (headerFuns r) hgt c \<and>
     (\<exists>b pre ibs rest w tip w1 base w2 w3 signer t n t'. blocks c = pre @ ibs @ rest \<and> ibs \<noteq> []
        \<and> BTCHeaderChainTip (lorenzoClient r) w = (Ok tip, w1)
        \<and> BTCBaseHeader (lorenzoClient r) w1 = (Ok base, w2)
        \<and> b \<in> set (blocks c)
        \<and> Height b = int32_of_uint64
            (if lrz_Height base + btcConfirmationDepth r \<le> lrz_Height tip
             then lrz_Height tip - btcConfirmationDepth r else lrz_Height base)
        \<and> ContainsBTCBlock (lorenzoClient r) (BlockHash (hashOf r) b) w2 = (Ok True, w3)
        \<and> MustGetAddr (lorenzoClient r) w3 = (Ok signer, outside t)
        \<and> Height (hd ibs) = Height b + 1 \<and> int (length rest) = int_of_uint64 (delayBlocks r)
        \<and> ProcessHeaders r signer ibs t = (Ok n, t') \<and> outside t' = outside s'
        \<and> submission r signer True ibs sent)
    \<and> accepted s' = accepted s @ sent
    \<and> btcCache s' = Some (c\<lparr>maxEntries := btcConfirmationDepth r + checkpointFinalizationTimeout r,
        blocks := drop (length (blocks c) - unat (btcConfirmationDepth r + checkpointFinalizationTimeout r)) (blocks c)\<rparr>)
    \<and> reorgList s' = clear (reorgList s)"
  using bootstrap_synced [OF assms] unfolding synced_def confirmed_def by blast

text \<open>The calls of a bootstrap on the sample.\<close>

abbreviation sampleBoot :: "sample_world reporter" where
  "sampleBoot \<equiv> sampleReporter False 3 1"

lemma sampleNode_best: "client_GetBestBlock (sampleNode False 3) () = (Ok (3, 3), ())"
proof -
  have "GetBestBlockHash (sampleNode False 3) v = (Ok 3, v)" for v by (simp add: sampleNode_def)
  moreover have "GetBlockVerbose (sampleNode False 3) 3 v = (Ok 3, v)" for v
    by (simp add: sampleNode_def sampleHgt_def)
  ultimately show ?thesis by (simp add: client_GetBestBlock_def andThen_def)
qed

lemma sampleNode_tail0:
  "client_FindTailBlocksByHeight (sampleNode False 3) 0 () =
     (Ok [sampleBlock 0 0, sampleBlock 1 1, sampleBlock 2 2, sampleBlock 3 3], ())"
proof -
  have best: "GetBestBlockHash (sampleNode False 3) () = (Ok 3, ())"
    by (simp add: sampleNode_def)
  have h: "sampleHgt 3 = 3" "sampleHgt 2 = 2" "sampleHgt 1 = 1" "sampleHgt 0 = 0"
    by (simp_all add: sampleHgt_def)
  have idx: "getBestIndexedBlock (sampleNode False 3) () = (Ok (sampleBlock 3 3), ())"
    by (simp add: getBestIndexedBlock_def andThen_def wrapErr_def best sampleNode_byHash h)
  have p: "PrevBlock (Header (sampleBlock 3 3)) = 2" "PrevBlock (sampleHeader 2) = 1"
    "PrevBlock (sampleHeader 1) = 0" "Height (sampleBlock 3 3) = 3"
    by (simp_all add: sampleBlock_def sampleHeader_def)
  have "chainLoop (sampleNode False 3) (Suc (Suc (Suc 0))) 2 [sampleBlock 3 3] () =
     (Ok [sampleBlock 0 0, sampleBlock 1 1, sampleBlock 2 2, sampleBlock 3 3], ())"
    by (simp add: p sampleNode_byHash h andThen_def wrapErr_def)
  then have loop: "chainLoop (sampleNode False 3) 3 2 [sampleBlock 3 3] () =
     (Ok [sampleBlock 0 0, sampleBlock 1 1, sampleBlock 2 2, sampleBlock 3 3], ())"
    by (simp only: numeral_3_eq_3)
  have "getChainBlocks (sampleNode False 3) 0 (sampleBlock 3 3) () =
     (Ok [sampleBlock 0 0, sampleBlock 1 1, sampleBlock 2 2, sampleBlock 3 3], ())"
    by (simp add: getChainBlocks_def makeslice_panics_def p Let_def loop)
  then show ?thesis by (simp add: client_FindTailBlocksByHeight_def andThen_def idx p)
qed

lemma sample_outside: "s\<lparr>outside := ((), accepted s)\<rparr> = (s :: sample_world reporter_state)"
  by (cases s) (auto simp: prod_eq_iff)

lemma sampleBoot_calls:
  "call (GetBestBlock (btcClient sampleBoot)) s = (Ok (3, 3), s)"
  "call (FindTailBlocksByHeight (btcClient sampleBoot) 0) s
     = (Ok [sampleBlock 0 0, sampleBlock 1 1, sampleBlock 2 2, sampleBlock 3 3], s)"
  "call (BTCHeaderChainTip (lorenzoClient sampleBoot)) s = (Ok \<lparr>lrz_Height = 1, lrz_Hash = 1\<rparr>, s)"
  "call (BTCBaseHeader (lorenzoClient sampleBoot)) s = (Ok \<lparr>lrz_Height = 0, lrz_Hash = 0\<rparr>, s)"
  "call (MustGetAddr (lorenzoClient sampleBoot)) s = (Ok ''lrz1relayer'', s)"
  "call (ContainsBTCBlock (lorenzoClient sampleBoot) g) s = (Ok (uint g \<le> 1), s)"
  by (simp_all add: call_def sampleReporter_def watching_def logging_def logged_def sampleClient_def
      client_of_def sampleNode_best sampleNode_tail0 sampleLorenzo_def sample_outside)

text \<open>The reporters that differ from the sample only in what their clients do to the world.\<close>

definition sampleLike :: "'w reporter \<Rightarrow> bool" where
  "sampleLike r \<longleftrightarrow> headerFuns r = sampleFuns \<and> retryDo r = id \<and> welcoming r
     \<and> cfg_BTCCacheSize r = 1000 \<and> cfg_MaxHeadersInMsg r = 100 \<and> btcConfirmationDepth r = 10
     \<and> checkpointFinalizationTimeout r = 100 \<and> delayBlocks r = 1
     \<and> (\<forall>s. call (GetBestBlock (btcClient r)) s = (Ok (3, 3), s)
        \<and> call (FindTailBlocksByHeight (btcClient r) 0) s
            = (Ok [sampleBlock 0 0, sampleBlock 1 1, sampleBlock 2 2, sampleBlock 3 3], s)
        \<and> call (MustSubscribeBlocks (btcClient r)) s = (Ok (), s)
        \<and> call (BTCHeaderChainTip (lorenzoClient r)) s = (Ok \<lparr>lrz_Height = 1, lrz_Hash = 1\<rparr>, s)
        \<and> call (BTCBaseHeader (lorenzoClient r)) s = (Ok \<lparr>lrz_Height = 0, lrz_Hash = 0\<rparr>, s)
        \<and> call (MustGetAddr (lorenzoClient r)) s = (Ok ''lrz1relayer'', s)
        \<and> (\<forall>g. call (ContainsBTCBlock (lorenzoClient r) g) s = (Ok (uint g \<le> 1), s)))"

lemma sampleLikeD:
  assumes "sampleLike r"
  shows "headerFuns r = sampleFuns" "retryDo r = id" "welcoming r" "cfg_BTCCacheSize r = 1000"
    "cfg_MaxHeadersInMsg r = 100" "btcConfirmationDepth r = 10" "checkpointFinalizationTimeout r = 100"
    "delayBlocks r = 1" "call (GetBestBlock (btcClient r)) s = (Ok (3, 3), s)"
    "call (FindTailBlocksByHeight (btcClient r) 0) s
      = (Ok [sampleBlock 0 0, sampleBlock 1 1, sampleBlock 2 2, sampleBlock 3 3], s)"
    "call (MustSubscribeBlocks (btcClient r)) s = (Ok (), s)"
    "call (BTCHeaderChainTip (lorenzoClient r)) s = (Ok \<lparr>lrz_Height = 1, lrz_Hash = 1\<rparr>, s)"
    "call (BTCBaseHeader (lorenzoClient r)) s = (Ok \<lparr>lrz_Height = 0, lrz_Hash = 0\<rparr>, s)"
    "call (MustGetAddr (lorenzoClient r)) s = (Ok ''lrz1relayer'', s)"
    "call (ContainsBTCBlock (lorenzoClient r) g) s = (Ok (uint g \<le> 1), s)"
  using assms by (simp_all add: sampleLike_def)

lemma sampleBoot_like: "sampleLike sampleBoot"
proof -
  have sub: "call (MustSubscribeBlocks (btcClient sampleBoot)) t = (Ok (), t)" for t
    by (simp add: call_def sampleReporter_def watching_def logged_def sampleClient_def client_of_def
        client_MustSubscribeBlocks_def mustSubscribeBlocksByWebSocket_def orPanic_def sampleNode_def
        Let_def sample_outside)
  show ?thesis
    by (simp add: sampleLike_def sampleBoot_calls sub sampleReporter_welcoming)
qed

abbreviation sampleBootCache :: btc_cache where
  "sampleBootCache \<equiv> \<lparr>blocks = [sampleBlock 0 0, sampleBlock 1 1, sampleBlock 2 2, sampleBlock 3 3],
     maxEntries = 1000\<rparr>"

lemma sample_init:
  assumes "sampleLike r"
  shows "initBTCCache r s = (Ok (), s\<lparr>btcCache := Some sampleBootCache\<rparr>)"
  by (simp add: initBTCCache_def newCache_def NewBTCCache_def makeslice_panics_def andThen_def
      sampleLikeD [OF assms] cacheBaseHeight_def orPanic_def onCache_def Init_def sorted_by_height_def
      add_def cache_size_def)

lemma sampleGenesis_checks:
  "hf_BlockHash sampleFuns (Header (sampleBlock 0 0)) = 0" "on_node sampleFuns sampleHgt (sampleBlock 0 0)"
proof -
  show h: "hf_BlockHash sampleFuns (Header (sampleBlock 0 0)) = 0"
    by (simp add: sampleFuns_def sampleBlock_def sampleHeader_def)
  have "sampleHgt 0 = 0" by (simp add: sampleHgt_def)
  then show "on_node sampleFuns sampleHgt (sampleBlock 0 0)"
    using sampleHeader_parent [of 0] h by (simp add: on_node_def BlockHash_def sampleBlock_def)
qed

lemma sample_consistent:
  assumes like: "sampleLike r" and "btcCache s = Some c" and "FindBlock 0 c = Ok (Some (sampleBlock 0 0))"
  shows "checkConsistency r s = (Ok \<lparr>lorenzoLatestBlockHeight = 1, startSyncHeight = 1\<rparr>, s)"
proof -
  have "consistencyCheckHeight r 1 0 = 0"
    by (simp add: consistencyCheckHeight_def word_le_nat_alt sampleLikeD [OF like])
  then show ?thesis
    using assms(2,3) sampleGenesis_checks(1)
    by (simp add: checkConsistency_def checkHeaderConsistency_def andThen_def sampleLikeD [OF like]
        readCache_def BlockHash_def Let_def)
qed

lemma sample_boots:
  assumes like: "sampleLike r"
  shows "\<exists>s'. bootstrap r skip s = (Ok (), s')"
proof -
  note call = sampleLikeD [OF like]
  have ch: "chain (hf_BlockHash sampleFuns) (blocks sampleBootCache)"
    by (simp add: linked_def BlockHash_def sample_simps)
  have good: "cache_good sampleFuns sampleHgt sampleBootCache"
    using ch sampleGenesis_checks(2) sampleBranch_on_node by (simp add: cache_good_def cache_wf_def)
  have find: "FindBlock 0 sampleBootCache = Ok (Some (sampleBlock 0 0))"
    by (rule FindBlock_chain(1) [OF ch]) (simp_all add: cache_wf_def)
  have last: "GetLastBlocks 1 sampleBootCache = Ok [sampleBlock 1 1, sampleBlock 2 2, sampleBlock 3 3]"
    by (simp add: GetLastBlocks_def outOfRange_def eval_nat_numeral)
  have sync: "waitUntilBTCSync r t = (Ok (), t)" for t
    by (simp add: waitUntilBTCSync_def andThen_def call)
  define t where "t = s\<lparr>reorgList := clear (reorgList s), btcCache := Some sampleBootCache\<rparr>"
  have t: "btcCache t = Some sampleBootCache" "reorg_wf sampleFuns (reorgList t)"
    by (simp_all add: t_def)
  have check: "checkConsistency r t = (Ok \<lparr>lorenzoLatestBlockHeight = 1, startSyncHeight = 1\<rparr>, t)"
    by (rule sample_consistent [OF like t(1) find])
  obtain n s' where proc: "ProcessHeaders r ''lrz1relayer'' [sampleBlock 1 1, sampleBlock 2 2] t = (Ok n, s')"
    using ProcessHeaders_welcome [OF call(3), of "[sampleBlock 1 1, sampleBlock 2 2]" "''lrz1relayer''" t]
      call(2,5) retry_once by auto
  have headers: "syncHeaders r t = (Ok (), s')"
    by (simp add: syncHeaders_def andThen_def check orPanic_def readCache_def t last call
        dropDelayed_def Let_def eval_nat_numeral proc)
  have "core s' = core t"
    using core_ProcessHeaders [of r "''lrz1relayer''" "[sampleBlock 1 1, sampleBlock 2 2]" t] by (simp add: proc)
  then have "btcCache s' = Some sampleBootCache" and "reporter_inv r sampleHgt s'"
    using good t by (simp_all add: core_def reporter_inv_def call)
  moreover have "depths_ok r" by (simp add: depths_ok_def call)
  ultimately obtain s2 where trim: "resizeAndTrim r s' = (Ok (), s2)"
    using resizeAndTrim_result by fastforce
  have "bootstrap r skip s = (Ok (), s2)"
    unfolding bootstrap_def
    by (simp add: andThen_def sync sample_init [OF like] call t_def [symmetric] headers trim)
  then show ?thesis ..
qed

lemma sampleBoot_runs: "\<exists>s'. bootstrap sampleBoot skip s = (Ok (), s')"
  by (rule sample_boots [OF sampleBoot_like])

theorem bootstrap_submits_what_Lorenzo_lacks_witness:
  "\<exists>s' c sent b tip base w w1 w2 w3. bootstrap sampleBoot False (sampleState []) = (Ok (), s')
     \<and> cache_good sampleFuns sampleHgt c \<and> accepted s' = accepted (sampleState []) @ sent
     \<and> b \<in> set (blocks c) \<and> BTCHeaderChainTip (lorenzoClient sampleBoot) w = (Ok tip, w1)
     \<and> BTCBaseHeader (lorenzoClient sampleBoot) w1 = (Ok base, w2)
     \<and> ContainsBTCBlock (lorenzoClient sampleBoot) (BlockHash (hashOf sampleBoot) b) w2 = (Ok True, w3)"
proof -
  obtain s' where run: "bootstrap sampleBoot False (sampleState []) = (Ok (), s')"
    using sampleBoot_runs by blast
  have inv: "reporter_inv sampleBoot sampleHgt (sampleState [])"
    by (simp add: reporter_inv_def cache_good_def cache_wf_def)
  have "headerFuns sampleBoot = sampleFuns" by (simp add: sampleReporter_def)
  then show ?thesis
    using bootstrap_submits_what_Lorenzo_lacks [OF run sampleReporter_observed sampleReporter_lawful
        sampleReporter_depths inv] run by metis
qed

text \<open>
  C30: when the blocks above the checked one are no more than \<^verbatim>\<open>delayBlocks\<close> (a Bitcoin tip at most
  that far above the confirmed height), the bootstrap panics instead of returning: the slice is
  empty or its bound negative, and \<^verbatim>\<open>ProcessHeaders\<close> reads the first element of an empty list.
\<close>

theorem short_tail_panics:
  assumes "checkConsistency r s = (Ok info, s1)" and "btcCache s = Some c"
    and "MustGetAddr (lorenzoClient r) (outside s1) = (Ok signer, w)"
    and "\<And>tail. GetLastBlocks (startSyncHeight info) c = Ok tail
      \<Longrightarrow> int (length tail) \<le> int_of_uint64 (delayBlocks r)"
  shows "\<exists>p. fst (syncHeaders r s) = Panic p"
  using assms by (rule syncHeaders_short)

theorem short_tail_panics_witness:
  "\<exists>p. fst (syncHeaders sampleBoot (sampleState [sampleBlock 0 0, sampleBlock 1 1])) = Panic p"
proof -
  let ?s = "sampleState [sampleBlock 0 0, sampleBlock 1 1]"
  let ?c = "sampleCache [sampleBlock 0 0, sampleBlock 1 1]"
  have ch: "chain (hf_BlockHash sampleFuns) (blocks ?c)"
    by (simp add: linked_def BlockHash_def sample_simps)
  have find: "FindBlock 0 ?c = Ok (Some (sampleBlock 0 0))"
    by (rule FindBlock_chain(1) [OF ch]) (simp_all add: cache_wf_def)
  have check: "checkConsistency sampleBoot ?s
      = (Ok \<lparr>lorenzoLatestBlockHeight = 1, startSyncHeight = 1\<rparr>, ?s)"
    by (rule sample_consistent [OF sampleBoot_like _ find]) simp
  have last: "GetLastBlocks 1 ?c = Ok [sampleBlock 1 1]"
    by (simp add: GetLastBlocks_def outOfRange_def eval_nat_numeral)
  have addr: "MustGetAddr (lorenzoClient sampleBoot) (outside ?s) = (Ok ''lrz1relayer'', outside ?s)"
    by (simp add: sampleReporter_def logging_def logged_def sampleLorenzo_def sampleState_def)
  show ?thesis
    by (rule short_tail_panics [OF check _ addr, of ?c]) (simp_all add: last)
qed

text \<open>
  The wait for the Bitcoin node ends, without an error, only when the node has answered a
  height that is positive and not below the height Lorenzo answered after it.
\<close>

lemma sync_wait_ends_in_sync:
  assumes "syncLoop r s = Some (Ok u, s')"
  shows "\<exists>w hash h w1 tip w2. GetBestBlock (btcClient r) w = (Ok (hash, h), w1)
    \<and> BTCHeaderChainTip (lorenzoClient r) w1 = (Ok tip, w2) \<and> 0 < h \<and> lrz_Height tip \<le> h"
  using assms by (rule syncLoop_Ok)

lemma sync_wait_ends_in_sync_witness:
  "\<exists>w hash h w1 tip w2. GetBestBlock (btcClient sampleBoot) w = (Ok (hash, h), w1)
    \<and> BTCHeaderChainTip (lorenzoClient sampleBoot) w1 = (Ok tip, w2) \<and> 0 < h \<and> lrz_Height tip \<le> h"
proof -
  have "syncLoop sampleBoot (sampleState []) = Some (Ok (), sampleState [])"
    by (subst syncLoop.simps) (simp add: sampleBoot_calls)
  then show ?thesis by (rule sync_wait_ends_in_sync)
qed

section \<open>Single events\<close>

text \<open>
  C23: disconnecting the newest blocks of the cache one after the other, from the tip down, takes
  exactly these blocks off the cache, and leaves a reorg list whose work is the work
  \<^verbatim>\<open>calculateBranchWork\<close> computes for that branch and whose last entry is at the branch's lowest
  height; nothing is submitted.
\<close>

theorem disconnecting_measures_branch:
  assumes good: "cache_good (headerFuns r) hgt c" and c: "btcCache s = Some c"
    and b: "blocks c = base @ old" and ne: "old \<noteq> []" and empty: "reorgList s = newReorgList"
    and add: "additive_work (headerFuns r)"
  shows "\<exists>s'. runEvents r (map (eventFor BlockDisconnected) (rev old)) s = (Ok (), s')
    \<and> btcCache s' = Some (c\<lparr>blocks := base\<rparr>) \<and> reorg_size (reorgList s') = length old
    \<and> removedBranchWork (reorgList s') = calculateBranchWork (headerFuns r) old
    \<and> (\<exists>rb. getLastRemovedBlock (reorgList s') = Some rb \<and> rb_header rb = Header (hd old)
        \<and> int32_of_uint64 (rb_height rb) = Height (hd old))
    \<and> outside s' = outside s"
  using disconnect_run [OF good c b] removing_last [OF ne, of "headerFuns r" newReorgList]
    removing_size [of "headerFuns r" old newReorgList] removing_work [OF add, of old newReorgList]
  by (auto simp: empty newReorgList_def reorg_size_def removedBranchWork_def)

theorem disconnecting_measures_branch_witness:
  "\<exists>s'. runEvents sampleBoot [eventFor BlockDisconnected (sampleBlock 3 3),
       eventFor BlockDisconnected (sampleBlock 2 2)] (sampleState sampleMain) = (Ok (), s')
     \<and> removedBranchWork (reorgList s') = 2"
proof -
  have good: "cache_good (headerFuns sampleBoot) sampleHgt (sampleCache sampleMain)"
    and add: "additive_work (headerFuns sampleBoot)"
    using sampleMain_good by (simp_all add: additive_work_def sampleFuns_def)
  have work: "calculateBranchWork sampleFuns [sampleBlock 2 2, sampleBlock 3 3] = 2"
    by (simp add: calculateBranchWork_def sample_simps)
  show ?thesis
    using disconnecting_measures_branch [OF good, of "sampleState sampleMain" "[sampleBlock 1 1]"
        "[sampleBlock 2 2, sampleBlock 3 3]"] add work by auto
qed

text \<open>
  a disconnected block is refused with an error, and nothing changes, when the cache is empty or
  the block is not its tip; otherwise it is taken off the cache and appended to the reorg list.
\<close>

lemma disconnected_block_outcomes:
  assumes "cache_wf c" and "btcCache s = Some c"
  shows "handleDisconnectedBlocks r event s =
    (if blocks c = [] then (Err (ErrMessage ''cache is empty, restart bootstrap process''), s)
     else if hashOf r (ev_Header event) \<noteq> BlockHash (hashOf r) (last (blocks c))
     then (Err (ErrMessage ''cache is not up-to-date while disconnecting block, restart bootstrap process''), s)
     else (Ok (), s\<lparr>btcCache := Some (c\<lparr>blocks := butlast (blocks c)\<rparr>),
       reorgList := addRemovedBlock (headerFuns r) (uint64_of_int32 (Height (last (blocks c))))
         (Header (last (blocks c))) (reorgList s)\<rparr>))"
  using assms by (rule disconnected_cases)

lemma disconnected_block_outcomes_witness:
  "handleDisconnectedBlocks sampleBoot (eventFor BlockDisconnected (sampleBlock 1 1)) (sampleState [])
     = (Err (ErrMessage ''cache is empty, restart bootstrap process''), sampleState [])"
  using disconnected_block_outcomes [of "sampleCache []" "sampleState []"]
  by (simp add: cache_wf_def)

lemma sampleNode_onBest:
  "onBest sampleBoot (eventFor BlockConnected (sampleBlock 3 3)) ((), []) ((), [])"
proof -
  have h: "sampleHgt 3 = 3" by (simp add: sampleHgt_def)
  have "client_GetBlockByHeight (sampleNode False 3) 3 ()
      = (Ok (sampleBlock 3 3, \<lparr>mb_Header = sampleHeader 3, mb_Transactions = []\<rparr>), ())"
    by (simp add: sampleNode_byHeight sampleNode_byHash h)
  then show ?thesis
    by (simp add: onBest_def sampleReporter_def watching_def sampleClient_def client_of_def
        logged_def BlockHash_def)
qed

text \<open>
  C24: a connected block on the best chain is skipped when it is below the cache or is the block the
  cache has at its height; it is refused, so that the bootstrap runs again, when the cache has
  another block there. Above the cache's tip it is added when its parent is the tip, and its header
  and what Lorenzo lacks is then submitted, and refused with any other parent. What is skipped or
  refused leaves the cache, the reorg list and Lorenzo alone.
\<close>

theorem connected_block_outcomes:
  assumes "cache_good (headerFuns r) hgt c" and "btcCache s = Some c" and "blocks c \<noteq> []"
    and "onBest r event (outside s) w"
  shows "(sint (ev_Height event) < ht (hd (blocks c)) \<longrightarrow>
      handleConnectedBlocks r event s = (Ok (), s\<lparr>outside := w\<rparr>))
    \<and> (\<forall>b \<in> set (blocks c). Height b = ev_Height event \<longrightarrow>
      handleConnectedBlocks r event s =
        ((if BlockHash (hashOf r) b = hashOf r (ev_Header event) then Ok ()
          else Err (ErrMessage
            ''the connecting block is different from the header at the same height in cache'')),
         s\<lparr>outside := w\<rparr>))
    \<and> (\<forall>ib mb w'. ht (last (blocks c)) < sint (ev_Height event)
        \<and> GetBlockByHash (btcClient r) (hashOf r (ev_Header event)) w = (Ok (ib, mb), w') \<longrightarrow>
      handleConnectedBlocks r event s =
        (if PrevBlock (mb_Header mb) = BlockHash (hashOf r) (last (blocks c))
         then andThen (headersToProcess r ib) (submitNewHeaders r)
           (s\<lparr>outside := w', btcCache := Some (c\<lparr>blocks := (if length (blocks c) < unat (maxEntries c)
              then blocks c else tl (blocks c)) @ [ib]\<rparr>)\<rparr>)
         else (Err (ErrMessage ''cache is not up-to-date while connecting block, restart bootstrap process''),
           s\<lparr>outside := w'\<rparr>)))"
  using connected_too_early [OF cache_goodD(1) [OF assms(1)] assms(2,3) _ assms(4)]
    connected_in_cache [OF assms(1,2) _ _ assms(4)] connected_new [OF assms(1-3) _ assms(4)]
  by blast

theorem connected_block_outcomes_witness:
  "fst (handleConnectedBlocks sampleBoot (eventFor BlockConnected (sampleBlock 3 3)) (sampleState sampleMain))
     = Ok ()
   \<and> fst (handleConnectedBlocks sampleBoot (eventFor BlockConnected (sampleBlock 3 3))
       (sampleState [sampleBlock 1 1]))
     = Err (ErrMessage ''cache is not up-to-date while connecting block, restart bootstrap process'')"
proof
  have good: "cache_good (headerFuns sampleBoot) sampleHgt (sampleCache sampleMain)"
    "cache_good (headerFuns sampleBoot) sampleHgt (sampleCache [sampleBlock 1 1])"
    using sampleMain_good sampleBranch_on_node by (simp_all add: cache_good_def cache_wf_def)
  have best: "onBest sampleBoot (eventFor BlockConnected (sampleBlock 3 3)) (outside (sampleState bs)) ((), [])" for bs
    using sampleNode_onBest by (simp add: sampleState_def)
  show "fst (handleConnectedBlocks sampleBoot (eventFor BlockConnected (sampleBlock 3 3)) (sampleState sampleMain))
     = Ok ()"
    using connected_block_outcomes [OF good(1) _ _ best] by (simp add: BlockHash_def)
  have h: "sampleHgt 3 = 3" by (simp add: sampleHgt_def)
  have n: "ucast (hdr_Nonce (Header (sampleBlock 3 3))) = (3 :: hash)"
    "PrevBlock (sampleHeader 3) = 2" "ucast (hdr_Nonce (Header (sampleBlock 1 1))) = (1 :: hash)"
    by (simp_all add: sampleBlock_def sampleHeader_def)
  have byHash: "GetBlockByHash (btcClient sampleBoot)
      (hashOf sampleBoot (ev_Header (eventFor BlockConnected (sampleBlock 3 3)))) ((), [])
      = (Ok (sampleBlock 3 3, \<lparr>mb_Header = sampleHeader 3, mb_Transactions = []\<rparr>), ((), []))"
    using sampleNode_byHash [of 3 False 3 "()"]
    by (simp add: sampleReporter_def watching_def sampleClient_def client_of_def logged_def
        sampleFuns_def n h)
  show "fst (handleConnectedBlocks sampleBoot (eventFor BlockConnected (sampleBlock 3 3))
       (sampleState [sampleBlock 1 1]))
     = Err (ErrMessage ''cache is not up-to-date while connecting block, restart bootstrap process'')"
    using connected_block_outcomes [OF good(2) _ _ best] byHash
    by (simp add: BlockHash_def sampleFuns_def n)
qed

text \<open>
  C22: a branch that replaces the tip of the cache but does not have more work than what was
  disconnected (the same blocks again, for one) is taken into the cache and nothing of it is
  submitted; the reorganisation stays open, with the work to beat and its lowest height.
\<close>

theorem weaker_branch_submits_nothing:
  assumes obs: "observed r" and add: "additive_work (headerFuns r)"
    and good: "cache_good (headerFuns r) hgt c" and c: "btcCache s = Some c"
    and b: "blocks c = base @ old" "base \<noteq> []" "old \<noteq> []" and empty: "reorgList s = newReorgList"
    and ch: "chain (hashOf r) (base @ new)"
    and new: "\<forall>x \<in> set new. serves r x \<and> on_node (headerFuns r) hgt x"
    and room: "length (base @ new) \<le> unat (maxEntries c)"
    and work: "calculateBranchWork (headerFuns r) new \<le> calculateBranchWork (headerFuns r) old"
  shows "\<exists>s'.
    runEvents r (map (eventFor BlockDisconnected) (rev old) @ map (eventFor BlockConnected) new) s = (Ok (), s')
    \<and> btcCache s' = Some (c\<lparr>blocks := base @ new\<rparr>) \<and> accepted s' = accepted s
    \<and> reorg_size (reorgList s') = length old
    \<and> removedBranchWork (reorgList s') = calculateBranchWork (headerFuns r) old"
  using weaker_branch_run [OF obs add good c b empty ch new room work]
    removing_size [of "headerFuns r" old newReorgList] removing_work [OF add, of old newReorgList]
  by (auto simp: newReorgList_def reorg_size_def removedBranchWork_def)

theorem weaker_branch_submits_nothing_witness:
  "\<exists>s'. runEvents (sampleReporter True 4 1) [eventFor BlockDisconnected (sampleBlock 3 3),
       eventFor BlockConnected (sampleBlock 3 203)] (sampleState sampleMain) = (Ok (), s')
     \<and> accepted s' = [] \<and> reorg_size (reorgList s') = 1"
proof -
  let ?r = "sampleReporter True 4 1"
  have add: "additive_work (headerFuns ?r)" by (simp add: additive_work_def sampleFuns_def)
  have ch: "chain (hashOf ?r) ([sampleBlock 1 1, sampleBlock 2 2] @ [sampleBlock 3 203])"
    by (simp add: linked_def BlockHash_def sample_simps)
  have work: "calculateBranchWork (headerFuns ?r) [sampleBlock 3 203]
        \<le> calculateBranchWork (headerFuns ?r) [sampleBlock 3 3]"
    by (simp add: calculateBranchWork_def sample_simps)
  have log: "accepted (sampleState sampleMain) = []" by (simp add: sampleState_def)
  have "\<exists>s'. runEvents ?r (map (eventFor BlockDisconnected) (rev [sampleBlock 3 3])
      @ map (eventFor BlockConnected) [sampleBlock 3 203]) (sampleState sampleMain) = (Ok (), s')
    \<and> btcCache s' = Some ((sampleCache sampleMain)\<lparr>blocks := [sampleBlock 1 1, sampleBlock 2 2] @ [sampleBlock 3 203]\<rparr>)
    \<and> accepted s' = accepted (sampleState sampleMain)
    \<and> reorg_size (reorgList s') = length [sampleBlock 3 3]
    \<and> removedBranchWork (reorgList s') = calculateBranchWork (headerFuns ?r) [sampleBlock 3 3]"
    by (rule weaker_branch_submits_nothing [OF sampleReporter_observed add _ _ _ _ _ _ ch _ _ work])
      (use sampleMain_good sampleBranch_serves sampleBranch_on_node in auto)
  then show ?thesis using log by auto
qed

section \<open>Events, start and stop\<close>

text \<open>
  C25: what becomes of a block event. Either it is left alone, and the turn ends with the reporter's state
  as it was; or the loop polls, with the quit channel open at each poll, as long as the node gives no best
  height or one less than \<^verbatim>\<open>delayBlocks\<close> above the event's, and only in the state after the first poll that
  gives enough does the handler of the event run, followed by a bootstrap when it fails.
\<close>

theorem handled_event_is_mature:
  assumes "onEvent quit R r (Some e) s = (out, s')"
  shows "(out \<noteq> Ok True \<and> (\<exists>w. s' = s\<lparr>outside := w\<rparr>))
    \<or> (\<exists>w. awaited quit r e (outside s) w \<and>
        (case handleEvent r e (s\<lparr>outside := w\<rparr>) of
           (Err err, t) \<Rightarrow> andThen (bootstrapWithRetries R r True) (\<lambda>_. lift (Ok True)) t = (out, s')
         | (Ok _, t) \<Rightarrow> (Ok True, t) = (out, s')
         | (p, t) \<Rightarrow> (reraise p, t) = (out, s')))"
  using assms by (rule onEvent_awaits)

lemma sample_onEvent:
  "onEvent (\<lambda>w. (False, w)) id sampleBoot (Some (eventFor BlockDisconnected (sampleBlock 2 2)))
     (sampleState [sampleBlock 1 1, sampleBlock 2 2])
   = (Ok True, snd (handleDisconnectedBlocks sampleBoot (eventFor BlockDisconnected (sampleBlock 2 2))
        (sampleState [sampleBlock 1 1, sampleBlock 2 2])))"
proof -
  let ?s = "sampleState [sampleBlock 1 1, sampleBlock 2 2]"
  let ?e = "eventFor BlockDisconnected (sampleBlock 2 2)"
  have "matureLoop (\<lambda>w. (False, w)) sampleBoot (Some ?e) ?s = Some (Ok True, ?s)"
    by (subst matureLoop.simps) (simp add: sampleBoot_calls)
  moreover have "fst (handleDisconnectedBlocks sampleBoot ?e ?s) = Ok ()"
    using disconnected_cases [of "sampleCache [sampleBlock 1 1, sampleBlock 2 2]" ?s]
    by (simp add: cache_wf_def BlockHash_def)
  ultimately show ?thesis
    by (auto simp: onEvent_def andThen_def handleEvent_def split: prod.split)
qed

theorem handled_event_is_mature_witness:
  "\<exists>w. awaited (\<lambda>w. (False, w)) sampleBoot (eventFor BlockDisconnected (sampleBlock 2 2))
     (outside (sampleState [sampleBlock 1 1, sampleBlock 2 2])) w"
  using handled_event_is_mature [OF sample_onEvent] by blast

text \<open>
  A reporter stopped before its first start, then started twice, runs two event handlers: the
  first start takes the restart path, which does not set \<^verbatim>\<open>started\<close>, so the second one is not ignored.
\<close>

lemma early_stop_starts_two_handlers:
  assumes addr: "\<And>w. \<exists>a w'. MustGetAddr (lorenzoClient r) w = (Ok a, w')"
    and catchUp: "\<And>s. \<exists>s'. catchUp s = (Ok (), s')"
    and boot: "\<And>s. \<exists>s'. bootstrapWithRetries R r False s = (Ok (), s')"
    and fresh: "l = \<lparr>quitClosed = False, started = False, handlers = 0\<rparr>"
  shows "\<exists>l1 s1 l2 s2. Start catchUp R r (Stop l, s) = (Ok True, (l1, s1))
    \<and> Start catchUp R r (l1, s1) = (Ok True, (l2, s2)) \<and> handlers l2 = 2"
proof -
  have go: "\<exists>s'. Start catchUp R r (k, s) = (Ok True, (k'\<lparr>handlers := handlers k' + 1\<rparr>, s'))"
    if "startGate k = Some (True, k')" for k k' s
  proof -
    obtain a w1 where "MustGetAddr (lorenzoClient r) (outside s) = (Ok a, w1)" using addr by blast
    moreover obtain s2 where "catchUp (s\<lparr>outside := w1\<rparr>) = (Ok (), s2)" using catchUp by blast
    moreover obtain s3 where "bootstrapWithRetries R r False s2 = (Ok (), s3)" using boot by blast
    ultimately show ?thesis using that by (simp add: Start_def call_def andThen_def orPanic_def)
  qed
  have "startGate (Stop l) = Some (True, l)" by (simp add: fresh startGate_def Stop_def)
  from go [OF this] obtain s1 where
    1: "Start catchUp R r (Stop l, s) = (Ok True, (l\<lparr>handlers := 1\<rparr>, s1))" by (auto simp: fresh)
  have "startGate (l\<lparr>handlers := 1\<rparr>) = Some (True, l\<lparr>handlers := 1, started := True\<rparr>)"
    by (simp add: fresh startGate_def)
  from go [OF this, of s1] 1 show ?thesis by (auto simp: fresh)
qed

lemma early_stop_starts_two_handlers_witness:
  "\<exists>l1 s1 l2 s2. Start (lift (Ok ())) id sampleBoot
        (Stop \<lparr>quitClosed = False, started = False, handlers = 0\<rparr>, sampleState []) = (Ok True, (l1, s1))
    \<and> Start (lift (Ok ())) id sampleBoot (l1, s1) = (Ok True, (l2, s2)) \<and> handlers l2 = 2"
proof (rule early_stop_starts_two_handlers)
  show "\<exists>a w'. MustGetAddr (lorenzoClient sampleBoot) w = (Ok a, w')" for w
    by (simp add: sampleReporter_def logging_def logged_def sampleLorenzo_def)
  show "\<exists>s'. bootstrapWithRetries id sampleBoot False s = (Ok (), s')" for s
    using sampleBoot_runs [of False s] by (auto simp: bootstrapWithRetries_def)
qed simp_all

section \<open>The catch-up\<close>

text \<open>
  C31: the ranges the catch-up fetches end, and are consecutive, not empty and at most 100 blocks
  long, from the block above Lorenzo's tip to the bound or the block before it.
\<close>

theorem catch_up_ranges_cover:
  assumes "unat stop < 2 ^ 63" and "unat h \<le> unat stop + 1"
  shows "\<exists>rs last. ranges stop h = Some rs \<and> covers rs (unat h) last
    \<and> (last = unat stop \<or> last = unat stop + 1)"
  using assms by (rule ranges_cover)

theorem catch_up_ranges_cover_witness:
  "\<exists>rs last. ranges 250 2 = Some rs \<and> covers rs 2 last \<and> (last = 250 \<or> last = 251)"
  using catch_up_ranges_cover [of 250 2] by simp

text \<open>
  C32: when all the batches fit the channel (at most ten ranges), there is a run in which the catch-up
  returns nil and every batch it fetched is still in the channel: the flag that fetching is over is
  raised before the batches are taken, and the \<^verbatim>\<open>select\<close> may see it first.
\<close>

theorem catch_up_may_leave_every_batch:
  assumes "\<And>h e w. \<exists>ibs w'. FindRangeBlocksByHeight (btcClient r) h e w = (Ok ibs, w')"
    and "\<And>w. \<not> quit w" and "ranges stop h = Some rs" and "length rs \<le> ibChCapacity"
  shows "\<exists>k. catchup_reaches quit r signer stop (catchupStart (AtLoop h) tip s) k
    \<and> result k = Some (Ok ()) \<and> length (ibCh k) = length rs"
  using assms by (rule catchup_leaves_batches)

theorem catch_up_may_leave_every_batch_witness:
  "\<exists>k. catchup_reaches (\<lambda>w. False)
      (sampleBoot\<lparr>btcClient := (btcClient sampleBoot)
         \<lparr>FindRangeBlocksByHeight := (\<lambda>h e w. (Ok [sampleBlock (ucast h) (ucast h)], w))\<rparr>\<rparr>)
      ''lrz1relayer'' 5 (catchupStart (AtLoop 2) 1 (sampleState [])) k
    \<and> result k = Some (Ok ()) \<and> length (ibCh k) = 1"
proof -
  have "ranges 5 5 = Some []" by (subst ranges.simps) simp
  then have rs: "ranges 5 2 = Some [(2, 4)]"
    by (subst ranges.simps) (simp add: rangeEnd_def FetchBTCBlocksBatchSize_def Let_def)
  let ?r = "sampleBoot\<lparr>btcClient := (btcClient sampleBoot)
         \<lparr>FindRangeBlocksByHeight := (\<lambda>h e w. (Ok [sampleBlock (ucast h) (ucast h)], w))\<rparr>\<rparr>"
  have "\<exists>k. catchup_reaches (\<lambda>w. False) ?r ''lrz1relayer'' 5 (catchupStart (AtLoop 2) 1 (sampleState [])) k
    \<and> result k = Some (Ok ()) \<and> length (ibCh k) = length [(2 :: u64, 4 :: u64)]"
    by (rule catch_up_may_leave_every_batch [OF _ _ rs]) (auto simp: ibChCapacity_def prod_eq_iff)
  then show ?thesis by simp
qed

end
