(* ===== verification/Properties_Services.thy ===== *)
theory Properties_Services
  imports Commands
begin

text \<open>
  The properties of the services around the reporters: the configuration, the ZMQ client and its place
  in the bootstrap, the interrupt handlers. Each is followed by a witness on a small sample.
\<close>

section \<open>Samples\<close>

definition sampleConfig :: "unit config" where
  "sampleConfig =
     \<lparr>Common = DefaultCommonConfig, BTC = (DefaultBTCConfig ''rpc.cert''), Lorenzo = (),
      Metrics = DefaultMetricsConfig,
      Reporter = \<lparr>RepNetParams = BtcSimnet, BTCCacheSize = 1000, MaxHeadersInMsg = 100, RepDelayBlocks = 1\<rparr>,
      BNBReporter = \<lparr>RpcUrl = '''', BnbDelayBlocks = 0, BaseHeight = 0\<rparr>\<rparr>"

definition sampleConfigEnv :: "(unit, unit) config_env" where
  "sampleConfigEnv =
     \<lparr>osStat = (\<lambda>f w. (Ok (), w)), isNotExist = (\<lambda>e. False), ReadInConfig = (\<lambda>f w. (Ok (), w)),
      Unmarshal = (\<lambda>w. (Ok sampleConfig, w)), lorenzoValidate = (\<lambda>l. Ok ()), parsesIP = (\<lambda>h. True),
      osReadFile = (\<lambda>f w. (Ok (Some []), w))\<rparr>"

lemma sampleConfig_loads: "loadReporterConfig sampleConfigEnv ''lrzrelayer.yml'' () = (Ok sampleConfig, ())"
proof -
  have v: "Config_Validate (lorenzoValidate sampleConfigEnv) (parsesIP sampleConfigEnv) sampleConfig = Ok ()"
    using defaults_validate(1) defaults_validate(3) [of "\<lambda>h. True"]
    by (simp add: Config_Validate_def sampleConfig_def sampleConfigEnv_def wrapped_def)
  have env: "osStat sampleConfigEnv = (\<lambda>f w. (Ok (), w))" "ReadInConfig sampleConfigEnv = (\<lambda>f w. (Ok (), w))"
    "Unmarshal sampleConfigEnv = (\<lambda>w. (Ok sampleConfig, w))"
    by (simp_all add: sampleConfigEnv_def)
  have "config_New sampleConfigEnv ''lrzrelayer.yml'' () = (Ok sampleConfig, ())"
    unfolding config_New_def env by (simp add: andThen_def v)
  moreover have "BTCConfig_Validate (BTC sampleConfig) = Ok ()"
    by (simp add: sampleConfig_def defaults_validate)
  moreover have "ReporterConfig_Validate (Reporter sampleConfig) = Ok ()"
    by (simp add: sampleConfig_def ReporterConfig_Validate_def GetValidNetParams_def network_defs
        minBTCCacheSize_def maxHeadersInMsg_def)
  ultimately show ?thesis
    by (simp add: loadReporterConfig_def andThen_def orPanic_def wrapErr_def)
qed

text \<open>Sockets that always work, over a node with one block at height 1.\<close>

definition sampleGenesis :: block_header where
  "sampleGenesis = \<lparr>hdr_Version = 1, PrevBlock = 0, hdr_MerkleRoot = 0, hdr_Timestamp = 0, hdr_Bits = 1, hdr_Nonce = 1\<rparr>"

definition sampleRpc :: "'w rpc_client" where
  "sampleRpc =
     \<lparr>GetBestBlockHash = (\<lambda>w. (Ok 1, w)), GetBlockVerbose = (\<lambda>h w. (if h = 1 then Ok 1 else Err (ErrExternal ''unknown block''), w)),
      GetBlock = (\<lambda>h w. (if h = 1 then Ok \<lparr>mb_Header = sampleGenesis, mb_Transactions = []\<rparr>
        else Err (ErrExternal ''unknown block''), w)),
      GetBlockHash = (\<lambda>n w. (Ok 1, w)), NotifyBlocks = (\<lambda>w. (Ok (), w))\<rparr>"

definition sampleZmq :: "unit zmq_lib" where
  "sampleZmq =
     \<lparr>Setup = (\<lambda>a w. (Ok (), w)), Poll = (\<lambda>w. (Ok [ZSub], w)),
      RecvSub = (\<lambda>w. (Ok [''sequence'', replicate 32 (CHR ''h'') @ ''C''], w)),
      RecvBack = (\<lambda>w. (Ok [''term''], w)), SendFront = (\<lambda>m w. (Ok (), w)),
      SetSubscribe = (\<lambda>m w. (Ok (), w)), SetUnsubscribe = (\<lambda>m w. (Ok (), w)),
      CloseFront = (\<lambda>w. (Ok (), w)), CloseBack = (\<lambda>w. (Ok (), w)), CloseSub = (\<lambda>w. (Ok (), w)),
      Term = (\<lambda>w. (Ok (), w)), NewHashFromStr = (\<lambda>s. Ok 1), rpcClient = sampleRpc\<rparr>"

section \<open>The configuration\<close>

text \<open>
  C39: a configuration that the reporter's command accepts supports the reporter it makes: the network
  and the log format have parameters and a logger, the depths of the bootstrap are positive and fit,
  every list of headers can be cut into messages, and the cache can be made and later narrowed to
  the depths without losing a block it should keep; only a size no machine has memory for panics.
\<close>

theorem valid_config_supports_reporter:
  assumes load: "loadReporterConfig env file w = (Ok cfg, w')"
    and r: "reporterOf (Reporter cfg) btc lorenzo retry hf w0 = (r, s, l)"
  shows "(\<exists>p. GetBTCParams (BtcNetParams (BTC cfg)) = Ok p) \<and> (\<exists>lg. CreateLogger cfg = Ok lg)
    \<and> depths_ok r \<and> (\<forall>items :: indexed_block list. \<exists>cs. chunkBy items (unat (cfg_MaxHeadersInMsg r)) = Ok cs)
    \<and> unat (btcConfirmationDepth r + checkpointFinalizationTimeout r) \<le> unat (cfg_BTCCacheSize r)
    \<and> NewBTCCache (cfg_BTCCacheSize r)
        = (if makeslice_panics (cfg_BTCCacheSize r) then Panic MakeSliceOutOfRange
           else Ok \<lparr>blocks = [], maxEntries = cfg_BTCCacheSize r\<rparr>)"
proof -
  note v = loadReporterConfig_Ok [OF load] and d = ReporterConfig_ValidateD [OF loadReporterConfig_Ok(2) [OF load]]
  have "GetValidNetParams (BtcNetParams (BTC cfg)) \<noteq> None"
    using v(3) by (auto simp: BTCConfig_Validate_def split: if_splits)
  then have net: "\<exists>p. GetBTCParams (BtcNetParams (BTC cfg)) = Ok p" by (rule GetBTCParams_iff [THEN iffD2])
  have fields: "cfg_BTCCacheSize r = BTCCacheSize (Reporter cfg)" "cfg_MaxHeadersInMsg r = MaxHeadersInMsg (Reporter cfg)"
    "btcConfirmationDepth r + checkpointFinalizationTimeout r = 110"
    using r by (auto simp: reporterOf_def NewReporter_def DefaultBtcConfirmationDepth_def
        DefaultCheckpointFinalizationTimeout_def)
  have "0 < unat (cfg_MaxHeadersInMsg r)" using d(3) fields by simp
  then have chunks: "\<forall>items :: indexed_block list. \<exists>cs. chunkBy items (unat (cfg_MaxHeadersInMsg r)) = Ok cs"
    by (blast intro: chunkBy_total)
  have "cfg_BTCCacheSize r \<noteq> 0" using d(2) fields by auto
  then have cache: "NewBTCCache (cfg_BTCCacheSize r)
      = (if makeslice_panics (cfg_BTCCacheSize r) then Panic MakeSliceOutOfRange
         else Ok \<lparr>blocks = [], maxEntries = cfg_BTCCacheSize r\<rparr>)"
    by (simp add: NewBTCCache_def)
  show ?thesis using net validated_logger [OF v(1)] chunks cache d(2) fields by (auto simp: depths_ok_def)
qed

theorem valid_config_supports_reporter_witness:
  "\<exists>r s l. reporterOf (Reporter sampleConfig) (sampleClient False 5) (sampleLorenzo 1) id sampleFuns () = (r, s, l)
    \<and> depths_ok r \<and> (\<exists>cs. chunkBy [sampleBlock 1 1] (unat (cfg_MaxHeadersInMsg r)) = Ok cs)"
proof -
  obtain r s l where r: "reporterOf (Reporter sampleConfig) (sampleClient False 5) (sampleLorenzo 1) id sampleFuns ()
      = (r, s, l)" by (metis prod_cases3)
  show ?thesis using valid_config_supports_reporter [OF sampleConfig_loads r] r by blast
qed

section \<open>The ZMQ client\<close>

text \<open>
  C13: a second subscription on an active one is refused and keeps the lock. From then on, whatever the
  handler, the node and the other goroutines do, the lock is never free, \<^verbatim>\<open>exited\<close> is never closed,
  every further subscription and the first \<^verbatim>\<open>Close\<close> wait forever, and no call of \<^verbatim>\<open>Close\<close> has returned.
\<close>

theorem second_subscription_wedges_client:
  assumes "hasSub c" and "hasCtx c" and "active c" and "\<not> locked c" and "\<not> exited c" and "\<not> quitted c"
    and "closer c = NotClosing"
    and later: "zmq_reaches lib (snd (SubscribeSequence lib c)) c'"
  shows "fst (SubscribeSequence lib c) = Err ErrSubscriptionAlreadyActive
    \<and> locked c' \<and> \<not> exited c' \<and> closer c' \<noteq> CloseReturned \<and> fst (SubscribeSequence lib c') = Hang
    \<and> fst (closeBegin lib c') = (if zclosed c' then Err (ErrMessage ''client already closed'') else Hang)"
proof -
  have sub: "SubscribeSequence lib c = (Err ErrSubscriptionAlreadyActive, c\<lparr>locked := True\<rparr>)"
    using assms by (simp add: SubscribeSequence_def)
  have "wedged (c\<lparr>locked := True\<rparr>)" using assms by (simp add: wedged_def)
  then have "wedged c'" using wedged_reaches later sub by fastforce
  then show ?thesis using sub
    by (auto simp: wedged_SubscribeSequence wedged_closeBegin) (auto simp: wedged_def)
qed

theorem second_subscription_wedges_client_witness:
  "locked (snd (closeBegin sampleZmq (snd (SubscribeSequence sampleZmq ((newZmqClient ())\<lparr>active := True\<rparr>)))))"
proof -
  let ?c = "(newZmqClient ())\<lparr>active := True\<rparr>"
  have "zmq_reaches sampleZmq (snd (SubscribeSequence sampleZmq ?c))
      (snd (closeBegin sampleZmq (snd (SubscribeSequence sampleZmq ?c))))"
    by (rule r_into_rtranclp) (rule zmq_step.close)
  from second_subscription_wedges_client [OF _ _ _ _ _ _ _ this] show ?thesis
    by (simp add: newZmqClient_def)
qed

text \<open>The first message of the sample, received, made an event of, sent and taken.\<close>

lemma sampleZmq_run:
  "\<exists>c. zmq_reaches (tapped sampleZmq) (newZmqClient ((), [])) c \<and> map EventType (taken c) = [BlockConnected]
    \<and> length (received c) = 1"
proof -
  let ?lib = "tapped sampleZmq" and ?c0 = "newZmqClient ((), [] :: string list list)"
  define msg where "msg = [''sequence'', replicate 32 (CHR ''h'') @ ''C'']"
  define e where "e = NewBlockEvent BlockConnected (ucast (1 :: 64 word)) sampleGenesis"
  let ?c2 = "?c0\<lparr>zworld := ((), [msg]), handler := SendingEvent e []\<rparr>"
  have fields: "Poll ?lib = (\<lambda>st. (Ok [ZSub], st))"
    "RecvSub ?lib = (\<lambda>st. (Ok msg, (fst st, snd st @ [msg])))" "NewHashFromStr ?lib = (\<lambda>s. Ok 1)"
    "rpcClient ?lib = rpc_logged sampleRpc"
    by (simp_all add: tapped_def sampleZmq_def logged_def msg_def fun_eq_iff split: prod.split)
  have get: "zcall (zmq_getBlockByHash (rpc_logged sampleRpc) 1) c
      = (Ok (NewIndexedBlock (ucast (1 :: 64 word)) sampleGenesis [], \<lparr>mb_Header = sampleGenesis, mb_Transactions = []\<rparr>), c)"
    for c :: "(unit \<times> string list list) zmq_client"
    by (cases c; cases "zworld c") (simp add: zcall_def zmq_getBlockByHash_def rpc_logged_def sampleRpc_def logged_def andThen_def
        GetWrappedTxs_def)
  have poll: "handlerStep ?lib ?c0 = Some (?c0\<lparr>handler := Serving [ZSub]\<rparr>)"
    by (simp add: handlerStep_def newZmqClient_def proceed_def andThen_def zcall_def fields)
  have on: "onMessage ?lib [] msg c = (Ok (SendingEvent e []), c)" for c
    by (simp add: onMessage_def onSequence_def msg_def nth_append labelEvent_def sendBlockEvent_def andThen_def
        orPanic_def fields get NewIndexedBlock_def e_def)
  have serve: "handlerStep ?lib (?c0\<lparr>handler := Serving [ZSub]\<rparr>) = Some ?c2"
    by (simp add: handlerStep_def newZmqClient_def proceed_def serveSub_def andThen_def zcall_def fields on)
  have send: "handlerStep ?lib ?c2 = Some (?c2\<lparr>eventChan := [e], handler := Serving []\<rparr>)"
    by (simp add: handlerStep_def sendEvent_def newZmqClient_def eventChanCapacity_def)
  have take: "zmq_step ?lib (?c2\<lparr>eventChan := [e], handler := Serving []\<rparr>)
      (?c2\<lparr>eventChan := [e], handler := Serving [], eventChan := [], taken := [] @ [e]\<rparr>)"
    using zmq_step.receive [of "?c2\<lparr>eventChan := [e], handler := Serving []\<rparr>" e "[]" ?lib]
    by (simp add: newZmqClient_def)
  have "zmq_reaches ?lib ?c0 (?c2\<lparr>eventChan := [e], handler := Serving [], eventChan := [], taken := [] @ [e]\<rparr>)"
    using zmq_step.handle [OF poll] zmq_step.handle [OF serve] zmq_step.handle [OF send] take
    by (meson converse_rtranclp_into_rtranclp r_into_rtranclp)
  moreover have "map EventType [e] = [BlockConnected]" by (simp add: e_def NewBlockEvent_def)
  ultimately show ?thesis by fastforce
qed

text \<open>
  C12: in every state the ZMQ client reaches from its construction, over a node that answers as a
  Bitcoin node does, the events the reporter took, those in the channel and the one waiting to be
  sent are, in this order and one by one, those the \<^verbatim>\<open>sequence\<close> messages received so far announced:
  connected or disconnected, with the header of the announced hash and its height. Only a handler
  that has died of a panic leaves an announcement without an event.
\<close>

theorem zmq_events_follow_bitcoind:
  assumes "node_lawful hf hgt (rpcClient lib)"
    and "zmq_reaches (tapped lib) (newZmqClient (w, [])) c"
  shows "\<exists>made lost.
    concat (map (announced (NewHashFromStr lib)) (received c)) = made @ lost
    \<and> list_all2 (carries hf hgt) made (taken c @ eventChan c @ pendingEvents (handler c))
    \<and> (lost \<noteq> [] \<longrightarrow> (\<exists>p. handler c = Died p))"
proof -
  have "faithful hf hgt lib (newZmqClient (w, []))"
    by (simp add: faithful_def newZmqClient_def madeEvents_def pendingEvents_def)
  from faithful_reaches [OF assms(2) this assms(1)] show ?thesis
    by (simp add: faithful_def madeEvents_def)
qed

definition sampleRpcHgt :: "hash \<Rightarrow> int" where
  "sampleRpcHgt h = (if h = 1 then 1 else 0)"

lemma sampleZmq_lawful: "node_lawful (sampleFuns\<lparr>hf_BlockHash := \<lambda>h. 1\<rparr>) sampleRpcHgt (rpcClient sampleZmq)"
  by (simp add: sampleZmq_def node_lawful_def sampleRpc_def sampleRpcHgt_def sampleGenesis_def)

theorem zmq_events_follow_bitcoind_witness:
  "\<exists>c made lost. taken c \<noteq> [] \<and> zmq_reaches (tapped sampleZmq) (newZmqClient ((), [])) c
    \<and> concat (map (announced (NewHashFromStr sampleZmq)) (received c)) = made @ lost
    \<and> list_all2 (carries (sampleFuns\<lparr>hf_BlockHash := \<lambda>h. 1\<rparr>) sampleRpcHgt) made
        (taken c @ eventChan c @ pendingEvents (handler c))"
proof -
  obtain c where c: "zmq_reaches (tapped sampleZmq) (newZmqClient ((), [])) c" "map EventType (taken c) = [BlockConnected]"
    using sampleZmq_run by (elim exE conjE)
  then have "taken c \<noteq> []" by auto
  obtain made lost where m: "concat (map (announced (NewHashFromStr sampleZmq)) (received c)) = made @ lost"
      "list_all2 (carries (sampleFuns\<lparr>hf_BlockHash := \<lambda>h. 1\<rparr>) sampleRpcHgt) made
        (taken c @ eventChan c @ pendingEvents (handler c))"
    by (rule zmq_events_follow_bitcoind [OF sampleZmq_lawful c(1), THEN exE]) (elim exE conjE)
  show ?thesis by (intro exI conjI) (fact \<open>taken c \<noteq> []\<close> c(1) m)+
qed

section \<open>The subscription in the bootstrap\<close>

text \<open>
  C14: with bitcoind as the backend, a bootstrap that fails after its subscription cannot be retried:
  the next attempt gets as far as the subscription, is refused because the first one is still active,
  and the process panics although the attempt would go on. (The retry calls a closure that has failed
  once again, and lets a panic pass.)
\<close>

theorem bitcoind_retry_panics:
  assumes client: "btcClient r = client_of Bitcoind retry (SubscribeSequence lib) c"
    and failed: "bootstrap r False s = (Err e, s1)"
    and retried: "\<And>f s e t p u. f s = (Err e, t) \<Longrightarrow> f t = (Panic p, u) \<Longrightarrow> R f s = (Panic p, u)"
    and again: "andThen (waitUntilBTCSync r) (\<lambda>_. initBTCCache r) (s1\<lparr>reorgList := clear (reorgList s1)\<rparr>)
      = (Ok (), s2)"
    and sub: "hasSub (outside s2)" "active (outside s2)" "\<not> locked (outside s2)" "\<not> exited (outside s2)"
  shows "bootstrapWithRetries R r False s = (Panic (PanicErr ErrSubscriptionAlreadyActive),
    s2\<lparr>outside := (outside s2)\<lparr>locked := True\<rparr>\<rparr>)"
proof -
  have must: "call (MustSubscribeBlocks (btcClient r)) s2
      = (Panic (PanicErr ErrSubscriptionAlreadyActive), s2\<lparr>outside := (outside s2)\<lparr>locked := True\<rparr>\<rparr>)"
    using sub by (simp add: client client_of_def client_MustSubscribeBlocks_def backend_defs call_def
        mustSubscribeBlocksByZmq_def orPanic_def SubscribeSequence_def)
  from again obtain s3 where "waitUntilBTCSync r (s1\<lparr>reorgList := clear (reorgList s1)\<rparr>) = (Ok (), s3)"
    and "initBTCCache r s3 = (Ok (), s2)"
    by (auto simp: andThen_Ok_iff)
  then have panics: "bootstrap r False s1 = (Panic (PanicErr ErrSubscriptionAlreadyActive),
      s2\<lparr>outside := (outside s2)\<lparr>locked := True\<rparr>\<rparr>)"
    by (simp add: bootstrap_def andThen_def must)
  show ?thesis using retried [OF failed panics] by (simp add: bootstrapWithRetries_def)
qed

text \<open>A Lorenzo that answers for its tip and its base but fails when asked for a block.\<close>

definition outageLorenzo :: "'w lorenzo_client" where
  "outageLorenzo =
     \<lparr>MustGetAddr = (\<lambda>w. (Ok ''lrz1relayer'', w)), InsertHeaders = (\<lambda>m w. (Ok 0, w)),
      ContainsBTCBlock = (\<lambda>h w. (Err (ErrExternal ''unavailable''), w)),
      BTCHeaderChainTip = (\<lambda>w. (Ok \<lparr>lrz_Height = 1, lrz_Hash = 1\<rparr>, w)),
      BTCBaseHeader = (\<lambda>w. (Ok \<lparr>lrz_Height = 1, lrz_Hash = 1\<rparr>, w))\<rparr>"

definition outageReporter :: "unit zmq_client reporter" where
  "outageReporter =
     \<lparr>btcClient = client_of Bitcoind id (SubscribeSequence sampleZmq) sampleRpc,
      lorenzoClient = outageLorenzo, retryDo = id, headerFuns = sampleFuns\<lparr>hf_BlockHash := \<lambda>h. 1\<rparr>,
      cfg_BTCCacheSize = 1000, cfg_MaxHeadersInMsg = 100, btcConfirmationDepth = 10,
      checkpointFinalizationTimeout = 100, delayBlocks = 1\<rparr>"

definition outageState :: "bool \<Rightarrow> btc_cache option \<Rightarrow> unit zmq_client reporter_state" where
  "outageState subscribed c = \<lparr>btcCache = c, reorgList = newReorgList, metrics = NewReporterMetrics,
     outside = (newZmqClient ())\<lparr>active := subscribed\<rparr>\<rparr>"

definition outageCache :: btc_cache where
  "outageCache = \<lparr>blocks = [\<lparr>Height = 1, Header = sampleGenesis, Txs = []\<rparr>], maxEntries = 1000\<rparr>"

text \<open>The attempts run each time the one before failed, twice.\<close>

definition retryTwice :: "('s, unit) action \<Rightarrow> ('s, unit) action" where
  "retryTwice f s = (case f s of (Err _, s') \<Rightarrow> f s' | r \<Rightarrow> r)"

lemma outage_calls:
  "call (GetBestBlock (btcClient outageReporter)) s = (Ok (1, 1), s)"
  "call (FindTailBlocksByHeight (btcClient outageReporter) 1) s = (Ok (blocks outageCache), s)"
  "call (BTCHeaderChainTip (lorenzoClient outageReporter)) s = (Ok \<lparr>lrz_Height = 1, lrz_Hash = 1\<rparr>, s)"
  "call (BTCBaseHeader (lorenzoClient outageReporter)) s = (Ok \<lparr>lrz_Height = 1, lrz_Hash = 1\<rparr>, s)"
  "call (ContainsBTCBlock (lorenzoClient outageReporter) g) s = (Err (ErrExternal ''unavailable''), s)"
  by (simp_all add: call_def outageReporter_def client_of_def client_GetBestBlock_def
      client_FindTailBlocksByHeight_def getBestIndexedBlock_def client_GetBlockByHash_def getChainBlocks_def
      andThen_def wrapErr_def sampleRpc_def outageLorenzo_def NewIndexedBlock_def GetWrappedTxs_def
      outageCache_def makeslice_panics_def)

lemma outage_prefix:
  "waitUntilBTCSync outageReporter s = (Ok (), s)"
  "initBTCCache outageReporter s = (Ok (), s\<lparr>btcCache := Some outageCache\<rparr>)"
proof -
  show "waitUntilBTCSync outageReporter s = (Ok (), s)"
    by (simp add: waitUntilBTCSync_def andThen_def outage_calls)
  have base: "cacheBaseHeight outageReporter 1 1 = 1"
    by (simp add: cacheBaseHeight_def outageReporter_def)
  have size: "cfg_BTCCacheSize outageReporter = 1000" by (simp add: outageReporter_def)
  show "initBTCCache outageReporter s = (Ok (), s\<lparr>btcCache := Some outageCache\<rparr>)"
    by (simp add: initBTCCache_def newCache_def NewBTCCache_def makeslice_panics_def andThen_def
        outage_calls base size orPanic_def onCache_def outageCache_def Init_def sorted_by_height_def
        add_def cache_size_def)
qed

lemma outage_checks: "\<exists>e. syncHeaders outageReporter (s\<lparr>btcCache := Some outageCache\<rparr>)
    = (Err e, s\<lparr>btcCache := Some outageCache\<rparr>)"
proof -
  have height: "consistencyCheckHeight outageReporter 1 1 = 1"
    by (simp add: consistencyCheckHeight_def outageReporter_def word_le_nat_alt)
  have ch: "chain (hf_BlockHash sampleFuns) (blocks outageCache)" by (simp add: outageCache_def)
  have find: "FindBlock 1 outageCache = Ok (Some \<lparr>Height = 1, Header = sampleGenesis, Txs = []\<rparr>)"
    by (rule FindBlock_chain(1) [OF ch]) (simp_all add: outageCache_def cache_wf_def)
  show ?thesis
    by (simp add: syncHeaders_def checkConsistency_def checkHeaderConsistency_def andThen_def outage_calls
        height readCache_def find Let_def)
qed

lemma outage_subscribes:
  "call (MustSubscribeBlocks (btcClient outageReporter)) (outageState False c) = (Ok (), outageState True c)"
  by (simp add: call_def outageReporter_def client_of_def client_MustSubscribeBlocks_def backend_defs
      mustSubscribeBlocksByZmq_def orPanic_def SubscribeSequence_def outageState_def newZmqClient_def
      zcall_def sampleZmq_def)

theorem bitcoind_retry_panics_witness:
  "fst (bootstrapWithRetries retryTwice outageReporter False (outageState False None))
    = Panic (PanicErr ErrSubscriptionAlreadyActive)"
proof -
  let ?s = "outageState False None" and ?s1 = "outageState True (Some outageCache)"
  have clear: "(outageState b c)\<lparr>reorgList := clear (reorgList (outageState b c))\<rparr> = outageState b c" for b c
    by (simp add: outageState_def clear_def newReorgList_def)
  have cache: "(outageState b c)\<lparr>btcCache := Some outageCache\<rparr> = outageState b (Some outageCache)" for b c
    by (simp add: outageState_def)
  obtain e where e: "syncHeaders outageReporter ?s1 = (Err e, ?s1)"
    using outage_checks [of "outageState True None", unfolded cache] by blast
  have failed: "bootstrap outageReporter False ?s = (Err e, ?s1)"
    unfolding bootstrap_def clear
    by (simp add: andThen_def outage_prefix cache outage_subscribes e)
  have again: "andThen (waitUntilBTCSync outageReporter) (\<lambda>_. initBTCCache outageReporter)
      (?s1\<lparr>reorgList := clear (reorgList ?s1)\<rparr>) = (Ok (), ?s1)"
    unfolding clear by (simp add: andThen_def outage_prefix cache)
  have client: "btcClient outageReporter = client_of Bitcoind id (SubscribeSequence sampleZmq) sampleRpc"
    by (simp add: outageReporter_def)
  show ?thesis
    using bitcoind_retry_panics [OF client failed _ again, of retryTwice]
    by (simp add: retryTwice_def outageState_def newZmqClient_def)
qed

section \<open>The interrupt handlers\<close>

text \<open>
  C40: an interrupt runs the registered callbacks once each, the newest first, until one does not
  return; when all return, \<^verbatim>\<open>interruptHandlersDone\<close> is closed, and a registration after that waits
  forever.
\<close>

theorem interrupts_run_newest_first:
  assumes "registerAll hs (noInterrupts s) = Some i" and "hs \<noteq> []"
  shows "mainStarted i \<and> onInterrupt i =
      (case runInOrder (rev hs) s of
         (Ok _, s') \<Rightarrow> (Ok (), i\<lparr>program := s', handlersDone := True, mainReturned := True\<rparr>)
       | (e, s') \<Rightarrow> (e, i\<lparr>program := s'\<rparr>))
    \<and> (\<forall>i' h. onInterrupt i = (Ok (), i') \<longrightarrow> addInterruptHandler h i' = None)"
proof -
  have i: "i = (noInterrupts s)\<lparr>mainStarted := True, interruptCallbacks := hs\<rparr>"
    using assms registerAll_from [of "noInterrupts s" hs] by (simp add: noInterrupts_def)
  then have started: "mainStarted i"
    and run: "callbackLoop (interruptCallbacks i) 0 (program i) = runInOrder (rev hs) s"
    by (simp_all add: callbackLoop_reverse noInterrupts_def)
  obtain r s' where r: "runInOrder (rev hs) s = (r, s')" by fastforce
  show ?thesis
    using started by (cases r) (simp_all add: onInterrupt_def invokeCallbacks_def run r addInterruptHandler_def)
qed

text \<open>
  The reporter's command registers the stop of the reporter first, so that of the Bitcoin client runs
  first: the event channel is closed while the reporter has not been told to quit.
\<close>

theorem interrupts_run_newest_first_witness:
  "\<exists>i. registerAll (reporterHandlers (\<lambda>s. True)) (noInterrupts
        \<lparr>life = \<lparr>quitClosed = False, started = True, handlers = 1\<rparr>, events = \<lparr>waiting = [], isClosed = False\<rparr>, rpcDown = False\<rparr>) = Some i
    \<and> onInterrupt i = (Ok (), i\<lparr>program :=
        \<lparr>life = \<lparr>quitClosed = True, started = True, handlers = 0\<rparr>, events = \<lparr>waiting = [], isClosed = True\<rparr>, rpcDown = True\<rparr>,
        handlersDone := True, mainReturned := True\<rparr>)"
proof -
  let ?s = "\<lparr>life = \<lparr>quitClosed = False, started = True, handlers = 1\<rparr>, events = \<lparr>waiting = [], isClosed = False\<rparr>, rpcDown = False\<rparr>"
  obtain i where i: "registerAll (reporterHandlers (\<lambda>s. True)) (noInterrupts ?s) = Some i"
    using registerAll_from [of "noInterrupts ?s" "reporterHandlers (\<lambda>s. True)"] by (simp add: noInterrupts_def)
  have "runInOrder (rev (reporterHandlers (\<lambda>s. True))) ?s = (Ok (),
      \<lparr>life = \<lparr>quitClosed = True, started = True, handlers = 0\<rparr>, events = \<lparr>waiting = [], isClosed = True\<rparr>, rpcDown = True\<rparr>)"
    by (simp add: reporterHandlers_def andThen_def stopBtcClient_def shutdownRpc_def closeEvents_def closeChan_def stopReporter_def Stop_def)
  then show ?thesis using interrupts_run_newest_first [OF i] i by (simp add: reporterHandlers_def)
qed

end
