(* ===== verification/Properties_Start.thy ===== *)
theory Properties_Start
  imports Restart Properties_Reporter Properties_Services
begin

text \<open>
  The properties of the start of the Bitcoin reporter: what the catch-up before the bootstrap
  submits, the invariant from the constructor through the start to every state of the event loop,
  and the concurrent starts and stops of \<^verbatim>\<open>reporter/reporter.go\<close>.
\<close>

section \<open>The catch-up\<close>

text \<open>
  C8: whatever the scheduling of its goroutines, the catch-up makes Lorenzo accept, in order, the
  submissions of consecutive batches that together are one gap-free chain of the Bitcoin node's
  blocks on top of Lorenzo's tip; each batch taken is submitted to its end, and only a run that
  ends in a panic has submitted part of one more.
\<close>

theorem catch_up_submits_chain:
  assumes "observed r" and "client_lawful (headerFuns r) hgt (btcClient r)"
    and "catchUpOutcome quit r s out s'"
  shows "\<exists>signer tip t batches sents part. accepted s' = accepted s @ concat sents @ part
    \<and> list_all2 (submission r signer True) batches sents
    \<and> onTop (headerFuns r) hgt tip (concat batches) t
    \<and> (batches \<noteq> [] \<longrightarrow> lorenzoTipHash r tip) \<and> (graceful out \<longrightarrow> part = [])"
  using assms by (rule catchUp_submits)

text \<open>A run on the sample: Bitcoin at height 25, Lorenzo at 1; blocks 2 to 4 are one batch.\<close>

abbreviation sampleFar :: "sample_world reporter" where
  "sampleFar \<equiv> sampleReporter False 25 1"

lemma sampleFar_best: "client_GetBestBlock (sampleNode False 25) () = (Ok (25, 25), ())"
proof -
  have "GetBestBlockHash (sampleNode False 25) v = (Ok 25, v)" for v by (simp add: sampleNode_def)
  moreover have "GetBlockVerbose (sampleNode False 25) 25 v = (Ok 25, v)" for v
    by (simp add: sampleNode_def sampleHgt_def)
  ultimately show ?thesis by (simp add: client_GetBestBlock_def andThen_def)
qed

lemma sampleFar_range:
  "client_FindRangeBlocksByHeight (sampleNode False 25) 2 4 () =
     (Ok [sampleBlock 2 2, sampleBlock 3 3, sampleBlock 4 4], ())"
proof -
  have hash: "GetBlockHash (sampleNode False 25) 4 () = (Ok 4, ())"
    by (simp add: sampleNode_def word_less_nat_alt)
  have h: "sampleHgt 4 = 4" "sampleHgt 3 = 3" "sampleHgt 2 = 2"
    by (simp_all add: sampleHgt_def)
  have p: "PrevBlock (Header (sampleBlock 4 4)) = 3" "PrevBlock (sampleHeader 3) = 2"
    "Height (sampleBlock 4 4) = 4"
    by (simp_all add: sampleBlock_def sampleHeader_def)
  have "chainLoop (sampleNode False 25) (Suc (Suc 0)) 3 [sampleBlock 4 4] () =
     (Ok [sampleBlock 2 2, sampleBlock 3 3, sampleBlock 4 4], ())"
    by (simp add: p sampleNode_byHash h andThen_def wrapErr_def)
  then have loop: "chainLoop (sampleNode False 25) 2 3 [sampleBlock 4 4] () =
     (Ok [sampleBlock 2 2, sampleBlock 3 3, sampleBlock 4 4], ())"
    by (simp only: numeral_2_eq_2)
  show ?thesis
    by (simp add: client_FindRangeBlocksByHeight_def client_GetBlockByHeight_def andThen_def wrapErr_def
        hash sampleNode_byHash h getChainBlocks_def makeslice_panics_def p Let_def loop)
qed

lemma sampleFar_calls:
  "call (GetBestBlock (btcClient sampleFar)) s = (Ok (25, 25), s)"
  "call (FindRangeBlocksByHeight (btcClient sampleFar) 2 4) s
     = (Ok [sampleBlock 2 2, sampleBlock 3 3, sampleBlock 4 4], s)"
  "call (BTCHeaderChainTip (lorenzoClient sampleFar)) s = (Ok \<lparr>lrz_Height = 1, lrz_Hash = 1\<rparr>, s)"
  "call (MustGetAddr (lorenzoClient sampleFar)) s = (Ok ''lrz1relayer'', s)"
  by (simp_all add: call_def sampleReporter_def watching_def logging_def logged_def sampleClient_def
      client_of_def sampleFar_best sampleFar_range sampleLorenzo_def sample_outside)

lemma sampleFar_start: "startCatchUp sampleFar s = (Ok (Inr (''lrz1relayer'', 5, AtLoop 2, 1)), s)"
proof -
  have "btcConfirmationDepth sampleFar = 10" by (simp add: sampleReporter_def)
  then show ?thesis
    by (simp add: startCatchUp_def andThen_def sampleFar_calls Let_def)
qed

lemma sampleFar_batch:
  "\<exists>s'. ProcessHeaders sampleFar ''lrz1relayer'' [sampleBlock 2 2, sampleBlock 3 3, sampleBlock 4 4]
      (sampleState []) = (Ok 3, s')
    \<and> accepted s' = [\<lparr>Signer = ''lrz1relayer'', Headers = [[2], [3], [4]]\<rparr>]"
proof -
  have find: "findStart sampleFar 0 [sampleBlock 2 2, sampleBlock 3 3, sampleBlock 4 4] w = (Ok (Some 0), w)" for w
    by (simp add: sampleReporter_def containsAttempt_def logging_def logged_def sampleLorenzo_def
        BlockHash_def sampleFuns_def sampleBlock_def sampleHeader_def prod_eq_iff)
  have chunk: "chunkBy [sampleBlock 2 2, sampleBlock 3 3, sampleBlock 4 4] 100
      = Ok [[sampleBlock 2 2, sampleBlock 3 3, sampleBlock 4 4]]"
    by (simp add: chunkBy_def) (subst chunkLoop.simps, simp)
  have m: "cfg_MaxHeadersInMsg sampleFar = 100" "headerFuns sampleFar = sampleFuns"
    by (simp_all add: sampleReporter_def)
  have enc: "hf_Encode sampleFuns (Header (sampleBlock 2 2)) = [2]"
    "hf_Encode sampleFuns (Header (sampleBlock 3 3)) = [3]"
    "hf_Encode sampleFuns (Header (sampleBlock 4 4)) = [4]"
    by (simp_all add: sampleFuns_def sampleBlock_def sampleHeader_def)
  have get: "getHeaderMsgsToSubmit sampleFar ''lrz1relayer'' [sampleBlock 2 2, sampleBlock 3 3, sampleBlock 4 4]
      (sampleState []) = (Ok [\<lparr>Signer = ''lrz1relayer'', Headers = [[2], [3], [4]]\<rparr>], sampleState [])"
    by (simp add: getHeaderMsgsToSubmit_def andThen_def call_def find m chunk NewMsgInsertHeaders_def
        enc del: findStart.simps)
  show ?thesis
    by (simp add: ProcessHeaders_def andThen_def wrapErr_def get submitHeaderMsgs_def)
      (simp add: sampleReporter_def insertAttempt_def logging_def sampleLorenzo_def sampleState_def
        countSuccessful_def)
qed

lemma sampleFar_run:
  "\<exists>s'. catchUpOutcome (\<lambda>w. False) sampleFar (sampleState []) (Ok ()) s'
    \<and> accepted s' = [\<lparr>Signer = ''lrz1relayer'', Headers = [[2], [3], [4]]\<rparr>]"
proof -
  let ?go = "catchup_reaches (\<lambda>w. False) sampleFar ''lrz1relayer'' 5 (catchupStart (AtLoop 2) 1 (sampleState []))"
  let ?ibs = "[sampleBlock 2 2, sampleBlock 3 3, sampleBlock 4 4]"
  let ?k = "\<lambda>f ch ov. \<lparr>fetcher = f, ibCh = ch, overCh = ov, tipHeader = 1, result = None, rep = sampleState []\<rparr>"
  have e: "rangeEnd 5 2 = 4" by (simp add: rangeEnd_def FetchBTCBlocksBatchSize_def Let_def)
  obtain s' where sub: "ProcessHeaders sampleFar ''lrz1relayer'' ?ibs (sampleState []) = (Ok 3, s')"
    "accepted s' = [\<lparr>Signer = ''lrz1relayer'', Headers = [[2], [3], [4]]\<rparr>]"
    using sampleFar_batch by blast
  have "?go (?k (AtLoop 2) [] False)"
    using catchup_reaches.here [of "\<lambda>w. False" sampleFar "''lrz1relayer''" 5] by (simp add: catchupStart_def)
  moreover have "catchup_step (\<lambda>w. False) sampleFar ''lrz1relayer'' 5 (?k (AtLoop 2) [] False) (?k (Sending 4 ?ibs) [] False)"
    using catchup_step.fetch [of "?k (AtLoop 2) [] False" 2 5 "\<lambda>w. False" sampleFar ?ibs "sampleState []"]
    by (simp add: e sampleFar_calls)
  moreover have "catchup_step (\<lambda>w. False) sampleFar ''lrz1relayer'' 5 (?k (Sending 4 ?ibs) [] False) (?k (AtLoop 5) [?ibs] False)"
    using catchup_step.send [of "?k (Sending 4 ?ibs) [] False" 4 ?ibs] by (simp add: ibChCapacity_def)
  moreover have "catchup_step (\<lambda>w. False) sampleFar ''lrz1relayer'' 5 (?k (AtLoop 5) [?ibs] False) (?k Gone [?ibs] True)"
    using catchup_step.over [of "?k (AtLoop 5) [?ibs] False" 5 5] by simp
  ultimately have "?go (?k Gone [?ibs] True)" by (blast intro: catchup_reaches.step)
  moreover define k where "k = takeBatch sampleFar ''lrz1relayer'' ?ibs (?k Gone [] True)"
  have "PrevBlock (Header (sampleBlock 2 2)) = 1" by (simp add: sampleBlock_def sampleHeader_def)
  then have k: "result k = None" "overCh k" "rep k = s'"
    by (simp_all add: k_def takeBatch_def sub(1))
  have "catchup_step (\<lambda>w. False) sampleFar ''lrz1relayer'' 5 (?k Gone [?ibs] True) k"
    using catchup_step.receive [of "?k Gone [?ibs] True" ?ibs "[]"] by (simp add: k_def)
  moreover have "catchup_step (\<lambda>w. False) sampleFar ''lrz1relayer'' 5 k (k\<lparr>result := Some (Ok ())\<rparr>)"
    using k by (intro catchup_step.receive_over)
  ultimately have "?go (k\<lparr>result := Some (Ok ())\<rparr>)" by (blast intro: catchup_reaches.step)
  from catchUpOutcome.loops [OF sampleFar_start this] show ?thesis using k(3) sub(2) by auto
qed

theorem catch_up_submits_chain_witness:
  "\<exists>s'. catchUpOutcome (\<lambda>w. False) sampleFar (sampleState []) (Ok ()) s'
    \<and> accepted s' = [\<lparr>Signer = ''lrz1relayer'', Headers = [[2], [3], [4]]\<rparr>]
    \<and> (\<exists>signer tip t batches sents. accepted s' = concat sents \<and> lorenzoTipHash sampleFar tip
      \<and> list_all2 (submission sampleFar signer True) batches sents
      \<and> onTop sampleFuns sampleHgt tip (concat batches) t)"
proof -
  obtain s' where run: "catchUpOutcome (\<lambda>w. False) sampleFar (sampleState []) (Ok ()) s'"
    "accepted s' = [\<lparr>Signer = ''lrz1relayer'', Headers = [[2], [3], [4]]\<rparr>]"
    using sampleFar_run by blast
  have f: "headerFuns sampleFar = sampleFuns" "accepted (sampleState []) = []"
    by (simp_all add: sampleReporter_def sampleState_def)
  obtain signer tip t batches sents part where out: "accepted s' = [] @ concat sents @ part"
    "list_all2 (submission sampleFar signer True) batches sents"
    "onTop sampleFuns sampleHgt tip (concat batches) t"
    "batches \<noteq> [] \<longrightarrow> lorenzoTipHash sampleFar tip" "graceful (Ok ()) \<longrightarrow> part = []"
    using catch_up_submits_chain [OF sampleReporter_observed sampleReporter_lawful run(1)]
    unfolding f by (elim exE conjE)
  have "sents \<noteq> []" using out(1,5) run(2) by auto
  then have "batches \<noteq> []" using out(2) by auto
  then show ?thesis
    using run out by (intro exI [of _ s'] conjI exI [of _ signer] exI [of _ tip] exI [of _ t]
      exI [of _ batches] exI [of _ sents]) simp_all
qed

section \<open>From the command to the event loop\<close>

text \<open>
  From the constructor, through a start with its catch-up and bootstrap, to every state the event
  loop reaches.
\<close>

lemma started_reporter_keeps_invariant:
  assumes "NewReporter n m d btc lorenzo retry hf mets w = (r, s0, l0)"
    and "client_lawful hf hgt btc" and "boot_retry_lawful R" and "schedules quit0 r catchUp"
    and "Start catchUp R r (l0, s0) = (Ok True, (l, s))" and "handler_reaches quit R r s x"
  shows "loop_inv r hgt x"
proof -
  note new = NewReporter_inv [OF assms(1)]
  have law: "client_lawful (headerFuns r) hgt (btcClient r)" using assms(2) new by simp
  have "reporter_inv r hgt s"
    using Start_inv [OF assms(3) law new(2) assms(4) new(1) assms(5)] .
  from assms(6) this show ?thesis
    by induction (auto intro: handler_step_inv [OF assms(3) law new(2)])
qed

text \<open>The sample behind Bitcoin by less than twice the depth: the catch-up returns at once.\<close>

lemma sampleBoot_close: "startCatchUp sampleBoot s = (Ok (Inl ()), s)"
proof -
  have "btcConfirmationDepth sampleBoot = 10" by (simp add: sampleReporter_def)
  then show ?thesis
    by (simp add: startCatchUp_def andThen_def sampleBoot_calls Let_def)
qed

definition sampleNew :: "sample_world reporter_state" where
  "sampleNew = \<lparr>btcCache = None, reorgList = newReorgList, metrics = NewReporterMetrics, outside = ((), [])\<rparr>"

lemma sampleBoot_new:
  "NewReporter 1000 100 1 (btcClient sampleBoot) (lorenzoClient sampleBoot) id sampleFuns NewReporterMetrics ((), [])
    = (sampleBoot, sampleNew, \<lparr>quitClosed = False, started = False, handlers = 0\<rparr>)"
  by (simp add: NewReporter_def sampleReporter_def sampleNew_def DefaultBtcConfirmationDepth_def
      DefaultCheckpointFinalizationTimeout_def)

lemma sampleBoot_schedules: "schedules quit sampleBoot (lift (Ok ()))"
  using catchUpOutcome.close [OF sampleBoot_close] by (simp add: schedules_def)

lemma sampleBoot_starts:
  "\<exists>s. Start (lift (Ok ())) id sampleBoot (\<lparr>quitClosed = False, started = False, handlers = 0\<rparr>, sampleNew)
    = (Ok True, (\<lparr>quitClosed = False, started = True, handlers = 1\<rparr>, s))"
proof -
  obtain s where "bootstrap sampleBoot False sampleNew = (Ok (), s)" using sampleBoot_runs by blast
  then show ?thesis
    by (simp add: Start_def sampleBoot_calls startGate_def andThen_def orPanic_def bootstrapWithRetries_def)
qed

lemma started_reporter_sample:
  "\<exists>r s0 l0 l s. NewReporter 1000 100 1 (btcClient sampleBoot) (lorenzoClient sampleBoot) id sampleFuns
      NewReporterMetrics ((), []) = (r, s0, l0)
    \<and> Start (lift (Ok ())) id r (l0, s0) = (Ok True, (l, s)) \<and> handlers l = 1
    \<and> loop_inv r sampleHgt (Waiting s)"
proof -
  obtain s where run: "Start (lift (Ok ())) id sampleBoot (\<lparr>quitClosed = False, started = False, handlers = 0\<rparr>, sampleNew)
    = (Ok True, (\<lparr>quitClosed = False, started = True, handlers = 1\<rparr>, s))" using sampleBoot_starts by blast
  have "client_lawful sampleFuns sampleHgt (btcClient sampleBoot)"
    using sampleReporter_lawful [of False 3 1] by (simp add: sampleReporter_def)
  from started_reporter_keeps_invariant [OF sampleBoot_new this boot_retry_once sampleBoot_schedules run handler_reaches.here]
  show ?thesis using sampleBoot_new run by (intro exI conjI) (assumption | simp)+
qed

text \<open>
  whatever configuration the reporter's command is given, once it has loaded it, opened its clients
  and started its reporter (with the catch-up and the bootstrap, under any scheduling), then in every
  state the event loop reaches, through any events, re-bootstraps and moves of the outside world, the
  cache is well formed and holds a chain of blocks of the Bitcoin node at their heights, and the reorg
  list keeps the work of exactly the blocks it holds; a message takes at least 100 headers.
\<close>

lemma command_keeps_invariant:
  assumes "reporterCommand env ext allReturn ch file keyDir w = (Ok (r, s, i), w')"
    and "externals_lawful env ext hgt quit0" and "handler_reaches quit (bootRetry ext) r s x"
  shows "loop_inv r hgt x \<and> 100 \<le> unat (cfg_MaxHeadersInMsg r)"
proof -
  note ok = reporterCommand_Ok [OF assms(1,2)]
  have "boot_retry_lawful (bootRetry ext)" using assms(2) by (simp add: externals_lawful_def)
  with assms(3) ok(3) have "loop_inv r hgt x"
    by induction (auto intro: handler_step_inv [OF _ ok(1,2)])
  then show ?thesis using ok(4) by simp
qed

text \<open>A catch-up that hangs when it has to run its loops, and the outside of the sample.\<close>

definition sampleCatchUp :: "'w reporter \<Rightarrow> ('w reporter_state, unit) action" where
  "sampleCatchUp r s =
     (case startCatchUp r s of
        (Ok (Inl _), s') \<Rightarrow> (Ok (), s')
      | (Ok (Inr _), s') \<Rightarrow> (Hang, s')
      | (e, s') \<Rightarrow> (reraise e, s'))"

lemma sampleCatchUp_schedules: "schedules quit r (sampleCatchUp r)"
  unfolding schedules_def
proof
  fix s
  obtain out s' where run: "startCatchUp r s = (out, s')" by (metis surj_pair)
  have core: "core s' = core s" using core_startCatchUp [of r s] by (simp add: run)
  show "(fst (sampleCatchUp r s) = Hang \<and> core (snd (sampleCatchUp r s)) = core s)
     \<or> catchUpOutcome quit r s (fst (sampleCatchUp r s)) (snd (sampleCatchUp r s))"
  proof (cases out)
    case (Ok x)
    then show ?thesis using run core catchUpOutcome.close [of r s _ s' quit] by (cases x) (simp_all add: sampleCatchUp_def)
  qed (use run catchUpOutcome.queries [OF run, of quit] in \<open>simp_all add: sampleCatchUp_def\<close>)
qed

definition sampleCommandEnv :: "(unit, unit) command_env" where
  "sampleCommandEnv =
     \<lparr>configEnv = sampleConfigEnv,
      dialEnv = \<lparr>rpcNew = (\<lambda>conn w. (Ok (sampleNode False 3), w)), BackendVersion = (\<lambda>c w. (Ok BtcdVersion, w)),
        zmqLibOf = (\<lambda>c. sampleZmq), fileEnv = sampleConfigEnv\<rparr>,
      setKeyDirectory = (\<lambda>k l. l), lorenzoNew = (\<lambda>l w. (Ok (sampleLorenzo 1), w))\<rparr>"

definition sampleExternals :: "unit externals" where
  "sampleExternals =
     \<lparr>webSocketRetry = id, zmqSubscribe = (\<lambda>w. (Ok (), w)), lorenzoRetry = id, btcHeaderFuns = sampleFuns,
      catchUpRun = sampleCatchUp, bootRetry = id\<rparr>"

lemma sampleExternals_lawful: "externals_lawful sampleCommandEnv sampleExternals sampleHgt quit"
  using sampleNode_lawful boot_retry_once sampleCatchUp_schedules
  by (auto simp: externals_lawful_def sampleCommandEnv_def sampleExternals_def)

lemma unit_outside: "s\<lparr>outside := ()\<rparr> = (s :: unit reporter_state)"
  by (cases s) simp

text \<open>On the sample the command connects to btcd, starts at once and waits for an interrupt.\<close>

lemma sampleCommand_prepares:
  "prepareReporter sampleCommandEnv ''lrzrelayer.yml'' '''' () = (Ok (sampleConfig,
     \<lparr>Params = SimNetParams, Cfg = BTC sampleConfig, rpc = Some (sampleNode False 3), zmqClient = None\<rparr>,
     sampleLorenzo 1), ())"
proof -
  have env: "configEnv sampleCommandEnv = sampleConfigEnv" "lorenzoNew sampleCommandEnv = (\<lambda>l w. (Ok (sampleLorenzo 1), w))"
    "rpcNew (dialEnv sampleCommandEnv) = (\<lambda>conn w. (Ok (sampleNode False 3), w))"
    "BackendVersion (dialEnv sampleCommandEnv) = (\<lambda>c w. (Ok BtcdVersion, w))"
    "fileEnv (dialEnv sampleCommandEnv) = sampleConfigEnv"
    by (simp_all add: sampleCommandEnv_def)
  have cfg: "BtcNetParams (BTC sampleConfig) = BtcSimnet" "BtcBackend (BTC sampleConfig) = Btcd"
    by (simp_all add: sampleConfig_def DefaultBTCConfig_def)
  have params: "GetBTCParams BtcSimnet = Ok SimNetParams" and other: "Btcd \<noteq> Bitcoind"
    by (simp_all add: GetBTCParams_def network_defs backend_defs)
  have ca: "ReadCAFile sampleConfigEnv (BTC sampleConfig) () = (Ok (Some []), ())"
    by (simp add: ReadCAFile_def andThen_def sampleConfigEnv_def sampleConfig_def DefaultBTCConfig_def)
  have client: "NewWithBlockSubscriber (dialEnv sampleCommandEnv) (BTC sampleConfig) ()
      = (Ok \<lparr>Params = SimNetParams, Cfg = BTC sampleConfig, rpc = Some (sampleNode False 3), zmqClient = None\<rparr>, ())"
    by (simp add: NewWithBlockSubscriber_def connect_def andThen_def newErr_def env cfg params other ca)
  obtain lg where logger: "CreateLogger sampleConfig = Ok lg"
    by (simp add: CreateLogger_def NewRootLogger_def encoderOf_def sampleConfig_def DefaultCommonConfig_def)
  show ?thesis
    by (simp add: prepareReporter_def andThen_def orPanic_def wrapErr_def env sampleConfig_loads logger client)
qed

text \<open>Its reporter is like the sample.\<close>

definition sampleCommandReporter :: "unit reporter" where
  "sampleCommandReporter =
     \<lparr>btcClient = client_of Btcd id (\<lambda>w. (Ok (), w)) (sampleNode False 3), lorenzoClient = sampleLorenzo 1,
      retryDo = id, headerFuns = sampleFuns, cfg_BTCCacheSize = 1000, cfg_MaxHeadersInMsg = 100,
      btcConfirmationDepth = 10, checkpointFinalizationTimeout = 100, delayBlocks = 1\<rparr>"

lemma sampleCommand_like: "sampleLike sampleCommandReporter"
proof -
  have sub: "client_MustSubscribeBlocks Btcd id (\<lambda>w. (Ok (), w)) (sampleNode False 3) () = (Ok (), ())"
    by (simp add: client_MustSubscribeBlocks_def mustSubscribeBlocksByWebSocket_def orPanic_def sampleNode_def Let_def backend_defs)
  have "welcoming sampleCommandReporter"
    by (simp add: welcoming_def sampleCommandReporter_def sampleLorenzo_def)
  then show ?thesis
    by (simp add: sampleLike_def)
      (simp add: sampleCommandReporter_def call_def client_of_def sampleNode_best sampleNode_tail0 sub
        sampleLorenzo_def unit_outside)
qed

text \<open>On the sample the command connects to btcd, starts at once and waits for an interrupt.\<close>

lemma sampleCommand_runs:
  "\<exists>s i. reporterCommand sampleCommandEnv sampleExternals (\<lambda>s. True) \<lparr>waiting = [], isClosed = False\<rparr>
      ''lrzrelayer.yml'' '''' () = (Ok (sampleCommandReporter, s, i), ())"
proof -
  let ?r = sampleCommandReporter
  let ?st = "\<lparr>btcCache = None, reorgList = newReorgList, metrics = NewReporterMetrics, outside = ()\<rparr>"
  let ?new = "\<lparr>quitClosed = False, started = False, handlers = 0\<rparr>"
  let ?on = "\<lparr>quitClosed = False, started = True, handlers = 1\<rparr>"
  have cfg: "BtcBackend (BTC sampleConfig) = Btcd" "Reporter sampleConfig
      = \<lparr>RepNetParams = BtcSimnet, BTCCacheSize = 1000, MaxHeadersInMsg = 100, RepDelayBlocks = 1\<rparr>"
    by (simp_all add: sampleConfig_def DefaultBTCConfig_def)
  have made: "reporterOf (Reporter sampleConfig) (client_of Btcd id (\<lambda>w. (Ok (), w)) (sampleNode False 3))
      (sampleLorenzo 1) id sampleFuns () = (?r, ?st, ?new)"
    by (simp add: reporterOf_def NewReporter_def cfg sampleCommandReporter_def
        DefaultBtcConfirmationDepth_def DefaultCheckpointFinalizationTimeout_def)
  note call = sampleLikeD [OF sampleCommand_like]
  have "startCatchUp ?r s = (Ok (Inl ()), s)" for s
    by (simp add: startCatchUp_def andThen_def call Let_def)
  then have up: "sampleCatchUp ?r s = (Ok (), s)" for s by (simp add: sampleCatchUp_def)
  obtain s where boot: "bootstrap ?r False ?st = (Ok (), s)" using sample_boots [OF sampleCommand_like] by blast
  have start: "Start (sampleCatchUp ?r) id ?r (?new, ?st) = (Ok True, (?on, s))"
    using boot by (simp add: Start_def call startGate_def andThen_def orPanic_def up bootstrapWithRetries_def)
  obtain i where i: "registerAll (reporterHandlers (\<lambda>s. True))
      (noInterrupts \<lparr>life = ?on, events = \<lparr>waiting = [], isClosed = False\<rparr>, rpcDown = False\<rparr>) = Some i"
    using registerAll_from [of "noInterrupts \<lparr>life = ?on, events = \<lparr>waiting = [], isClosed = False\<rparr>, rpcDown = False\<rparr>"
        "reporterHandlers (\<lambda>s. True)"] by (simp add: noInterrupts_def)
  have ext: "webSocketRetry sampleExternals = id" "zmqSubscribe sampleExternals = (\<lambda>w. (Ok (), w))"
    "lorenzoRetry sampleExternals = id" "btcHeaderFuns sampleExternals = sampleFuns"
    "catchUpRun sampleExternals = sampleCatchUp" "bootRetry sampleExternals = id"
    by (simp_all add: sampleExternals_def)
  have "reporterCommand sampleCommandEnv sampleExternals (\<lambda>s. True) \<lparr>waiting = [], isClosed = False\<rparr>
      ''lrzrelayer.yml'' '''' () = (Ok (?r, s, i), outside s)"
    by (simp add: reporterCommand_def andThen_def sampleCommand_prepares ext cfg(1) made start i [simplified])
  then show ?thesis by auto
qed

lemma command_keeps_invariant_witness:
  "\<exists>s i. reporterCommand sampleCommandEnv sampleExternals (\<lambda>s. True) \<lparr>waiting = [], isClosed = False\<rparr>
      ''lrzrelayer.yml'' '''' () = (Ok (sampleCommandReporter, s, i), ())
    \<and> loop_inv sampleCommandReporter sampleHgt (Waiting s)"
proof -
  obtain s i where run: "reporterCommand sampleCommandEnv sampleExternals (\<lambda>s. True)
      \<lparr>waiting = [], isClosed = False\<rparr> ''lrzrelayer.yml'' '''' () = (Ok (sampleCommandReporter, s, i), ())"
    using sampleCommand_runs by blast
  have "handler_reaches (\<lambda>w. (False, w)) (bootRetry sampleExternals) sampleCommandReporter s (Waiting s)"
    by (rule handler_reaches.here)
  from command_keeps_invariant [OF run sampleExternals_lawful this]
  have "loop_inv sampleCommandReporter sampleHgt (Waiting s)" by simp
  then show ?thesis using run by blast
qed

section \<open>Starting and stopping concurrently\<close>

text \<open>
  C27: until the reporter is stopped for the first time, however many goroutines call \<^verbatim>\<open>Start\<close>, at most
  one is on the way to the event handler or runs it.
\<close>

theorem single_handler_until_stopped:
  assumes "life_reaches (life_new, []) (s, ts)" and "closedQuits s = []"
  shows "workers ts \<le> 1 \<and> wg s = alive ts"
  using single_handler [OF assms(1)] life_reaches_inv [OF assms(1)] assms(2) by simp

theorem single_handler_until_stopped_witness:
  "\<exists>s. life_reaches (life_new, []) (s, [HandlerStarts, Starting]) \<and> closedQuits s = []
    \<and> workers [HandlerStarts, Starting] \<le> 1 \<and> wg s = 1"
proof -
  let ?s = "life_new\<lparr>startedFlag := True, wg := 1, contexts := 1, cancelled := [0]\<rparr>"
  have "life_reaches (life_new, []) (?s, [HandlerStarts])"
    using run_boot [of "(life_new, [])" "life_new\<lparr>startedFlag := True\<rparr>" "[]" "[]"] run_first_start
    by (simp add: life_new_def)
  then have "life_reaches (life_new, []) (?s, [HandlerStarts] @ [Starting])"
    by (intro reach_call) (simp_all add: life_new_def)
  then have r: "life_reaches (life_new, []) (?s, [HandlerStarts, Starting])" by simp
  then show ?thesis
    using single_handler_until_stopped [OF r] by (intro exI [of _ ?s]) (simp add: life_new_def)
qed

text \<open>
  C28: once a goroutine inside \<^verbatim>\<open>Start\<close> waits for the handlers of a stopped reporter, which it does
  holding the lock, and a handler is about to read the quit channel, which takes the lock, both wait
  for ever, and the lock stays held: every later \<^verbatim>\<open>Start\<close>, \<^verbatim>\<open>Stop\<close> and \<^verbatim>\<open>ShuttingDown\<close> waits too.
\<close>

theorem restart_waits_for_ever:
  assumes "life_reaches (life_new, []) k" and "Restarting \<in> set (snd k)" and "t \<in> set (snd k)"
    and "counted t" and "needsLock t" and "life_reaches k k'"
  shows "quitMu (fst k') \<and> Restarting \<in> set (snd k') \<and> t \<in> set (snd k')"
  using wedged_for_ever [OF assms(6) life_reaches_inv [OF assms(1)] assms(4,5,2,3)] by simp

text \<open>The handler of the first start has not read the quit channel when the reporter is restarted.\<close>

theorem restart_waits_for_ever_witness:
  "\<exists>s. life_reaches (life_new, []) (s, [HandlerStarts, Restarting])
    \<and> (\<forall>k'. life_reaches (s, [HandlerStarts, Restarting]) k'
        \<longrightarrow> quitMu (fst k') \<and> HandlerStarts \<in> set (snd k'))"
proof -
  let ?s = "life_new\<lparr>startedFlag := True, wg := 1, contexts := 1, cancelled := [0]\<rparr>"
  let ?t = "?s\<lparr>closedQuits := [0], quitMu := True\<rparr>"
  have "life_reaches (life_new, []) (?s, [HandlerStarts])"
    using run_boot [of "(life_new, [])" "life_new\<lparr>startedFlag := True\<rparr>" "[]" "[]"] run_first_start
    by (simp add: life_new_def)
  then have "life_reaches (life_new, []) (?s\<lparr>closedQuits := [0]\<rparr>, [HandlerStarts])"
    using run_stop [of "(life_new, [])" ?s "[HandlerStarts]"] by (simp add: life_new_def quitIsClosed_def)
  then have r: "life_reaches (life_new, []) (?t, [HandlerStarts, Restarting])"
    using run_start_again [of "(life_new, [])" "?s\<lparr>closedQuits := [0]\<rparr>" "[HandlerStarts]"]
    by (simp add: life_new_def quitIsClosed_def)
  have "quitMu (fst k') \<and> HandlerStarts \<in> set (snd k')"
    if "life_reaches (?t, [HandlerStarts, Restarting]) k'" for k'
    using restart_waits_for_ever [OF r _ _ _ _ that, of HandlerStarts] by simp
  then show ?thesis using r by blast
qed

text \<open>
  C29: a reporter stopped while its start is still catching up, and started again, runs two event
  handlers on the same open quit channel: the wait group does not count a start on its way.
\<close>

theorem stop_during_start_runs_two_handlers:
  "\<exists>s. life_reaches (life_new, []) (s, [Handling 1, Handling 1])
     \<and> quitNo s = 1 \<and> \<not> quitIsClosed 1 s \<and> \<not> life_crashed s"
proof -
  let ?k = "(life_new, [] :: life_thread list)"
  let ?s1 = "life_new\<lparr>startedFlag := True\<rparr>"
  let ?s2 = "?s1\<lparr>closedQuits := [0]\<rparr>"
  let ?s3 = "?s2\<lparr>quitNo := 1\<rparr>"
  let ?s4 = "?s3\<lparr>wg := 1, contexts := 1, cancelled := [0]\<rparr>"
  let ?s5 = "?s3\<lparr>wg := 2, contexts := 2, cancelled := [1, 0]\<rparr>"
  have "life_reaches ?k (?s2, [CatchingUp])"
    using run_stop [OF run_first_start] by (simp add: life_new_def quitIsClosed_def)
  then have "life_reaches ?k (?s3, [CatchingUp, CatchingUp])"
    using run_restart [of ?k ?s2 "[CatchingUp]"] by (simp add: life_new_def quitIsClosed_def)
  then have "life_reaches ?k (?s4, [HandlerStarts, CatchingUp])"
    using run_boot [of ?k ?s3 "[]" "[CatchingUp]"] by (simp add: life_new_def)
  then have "life_reaches ?k (?s5, [HandlerStarts, HandlerStarts])"
    using run_boot [of ?k ?s4 "[HandlerStarts]" "[]"] by (simp add: life_new_def numeral_2_eq_2)
  then have "life_reaches ?k (?s5, [Handling 1, HandlerStarts])"
    using run_handler [of ?k ?s5 "[]" "[HandlerStarts]"] by (simp add: life_new_def)
  then have "life_reaches ?k (?s5, [Handling 1, Handling 1])"
    using run_handler [of ?k ?s5 "[Handling 1]" "[]"] by (simp add: life_new_def)
  then show ?thesis by (intro exI [of _ ?s5]) (simp add: life_new_def quitIsClosed_def)
qed

end
