(* ===== verification/Properties_Process.thy ===== *)
theory Properties_Process
  imports Program Properties_Start
begin

text \<open>
  The properties of the whole program: what holds in every state of the process, whatever the
  command line, the configuration, the events, the scheduling and the interrupts; what it has made Lorenzo
  accept by then; and how it ends.
\<close>

section \<open>The invariant\<close>

text \<open>
  C2: whatever arguments the program is given, once it runs the reporter's command, then in every state
  its process reaches (through block events, re-bootstraps, moves of the outside world, an interrupt and
  failures of the metrics server), the cache is well formed and holds a chain of blocks of the Bitcoin node
  at their heights, and the reorg list keeps the work of exactly the blocks it holds; a message takes at
  least 100 headers.
\<close>

theorem program_keeps_invariant:
  assumes "main env prefixes execute dir ch args w = (Ok (ReporterRuns r s i), w')"
    and "externals_lawful (commandEnv env) (externalsOf env) hgt quit0"
    and "theReporter penv = r" and "bootRetries penv = bootRetry (externalsOf env)"
    and "process_reaches penv (processOf s i) p"
  shows "loop_inv r hgt (eventLoop p) \<and> 100 \<le> unat (cfg_MaxHeadersInMsg r)"
proof -
  obtain cfgFile keyDir w1 where "reporterCommand (commandEnv env) (externalsOf env) (returning env) ch cfgFile keyDir w1
      = (Ok (r, s, i), w')"
    using assms(1) by (auto simp: main_def andThen_Ok_iff split: invocation.splits if_splits)
  note ok = reporterCommand_Ok [OF this assms(2)]
  have R: "boot_retry_lawful (bootRetries penv)" using assms(2,4) by (simp add: externals_lawful_def)
  have "loop_all (reporter_inv r hgt) (eventLoop p)"
  proof (rule process_runs_all [OF assms(5)])
    show "loop_all (reporter_inv r hgt) (eventLoop (processOf s i))" using ok(3) by (simp add: processOf_def)
    show "reporter_inv r hgt (snd (onEvent quit (bootRetries penv) r' ev t))"
      if "serving c (theReporter penv) ev r'" "reporter_inv r hgt t" for c quit ev r' t
    proof -
      note serves = that(1) [unfolded assms(3)]
      have "reporter_inv r' hgt (snd (onEvent quit (bootRetries penv) r' ev t))"
        using serving_lawful(1) [OF serves, of hgt] ok(1)
        by (intro onEvent_inv [OF R]) (simp_all add: serving_lawful(2,3) [OF serves] ok(2) that(2))
      then show ?thesis by (simp add: serving_lawful(3) [OF serves])
    qed
  qed (simp add: reporter_inv_def)
  then show ?thesis using ok(4) by (simp add: loop_all_inv)
qed

text \<open>The sample program: cobra runs the reporter's command on the flags' defaults.\<close>

definition sampleParse :: cobra_parser where
  "sampleParse root args = Invoked ''reporter'' (\<lambda>f. if f = ''config'' then ''lrzrelayer.yml'' else '''')"

definition sampleProgram :: "(unit, unit) program_env" where
  "sampleProgram =
     \<lparr>commandEnv = sampleCommandEnv, externalsOf = sampleExternals, returning = (\<lambda>s. True),
      newBnbLorenzo = (\<lambda>l w. (Err (ErrExternal ''''), w)), dialEth = (\<lambda>u w. (Err (ErrExternal ''''), w)),
      dialRpc = (\<lambda>u w. (Err (ErrExternal ''''), w)),
      rlpLib = \<lparr>rlp_flush = (\<lambda>ws. []), rlp_decode = (\<lambda>b. Err (ErrExternal '''')), keccak256 = (\<lambda>b. 0)\<rparr>,
      bnbCatchUp = (\<lambda>r s. (Ok (), s)), bnbReturning = (\<lambda>l. True)\<rparr>"

abbreviation idleChan :: event_chan where "idleChan \<equiv> \<lparr>waiting = [], isClosed = False\<rparr>"

lemma sampleProgram_runs:
  "\<exists>s i. main sampleProgram (lift (Ok ())) sampleParse (\<lambda>a. a) idleChan [''reporter''] ()
      = (Ok (ReporterRuns sampleCommandReporter s i), ())
    \<and> reporterCommand sampleCommandEnv sampleExternals (\<lambda>s. True) idleChan ''lrzrelayer.yml'' '''' ()
      = (Ok (sampleCommandReporter, s, i), ())"
proof -
  obtain s i where run: "reporterCommand sampleCommandEnv sampleExternals (\<lambda>s. True) idleChan ''lrzrelayer.yml'' '''' ()
      = (Ok (sampleCommandReporter, s, i), ())"
    using sampleCommand_runs by blast
  then have "main sampleProgram (lift (Ok ())) sampleParse (\<lambda>a. a) idleChan [''reporter''] ()
      = (Ok (ReporterRuns sampleCommandReporter s i), ())"
    by (simp add: main_def andThen_def sampleParse_def sampleProgram_def)
  with run show ?thesis by blast
qed

text \<open>Its process, with a metrics server whose address is taken.\<close>

definition sampleProcess :: "'w reporter \<Rightarrow> ('w, unit) process_env" where
  "sampleProcess r =
     \<lparr>theReporter = r, bootRetries = id,
      metricsEnv = \<lparr>MustRegister = (\<lambda>c g. (Ok (), g)), http_Handle = (\<lambda>p g. (Ok (), g)),
        ListenAndServe = (\<lambda>a g. (Ok (ErrExternal ''address already in use''), g))\<rparr>,
      registry = (), metricsAt = metricsAddr DefaultMetricsConfig, worldMoves = (\<lambda>w w'. False)\<rparr>"

lemma sampleProcess_parts [simp]:
  "theReporter (sampleProcess r) = r" "bootRetries (sampleProcess r) = id"
  "worldMoves (sampleProcess r) = (\<lambda>w w'. False)"
  by (simp_all add: sampleProcess_def)

lemma sampleProcess_metrics:
  "metrics_start (metricsEnv (sampleProcess r)) (metricsAt (sampleProcess r)) (registry (sampleProcess r))
    = (Ok (ErrExternal ''address already in use''), ())"
  by (subst metrics_start_server) (simp_all add: sampleProcess_def)

lemma sampleProcess_signal:
  "process_reaches (sampleProcess r) (processOf s i) ((processOf s i)\<lparr>shutdown := ClientStops\<rparr>)"
  by (intro process_runs.reaches_one process_stepI process_move.signal) (simp_all add: processOf_def)

theorem program_keeps_invariant_witness:
  "\<exists>s i. main sampleProgram (lift (Ok ())) sampleParse (\<lambda>a. a) idleChan [''reporter''] ()
      = (Ok (ReporterRuns sampleCommandReporter s i), ())
    \<and> loop_inv sampleCommandReporter sampleHgt (eventLoop ((processOf s i)\<lparr>shutdown := ClientStops\<rparr>))"
proof -
  obtain s i where run: "main sampleProgram (lift (Ok ())) sampleParse (\<lambda>a. a) idleChan [''reporter''] ()
      = (Ok (ReporterRuns sampleCommandReporter s i), ())" using sampleProgram_runs by blast
  have "externals_lawful (commandEnv sampleProgram) (externalsOf sampleProgram) sampleHgt (\<lambda>w. False)"
    using sampleExternals_lawful by (simp add: sampleProgram_def)
  from program_keeps_invariant [OF run this sampleProcess_parts(1) _ sampleProcess_signal]
  have "loop_inv sampleCommandReporter sampleHgt (eventLoop ((processOf s i)\<lparr>shutdown := ClientStops\<rparr>))"
    by (simp add: sampleProgram_def sampleExternals_def)
  then show ?thesis using run by blast
qed

section \<open>What Lorenzo has accepted\<close>

text \<open>
  C3: whatever the reporter goes through (its catch-up, its bootstraps, block events, reorganisations,
  an interrupt, even a crash), all that it has ever made Lorenzo accept is a sequence of deliveries: each
  carries, in order and without a gap, headers of one chain of the Bitcoin node's blocks, from one that
  Lorenzo reported missing, in messages that are not empty and within \<^verbatim>\<open>MaxHeadersInMsg\<close>.
\<close>

theorem reporter_submits_only_chains:
  assumes "NewReporter n m d btc lorenzo retry hf mets (w, []) = (r, s0, l0)" and "observed r"
    and "client_lawful hf hgt btc" and "boot_retry_lawful R" and "schedules quit0 r catchUp"
    and "Start catchUp R r (l0, s0) = (Ok b, (l, s))"
    and "theReporter env = r" and "bootRetries env = R"
    and moves: "\<And>w w'. worldMoves env w w' \<Longrightarrow> snd w' = snd w"
    and "process_reaches env (processOf s i) p"
  shows "loop_all (\<lambda>t. deliveries r hgt (accepted t)) (eventLoop p)"
proof -
  note new = NewReporter_inv [OF assms(1)]
  have law: "client_lawful (headerFuns r) hgt (btcClient r)" using assms(3) new by simp
  have "accepted s0 = []" using assms(1) by (auto simp: NewReporter_def)
  then have "submits_inv r hgt s0" using new(1) deliveries_Nil by (simp add: submits_inv_def)
  then have "submits_inv r hgt s" using Start_submits [OF assms(4,2) law new(2) assms(5)] assms(6) by blast
  then have "loop_all (submits_inv (theReporter env) hgt) (eventLoop (processOf s i))"
    by (simp add: processOf_def assms(7))
  then have "loop_all (submits_inv (theReporter env) hgt) (eventLoop p)"
    by (intro process_submits [OF _ _ _ _ moves assms(10)]) (simp_all add: assms(7,8,2,4) law new(2))
  then show ?thesis by (cases "eventLoop p") (simp_all add: submits_inv_def assms(7))
qed

theorem reporter_submits_only_chains_witness:
  "\<exists>s i. Start (lift (Ok ())) id sampleBoot (\<lparr>quitClosed = False, started = False, handlers = 0\<rparr>, sampleNew)
      = (Ok True, (\<lparr>quitClosed = False, started = True, handlers = 1\<rparr>, s))
    \<and> loop_all (\<lambda>t. deliveries sampleBoot sampleHgt (accepted t))
        (eventLoop ((processOf s i)\<lparr>shutdown := ClientStops\<rparr>))"
proof -
  obtain s where run: "Start (lift (Ok ())) id sampleBoot (\<lparr>quitClosed = False, started = False, handlers = 0\<rparr>, sampleNew)
    = (Ok True, (\<lparr>quitClosed = False, started = True, handlers = 1\<rparr>, s))" using sampleBoot_starts by blast
  have "client_lawful sampleFuns sampleHgt (btcClient sampleBoot)"
    using sampleReporter_lawful [of False 3 1] by (simp add: sampleReporter_def)
  from reporter_submits_only_chains [OF sampleBoot_new sampleReporter_observed this boot_retry_once
      sampleBoot_schedules run sampleProcess_parts(1,2) _ sampleProcess_signal]
  have "loop_all (\<lambda>t. deliveries sampleBoot sampleHgt (accepted t)) (eventLoop ((processOf s i)\<lparr>shutdown := ClientStops\<rparr>))"
    for i by simp
  then show ?thesis using run by blast
qed

section \<open>How the process ends\<close>

lemma command_orderly:
  assumes "reporterCommand cenv ext allReturn ch file keyDir w = (Ok (r, s, i), w')"
    and "externals_lawful cenv ext hgt quit"
  shows "orderly env (processOf s i)"
  using reporterCommand_Ok(7) [OF assms] by (simp add: orderly_def processOf_def)

text \<open>
  C4: when the process of the reporter exits (that is, unless a panic ends it), it does so with status 0
  after an orderly shutdown (the RPC client shut down, the event channel closed, the reporter told to quit
  and its event handler returned), or with status 1, and then the metrics server returned, or a bootstrap
  that the event handler had to repeat gave up: its last attempt failed, and not because the reporter
  quits. The libraries are assumed not to exit by themselves.
\<close>

theorem process_exit_statuses:
  assumes "reporterCommand cenv ext allReturn ch file keyDir w = (Ok (r, s, i), w')"
    and "externals_lawful cenv ext hgt quit" and "externals_spare cenv ext"
    and "theReporter env = r" and "bootRetries env = bootRetry ext"
    and "process_reaches env (processOf s i) p" and "ended p = Some (Exit n)"
  shows "(n = 0 \<and> rpcDown (run p) \<and> isClosed (events (run p)) \<and> quitClosed (life (run p))
      \<and> (\<exists>t. eventLoop p = Returned t))
    \<or> (n = 1 \<and> (\<exists>e g. metrics_start (metricsEnv env) (metricsAt env) (registry env) = (Ok e, g)))
    \<or> (n = 1 \<and> (\<exists>b t err t'. fading b (btcClient r)
        \<and> bootRetry ext (bootstrap (r\<lparr>btcClient := b\<rparr>) True) t = (Err err, t') \<and> \<not> isCanceled err
        \<and> eventLoop p = Crashed (LogFatal (ErrWrapped ''Failed to bootstrap reporter'' err)) t'))"
proof -
  have "orderly env p"
    by (rule orderly_runs [OF assms(6) command_sparing [OF assms(1-5)] command_orderly [OF assms(1,2)]])
  then show ?thesis using assms(4,5,7) by (auto simp: orderly_def gaveUp_def)
qed

lemma sampleExternals_spare: "externals_spare sampleCommandEnv sampleExternals"
proof -
  have "sparing_node (sampleNode False 3)"
    by (simp add: sparing_node_def spares_def sampleNode_def Let_def)
  moreover have "sparing_lorenzo (sampleLorenzo 1)"
    by (simp add: sparing_lorenzo_def spares_def sampleLorenzo_def)
  ultimately show ?thesis
    by (auto simp: externals_spare_def sampleExternals_def sampleCommandEnv_def)
qed

text \<open>On the sample the metrics server fails at once and ends the process with status 1.\<close>

theorem process_exit_statuses_witness:
  "\<exists>s i. reporterCommand sampleCommandEnv sampleExternals (\<lambda>s. True) idleChan ''lrzrelayer.yml'' '''' ()
      = (Ok (sampleCommandReporter, s, i), ())
    \<and> process_reaches (sampleProcess sampleCommandReporter) (processOf s i) ((processOf s i)\<lparr>ended := Some (Exit 1)\<rparr>)
    \<and> (\<exists>e g. metrics_start (metricsEnv (sampleProcess sampleCommandReporter))
        (metricsAt (sampleProcess sampleCommandReporter)) () = (Ok e, g))"
proof -
  obtain s i where cmd: "reporterCommand sampleCommandEnv sampleExternals (\<lambda>s. True) idleChan ''lrzrelayer.yml'' '''' ()
      = (Ok (sampleCommandReporter, s, i), ())" using sampleProgram_runs by blast
  let ?p = "(processOf s i)\<lparr>ended := Some (Exit 1)\<rparr>"
  have r: "process_reaches (sampleProcess sampleCommandReporter) (processOf s i) ?p"
    by (intro process_runs.reaches_one process_stepI process_move.metrics_fails [OF sampleProcess_metrics])
      (simp add: processOf_def)
  have boot: "bootRetries (sampleProcess sampleCommandReporter) = bootRetry sampleExternals"
    by (simp add: sampleExternals_def)
  have "\<nexists>x t. eventLoop ?p = Crashed x t" by (simp add: processOf_def)
  then have "\<exists>e g. metrics_start (metricsEnv (sampleProcess sampleCommandReporter))
      (metricsAt (sampleProcess sampleCommandReporter)) (registry (sampleProcess sampleCommandReporter)) = (Ok e, g)"
    using process_exit_statuses [OF cmd sampleExternals_lawful sampleExternals_spare sampleProcess_parts(1) boot r, of 1]
    by auto
  then show ?thesis using cmd r by auto
qed

text \<open>
  C26: an interrupt stops the reporter in order. From the state in which the command waits there is a run
  that ends with status 0, in the state that the interrupt handlers compute when the event handler
  returns. And in no run does closing the event channel crash the event handler, which reads the height
  of the event it did not receive before it looks whether the channel is open: the channel is closed only
  after the RPC client was shut down and refuses its queries, so the handler polls until the reporter is
  told to quit. It crashes, if ever, in a turn that has an event to handle.
\<close>

theorem interrupt_stops_in_order:
  assumes "reporterCommand cenv ext (\<lambda>c. True) idleChan file keyDir w = (Ok (r, s, i), w')"
    and "externals_lawful cenv ext hgt quit"
  shows "(\<exists>p i'. process_reaches env (processOf s i) p \<and> ended p = Some (Exit 0)
      \<and> onInterrupt i = (Ok (), i') \<and> run p = program i')
    \<and> (process_reaches env (processOf s i) p \<longrightarrow> process_step env p p' \<longrightarrow> eventLoop p' = Crashed x t
      \<longrightarrow> waiting (events (run p)) \<noteq> [])"
proof
  note ok = reporterCommand_Ok(6,7) [OF assms]
  have "\<exists>p. process_reaches env (processOf s i) p \<and> ended p = Some (Exit 0) \<and> run p = stopped (program i)"
    using interrupt_stops [of "processOf s i" s env] ok(2) by (simp add: processOf_def)
  moreover have "\<exists>i'. onInterrupt i = (Ok (), i') \<and> program i' = stopped (program i)"
    by (rule onInterrupt_stops [OF ok(1)]) (simp add: ok(2))
  ultimately show "\<exists>p i'. process_reaches env (processOf s i) p \<and> ended p = Some (Exit 0)
      \<and> onInterrupt i = (Ok (), i') \<and> run p = program i'" by metis
  have "drained (processOf s i)" using ok(2) by (simp add: drained_def processOf_def)
  then show "process_reaches env (processOf s i) p \<longrightarrow> process_step env p p' \<longrightarrow> eventLoop p' = Crashed x t
      \<longrightarrow> waiting (events (run p)) \<noteq> []"
    using closed_channel_never_crashes by blast
qed

text \<open>
  On the sample, both halves: a run that ends with status 0, and a turn on the closed channel, at whose end
  the event handler has not crashed.
\<close>

theorem interrupt_stops_in_order_witness:
  "\<exists>s i p q q'. reporterCommand sampleCommandEnv sampleExternals (\<lambda>s. True) idleChan ''lrzrelayer.yml'' '''' ()
      = (Ok (sampleCommandReporter, s, i), ())
    \<and> process_reaches (sampleProcess sampleCommandReporter) (processOf s i) p \<and> ended p = Some (Exit 0)
    \<and> process_reaches (sampleProcess sampleCommandReporter) (processOf s i) q \<and> isClosed (events (run q))
    \<and> process_step (sampleProcess sampleCommandReporter) q q' \<and> (\<nexists>x t. eventLoop q' = Crashed x t)"
proof -
  obtain s i where cmd: "reporterCommand sampleCommandEnv sampleExternals (\<lambda>s. True) idleChan ''lrzrelayer.yml'' '''' ()
      = (Ok (sampleCommandReporter, s, i), ())" using sampleProgram_runs by blast
  note ok = reporterCommand_Ok(7) [OF cmd sampleExternals_lawful]
    and stops = interrupt_stops_in_order [OF cmd sampleExternals_lawful]
  let ?env = "sampleProcess sampleCommandReporter"
  have "\<exists>q q'. process_reaches ?env (processOf s i) q \<and> waiting (events (run q)) = [] \<and> isClosed (events (run q))
      \<and> process_step ?env q q' \<and> eventLoop q = Waiting s \<and> eventLoop q' = Returned s"
    using ok by (intro closed_channel_turn) (simp_all add: processOf_def)
  then obtain q q' where q: "process_reaches ?env (processOf s i) q" "waiting (events (run q)) = []"
      "isClosed (events (run q))" "process_step ?env q q'" by blast
  then have "\<nexists>x t. eventLoop q' = Crashed x t" using stops by blast
  moreover obtain p where "process_reaches ?env (processOf s i) p" "ended p = Some (Exit 0)" using stops by blast
  ultimately show ?thesis using cmd q by blast
qed

end
