(* ===== verification/Bnb_Catch_Up.thy ===== *)
theory Bnb_Catch_Up
  imports Bnb_Reporter Step_Runs
begin

text \<open>
  Catching up with a BNB chain far ahead of Lorenzo (\<^verbatim>\<open>WaitLorenzoCatchUp\<close> in
  \<^verbatim>\<open>bnbreporter/bootstrap.go\<close>): a goroutine fetches ranges of headers, sends them on a channel of
  capacity 10 and closes it when it ends; the caller receives and uploads them. The two run
  concurrently, so the function is a step relation. Unlike the Bitcoin catch-up there is one
  channel only, and the caller ends on the channel being closed and drained.
\<close>

section \<open>The function's own part\<close>

text \<open>\<open>Inl\<close> is an immediate return, \<open>Inr\<close> the number to catch up to.\<close>

definition startLorenzoCatchUp :: "'w bnb_reporter \<Rightarrow> ('w bnb_state, unit + u64) action" where
  "startLorenzoCatchUp r =
     andThen (ask (LatestHeader (bnbClient r))) (\<lambda>bnbTip.
     andThen tipNumber (\<lambda>t.
     andThen (lift (numberOf bnbTip)) (\<lambda>b.
     if t + bnbDelayBlocks r \<ge> b then lift (Ok (Inl ()))
     else lift (Ok (Inr (b - bnbDelayBlocks r))))))"

section \<open>The two goroutines\<close>

text \<open>
  The fetching goroutine is at the head of its loop, about to send the batch it fetched from
  \<open>i\<close> on, or gone, with the channel closed. The caller polls the quit channel and then receives
  (\<open>receiving\<close>), until \<open>outcomeOf\<close> is set.
\<close>

datatype bnb_fetcher = FetchAt u64 | SendFrom u64 "bnb_header list" | Finished

record 'w bnb_catchup =
  bnbFetcher :: bnb_fetcher
  batchHeaderCh :: "bnb_header list list"
  chClosed :: bool
  receiving :: bool
  outcomeOf :: "unit outcome option"
  bnbRep :: "'w bnb_state"

definition batchChCapacity :: nat where "batchChCapacity = 10"

definition batchEnd :: "u64 \<Rightarrow> u64 \<Rightarrow> u64" where
  "batchEnd catchUpToNumber i =
     (let stop = i + FetchBNBHeaderBatchSize - 1 in
      if stop > catchUpToNumber then catchUpToNumber else stop)"

text \<open>What the caller does with a batch; an error of the handler panics.\<close>

definition takeHeaders :: "'w bnb_reporter \<Rightarrow> bnb_header list \<Rightarrow> 'w bnb_catchup \<Rightarrow> 'w bnb_catchup" where
  "takeHeaders r headers k =
     (case handleHeaders r headers (bnbRep k) of
        (Ok _, s) \<Rightarrow> k\<lparr>bnbRep := s, receiving := False\<rparr>
      | (Err e, s) \<Rightarrow> k\<lparr>bnbRep := s, outcomeOf := Some (Panic (PanicErr e))\<rparr>
      | (e, s) \<Rightarrow> k\<lparr>bnbRep := s, outcomeOf := Some (reraise e)\<rparr>)"

inductive bnb_catchup_step ::
  "('w \<Rightarrow> bool) \<Rightarrow> 'w bnb_reporter \<Rightarrow> u64 \<Rightarrow> 'w bnb_catchup \<Rightarrow> 'w bnb_catchup \<Rightarrow> bool"
  for quit r target where
  fetch: "bnbFetcher k = FetchAt i \<Longrightarrow> i \<le> target \<Longrightarrow> \<not> quit (bnbOutside (bnbRep k)) \<Longrightarrow>
    ask (RangeHeaders (bnbClient r) i (batchEnd target i)) (bnbRep k) = (Ok headers, s) \<Longrightarrow>
    bnb_catchup_step quit r target k (k\<lparr>bnbFetcher := SendFrom i headers, bnbRep := s\<rparr>)"
| fetch_error: "bnbFetcher k = FetchAt i \<Longrightarrow> i \<le> target \<Longrightarrow> \<not> quit (bnbOutside (bnbRep k)) \<Longrightarrow>
    ask (RangeHeaders (bnbClient r) i (batchEnd target i)) (bnbRep k) = (Err e, s) \<Longrightarrow>
    bnb_catchup_step quit r target k (k\<lparr>bnbFetcher := Finished, chClosed := True, bnbRep := s\<rparr>)"
| fetch_panic: "bnbFetcher k = FetchAt i \<Longrightarrow> i \<le> target \<Longrightarrow> \<not> quit (bnbOutside (bnbRep k)) \<Longrightarrow>
    ask (RangeHeaders (bnbClient r) i (batchEnd target i)) (bnbRep k) = (Panic p, s) \<Longrightarrow>
    bnb_catchup_step quit r target k (k\<lparr>outcomeOf := Some (Panic p), bnbRep := s\<rparr>)"
| send: "bnbFetcher k = SendFrom i headers \<Longrightarrow> length (batchHeaderCh k) < batchChCapacity \<Longrightarrow>
    bnb_catchup_step quit r target k
      (k\<lparr>bnbFetcher := FetchAt (i + FetchBNBHeaderBatchSize), batchHeaderCh := batchHeaderCh k @ [headers]\<rparr>)"
| fetched: "bnbFetcher k = FetchAt i \<Longrightarrow> \<not> i \<le> target \<Longrightarrow>
    bnb_catchup_step quit r target k (k\<lparr>bnbFetcher := Finished, chClosed := True\<rparr>)"
| fetch_quit: "bnbFetcher k = FetchAt i \<Longrightarrow> i \<le> target \<Longrightarrow> quit (bnbOutside (bnbRep k)) \<Longrightarrow>
    bnb_catchup_step quit r target k (k\<lparr>bnbFetcher := Finished, chClosed := True\<rparr>)"
| poll_quit: "outcomeOf k = None \<Longrightarrow> \<not> receiving k \<Longrightarrow> quit (bnbOutside (bnbRep k)) \<Longrightarrow>
    bnb_catchup_step quit r target k (k\<lparr>outcomeOf := Some (Ok ())\<rparr>)"
| poll: "outcomeOf k = None \<Longrightarrow> \<not> receiving k \<Longrightarrow> \<not> quit (bnbOutside (bnbRep k)) \<Longrightarrow>
    bnb_catchup_step quit r target k (k\<lparr>receiving := True\<rparr>)"
| receive: "outcomeOf k = None \<Longrightarrow> receiving k \<Longrightarrow> batchHeaderCh k = headers # rest \<Longrightarrow>
    bnb_catchup_step quit r target k (takeHeaders r headers (k\<lparr>batchHeaderCh := rest\<rparr>))"
| drained: "outcomeOf k = None \<Longrightarrow> receiving k \<Longrightarrow> batchHeaderCh k = [] \<Longrightarrow> chClosed k \<Longrightarrow>
    bnb_catchup_step quit r target k (k\<lparr>outcomeOf := Some (Ok ())\<rparr>)"

inductive bnb_catchup_reaches ::
  "('w \<Rightarrow> bool) \<Rightarrow> 'w bnb_reporter \<Rightarrow> u64 \<Rightarrow> 'w bnb_catchup \<Rightarrow> 'w bnb_catchup \<Rightarrow> bool"
  for quit r target k where
  here: "bnb_catchup_reaches quit r target k k"
| step: "bnb_catchup_reaches quit r target k k1 \<Longrightarrow> bnb_catchup_step quit r target k1 k2 \<Longrightarrow>
    bnb_catchup_reaches quit r target k k2"

interpretation bnb_runs: stepping "bnb_catchup_step quit r target" "bnb_catchup_reaches quit r target"
  for quit r target
proof
  show "bnb_catchup_reaches quit r target s s" for s :: "'a bnb_catchup" by (rule bnb_catchup_reaches.here)
  show "bnb_catchup_reaches quit r target s u"
    if "bnb_catchup_reaches quit r target s t" "bnb_catchup_step quit r target t u" for s t u :: "'a bnb_catchup"
    using that by (rule bnb_catchup_reaches.step)
  show "P t" if "bnb_catchup_reaches quit r target s t" "P s"
    "\<And>t u. P t \<Longrightarrow> bnb_catchup_step quit r target t u \<Longrightarrow> P u" for s t :: "'a bnb_catchup" and P
    using that by induction auto
qed

text \<open>The first state, with the tip \<open>t\<close> read by the goroutine.\<close>

definition bnbCatchupStart :: "u64 \<Rightarrow> 'w bnb_state \<Rightarrow> 'w bnb_catchup" where
  "bnbCatchupStart t s =
     \<lparr>bnbFetcher = FetchAt (t + 1), batchHeaderCh = [], chClosed = False, receiving = False,
      outcomeOf = None, bnbRep = s\<rparr>"

section \<open>Nothing is skipped\<close>

lemma batchEnd_bounds:
  assumes "i \<le> target" and room: "unat target + 100 < 2 ^ 64"
  shows "i \<le> batchEnd target i" and "unat (batchEnd target i) = min (unat i + 99) (unat target)"
    and "unat (i + FetchBNBHeaderBatchSize) = unat i + 100"
proof -
  have i: "unat i \<le> unat target" using assms(1) by (simp add: word_le_nat_alt)
  have 100: "unat (i + 100) = unat i + 100"
    using i room by (subst unat_add_lem [THEN iffD1]) simp_all
  then show "unat (i + FetchBNBHeaderBatchSize) = unat i + 100"
    by (simp add: FetchBNBHeaderBatchSize_def)
  have "i + 100 - 1 = 99 + i" by simp
  moreover have "unat (99 + i) = unat i + 99"
    using i room by (subst unat_add_lem [THEN iffD1]) simp_all
  ultimately show e: "unat (batchEnd target i) = min (unat i + 99) (unat target)"
    by (simp add: batchEnd_def FetchBNBHeaderBatchSize_def Let_def word_less_nat_alt min_def)
  then show "i \<le> batchEnd target i" using i by (simp add: word_le_nat_alt)
qed

text \<open>
  \<open>continues r t s0 s n\<close>: since \<open>s0\<close> the uploads, each of one batch, continue the chain at \<open>t\<close> without
  a gap, and the last header uploaded, of number \<open>n\<close>, is the tip.
\<close>

definition continues ::
  "('w \<times> msg_upload_headers list) bnb_reporter \<Rightarrow> bnb_header \<Rightarrow> ('w \<times> msg_upload_headers list) bnb_state
    \<Rightarrow> ('w \<times> msg_upload_headers list) bnb_state \<Rightarrow> nat \<Rightarrow> bool" where
  "continues r t s0 s n \<longleftrightarrow> (\<exists>hss msgs. uploaded s = uploaded s0 @ msgs
     \<and> list_all2 (\<lambda>hs m. upload r hs [m]) hss msgs
     \<and> successively (bnb_linked (bnbLib r)) (t # concat hss)
     \<and> lorenzoTip s = Some (last (t # concat hss)) \<and> Number (last (t # concat hss)) = Some (int n))"

definition batch :: "rlp_lib \<Rightarrow> bnb_header list \<Rightarrow> bool" where
  "batch lib hs \<longleftrightarrow> hs \<noteq> [] \<and> successively (bnb_linked lib) hs
     \<and> (\<exists>k. Number (hd hs) = Some k \<and> 0 \<le> k \<and> k < 2 ^ 64)"

lemma batch_last:
  assumes "batch lib hs" and "Number (hd hs) = Some k"
  shows "Number (last hs) = Some (k + int (length hs) - 1)"
  using assms bnb_linked_nth [of lib hs "length hs - 1" k]
  by (auto simp: batch_def last_conv_nth of_nat_diff Suc_le_eq)

lemma continues_same:
  "continues r t s0 s n \<Longrightarrow> uploaded s' = uploaded s \<Longrightarrow> lorenzoTip s' = lorenzoTip s \<Longrightarrow> continues r t s0 s' n"
  by (simp add: continues_def)

lemma handleHeaders_continues:
  assumes obs: "bnb_observed r" and hs: "batch (bnbLib r) hs"
    and cont: "continues r t s0 s n" and room: "n + 1 < 2 ^ 64"
    and run: "handleHeaders r hs s = (out, s')"
  shows "if out = Ok () then continues r t s0 s' (n + length hs) else continues r t s0 s' n"
proof -
  from cont obtain hss msgs where c: "uploaded s = uploaded s0 @ msgs"
    "list_all2 (\<lambda>hs m. upload r hs [m]) hss msgs"
    "successively (bnb_linked (bnbLib r)) (t # concat hss)"
    "lorenzoTip s = Some (last (t # concat hss))" "Number (last (t # concat hss)) = Some (int n)"
    by (auto simp only: continues_def)
  have ne: "hs \<noteq> []" using hs by (simp add: batch_def)
  show ?thesis
  proof (cases "out = Ok ()")
    case False
    with handleHeaders_log [OF obs run c(4) ne] show ?thesis
      using continues_same [OF cont] by auto
  next
    case True
    with handleHeaders_log [OF obs run c(4) ne] obtain sent m where
      tip: "lorenzoTip s' = Some (last hs)" and sent: "uploaded s' = uploaded s @ sent" "sent \<noteq> []" "upload r hs sent"
      and m: "numberOf (last (t # concat hss)) = Ok m" "numberOf (hd hs) = Ok (m + 1)"
      and parent: "ParentHash (hd hs) = HeaderHash (bnbLib r) (last (t # concat hss))" by auto
    obtain msg where msg: "sent = [msg]" "upload r hs [msg]"
      using sent(2,3) by (auto simp: upload_def)
    obtain k where k: "Number (hd hs) = Some k" "0 \<le> k" "k < 2 ^ 64" using hs by (auto simp: batch_def)
    have "m = Uint64 (int n)" using m(1) c(5) by (simp add: numberOf_def)
    moreover have "m + 1 = Uint64 k" using m(2) k(1) by (simp add: numberOf_def)
    ultimately have "unat (Uint64 k) = unat (Uint64 (int n) + 1)" by simp
    also have "\<dots> = n + 1"
      using room unat_Uint64 [of "int n"] by (subst unat_plus1_u64) simp_all
    finally have kn: "k = int n + 1" using unat_Uint64 [OF k(2,3)] k(2) by simp
    then have link: "bnb_linked (bnbLib r) (last (t # concat hss)) (hd hs)"
      using parent c(5) k(1) by (simp add: bnb_linked_def)
    have succ: "successively (bnb_linked (bnbLib r)) (t # concat (hss @ [hs]))"
      using c(3) hs link ne successively_append_iff [of "bnb_linked (bnbLib r)" "t # concat hss" hs]
      by (simp add: batch_def)
    have "last (t # concat (hss @ [hs])) = last hs" using ne by simp
    moreover have "Number (last hs) = Some (int (n + length hs))"
      using batch_last [OF hs k(1)] kn by simp
    moreover have "list_all2 (\<lambda>hs m. upload r hs [m]) (hss @ [hs]) (msgs @ [msg])"
      using c(2) msg(2) by (simp add: list_all2_appendI)
    ultimately have "continues r t s0 s' (n + length hs)"
      unfolding continues_def using tip sent(1) msg(1) c(1) succ
      by (intro exI [of _ "hss @ [hs]"] exI [of _ "msgs @ [msg]"]) simp
    then show ?thesis using True by simp
  qed
qed

text \<open>
  How far the goroutine is, as long as the caller goes on: the tip, the headers in the channel
  and the next number to fetch follow each other. \<open>full\<close> says that no quit and no failed fetch
  has to be expected, so that the goroutine ends only at the target.
\<close>

definition fetching :: "rlp_lib \<Rightarrow> bool \<Rightarrow> u64 \<Rightarrow> nat \<Rightarrow> 'w bnb_catchup \<Rightarrow> bool" where
  "fetching lib full target n k \<longleftrightarrow>
     (let m = n + length (concat (batchHeaderCh k)) in
      (\<forall>hs \<in> set (batchHeaderCh k). batch lib hs)
      \<and> (case bnbFetcher k of
           FetchAt i \<Rightarrow> \<not> chClosed k \<and> min (unat i) (unat target + 1) = m + 1
         | SendFrom i hs \<Rightarrow> \<not> chClosed k \<and> batch lib hs \<and> i \<le> target \<and> unat i = m + 1
             \<and> length hs = min 100 (unat target + 1 - unat i)
         | Finished \<Rightarrow> chClosed k \<and> m \<le> unat target \<and> (full \<longrightarrow> m = unat target)))"

definition catching ::
  "('w \<times> msg_upload_headers list) bnb_reporter \<Rightarrow> bnb_header \<Rightarrow> ('w \<times> msg_upload_headers list) bnb_state
    \<Rightarrow> bool \<Rightarrow> u64 \<Rightarrow> ('w \<times> msg_upload_headers list) bnb_catchup \<Rightarrow> bool" where
  "catching r t s0 full target k \<longleftrightarrow> (\<exists>n. continues r t s0 (bnbRep k) n \<and> n \<le> unat target
     \<and> (case outcomeOf k of
          None \<Rightarrow> fetching (bnbLib r) full target n k
        | Some out \<Rightarrow> full \<and> out = Ok () \<longrightarrow> n = unat target))"

lemma fetching_le: "fetching lib full target n k \<Longrightarrow> n + length (concat (batchHeaderCh k)) \<le> unat target"
  by (auto simp: fetching_def Let_def word_le_nat_alt split: bnb_fetcher.splits)

lemma catchingI:
  "continues r t s0 (bnbRep k) n \<Longrightarrow> n \<le> unat target \<Longrightarrow>
    (outcomeOf k = None \<Longrightarrow> fetching (bnbLib r) full target n k) \<Longrightarrow>
    (\<And>out. outcomeOf k = Some out \<Longrightarrow> full \<Longrightarrow> out = Ok () \<Longrightarrow> n = unat target) \<Longrightarrow>
    catching r t s0 full target k"
  unfolding catching_def by (auto split: option.split)

lemma catchingE:
  assumes "catching r t s0 full target k"
  obtains n where "continues r t s0 (bnbRep k) n" and "n \<le> unat target"
    and "outcomeOf k = None \<Longrightarrow> fetching (bnbLib r) full target n k"
    and "\<And>out. outcomeOf k = Some out \<Longrightarrow> full \<Longrightarrow> out = Ok () \<Longrightarrow> n = unat target"
  using assms unfolding catching_def by (auto split: option.splits)

lemma ask_continues:
  assumes "bnb_observed r" and "ask (RangeHeaders (bnbClient r) a b) s = (x, s')"
    and "continues r t s0 s n"
  shows "continues r t s0 s' n"
  using continues_same [OF assms(3)] quiet_ask(2) [OF assms(1,2)] lorenzoTip_ask [OF assms(2)] by blast

lemma fetched_batch:
  assumes client: "bnb_client_lawful (bnbLib r) (bnbClient r)" and i: "i \<le> target"
    and room: "unat target + 100 < 2 ^ 64"
    and ask: "ask (RangeHeaders (bnbClient r) i (batchEnd target i)) s = (Ok hs, s')"
  shows "batch (bnbLib r) hs" and "length hs = min 100 (unat target + 1 - unat i)"
proof -
  note e = batchEnd_bounds [OF i room]
  obtain w where "RangeHeaders (bnbClient r) i (batchEnd target i) (bnbOutside s) = (Ok hs, w)"
    using ask_OkD [OF ask] by blast
  then have hs: "length hs = unat (batchEnd target i) - unat i + 1" "successively (bnb_linked (bnbLib r)) hs"
    "Number (hd hs) = Some (uint i)"
    using client unfolding bnb_client_lawful_def by blast+
  then show "batch (bnbLib r) hs" using uint_lt2p [of i] by (auto simp: batch_def)
  show "length hs = min 100 (unat target + 1 - unat i)"
    using hs(1) e(2) i unfolding word_le_nat_alt by arith
qed

text \<open>
  A step that keeps what the caller has and the fetcher's account keeps the invariant, and so does one
  that gives the caller its result.
\<close>

lemma catching_moves:
  assumes "catching r t s0 full target k" and "outcomeOf k' = outcomeOf k"
    and "\<And>n. continues r t s0 (bnbRep k) n \<Longrightarrow> continues r t s0 (bnbRep k') n"
    and "\<And>n. fetching (bnbLib r) full target n k \<Longrightarrow> fetching (bnbLib r) full target n k'"
  shows "catching r t s0 full target k'"
  using assms unfolding catching_def by (auto split: option.splits)

lemma catching_ends:
  assumes inv: "catching r t s0 full target k" and "outcomeOf k' = Some out"
    and "\<And>n. continues r t s0 (bnbRep k) n \<Longrightarrow> continues r t s0 (bnbRep k') n"
    and "\<And>n. full \<Longrightarrow> out = Ok () \<Longrightarrow> outcomeOf k = None \<and> (fetching (bnbLib r) full target n k \<longrightarrow> n = unat target)"
  shows "catching r t s0 full target k'"
proof -
  obtain n where "continues r t s0 (bnbRep k) n" and "n \<le> unat target"
    and "outcomeOf k = None \<Longrightarrow> fetching (bnbLib r) full target n k"
    using catchingE [OF inv] by metis
  then show ?thesis using assms(2-4) by (intro catchingI [of _ _ _ _ n]) auto
qed

lemmas fetching_account = fetching_def Let_def word_le_nat_alt min_def

lemma send_fetching:
  assumes "fetching lib full target n k" and "bnbFetcher k = SendFrom i headers" and "unat target + 100 < 2 ^ 64"
  shows "fetching lib full target n
    (k\<lparr>bnbFetcher := FetchAt (i + FetchBNBHeaderBatchSize), batchHeaderCh := batchHeaderCh k @ [headers]\<rparr>)"
proof -
  have "i \<le> target" using assms(1,2) by (simp add: fetching_def Let_def)
  then show ?thesis
    using assms(1,2) batchEnd_bounds(3) [OF _ assms(3), of i]
    by (auto simp: fetching_account split: if_splits)
qed

lemma takeHeaders_catching:
  assumes obs: "bnb_observed r" and room: "unat target + 100 < 2 ^ 64"
    and inv: "catching r t s0 full target k" and k: "outcomeOf k = None" "batchHeaderCh k = headers # rest"
  shows "catching r t s0 full target (takeHeaders r headers (k\<lparr>batchHeaderCh := rest\<rparr>))"
proof -
  let ?k' = "takeHeaders r headers (k\<lparr>batchHeaderCh := rest\<rparr>)"
  obtain n where n: "continues r t s0 (bnbRep k) n" "n \<le> unat target" and f: "fetching (bnbLib r) full target n k"
    using catchingE [OF inv] k(1) by metis
  then have b: "batch (bnbLib r) headers" using k(2) by (simp add: fetching_def Let_def)
  obtain out s' where run: "handleHeaders r headers (bnbRep k) = (out, s')" by (metis surj_pair)
  have "n + 1 < 2 ^ 64" using n(2) room by simp
  note cont = handleHeaders_continues [OF obs b n(1) this run]
  show ?thesis
  proof (cases "out = Ok ()")
    case True
    then have k': "?k' = k\<lparr>batchHeaderCh := rest, bnbRep := s', receiving := False\<rparr>"
      using run by (simp add: takeHeaders_def)
    have "n + length headers \<le> unat target" using fetching_le [OF f] k(2) by simp
    moreover have "fetching (bnbLib r) full target (n + length headers) ?k'"
      using f k(2) unfolding k' by (auto simp: fetching_def Let_def split: bnb_fetcher.splits)
    ultimately show ?thesis
      using cont True k(1) by (intro catchingI [of _ _ _ _ "n + length headers"]) (auto simp: k')
  next
    case False
    then have "bnbRep ?k' = s'" "\<exists>o'. outcomeOf ?k' = Some o' \<and> o' \<noteq> Ok ()"
      using run by (cases out; simp add: takeHeaders_def)+
    then show ?thesis using cont False n(2) by (intro catchingI [of _ _ _ _ n]) auto
  qed
qed

lemma bnb_catchup_step_catching:
  assumes obs: "bnb_observed r" and client: "bnb_client_lawful (bnbLib r) (bnbClient r)"
    and room: "unat target + 100 < 2 ^ 64"
    and step: "bnb_catchup_step quit r target k k'" and inv: "catching r t s0 full target k"
    and full: "full \<Longrightarrow> \<not> quit (bnbOutside (bnbRep k))"
      "\<And>i j w e w'. full \<Longrightarrow> i \<le> j \<Longrightarrow> j \<le> target \<Longrightarrow> RangeHeaders (bnbClient r) i j w \<noteq> (Err e, w')"
  shows "catching r t s0 full target k'"
  using step
proof cases
  case (fetch i headers s)
  show ?thesis
    by (rule catching_moves [OF inv])
      (use fetch ask_continues [OF obs fetch(5)] fetched_batch [OF client fetch(3) room fetch(5)] in
        \<open>auto simp: fetching_account split: if_splits\<close>)
next
  case (fetch_error i e s)
  have "batchEnd target i \<le> target"
    using batchEnd_bounds(2) [OF fetch_error(3) room] by (simp add: word_le_nat_alt)
  then have "\<not> full"
    using full(2) ask_OkD [OF fetch_error(5)] batchEnd_bounds(1) [OF fetch_error(3) room] by blast
  then show ?thesis
    by (intro catching_moves [OF inv])
      (use fetch_error ask_continues [OF obs fetch_error(5)] in \<open>auto simp: fetching_account split: if_splits\<close>)
next
  case (fetch_panic i p s)
  show ?thesis
    by (rule catching_ends [OF inv]) (use fetch_panic(1) ask_continues [OF obs fetch_panic(5)] in auto)
next
  case (send i headers)
  show ?thesis by (rule catching_moves [OF inv]) (use send send_fetching [OF _ send(2) room] in auto)
next
  case (fetched i)
  show ?thesis
    by (rule catching_moves [OF inv]) (use fetched in \<open>auto simp: fetching_account split: if_splits\<close>)
next
  case (fetch_quit i)
  then have "\<not> full" using full(1) by blast
  then show ?thesis
    by (intro catching_moves [OF inv]) (use fetch_quit in \<open>auto simp: fetching_account split: if_splits\<close>)
next
  case poll_quit
  then have "\<not> full" using full(1) by blast
  then show ?thesis by (intro catching_ends [OF inv]) (use poll_quit(1) in auto)
next
  case poll
  show ?thesis
    by (rule catching_moves [OF inv])
      (use poll in \<open>auto simp: fetching_def cong: bnb_fetcher.case_cong split: bnb_fetcher.splits\<close>)
next
  case (receive headers rest)
  then show ?thesis using takeHeaders_catching [OF obs room inv receive(2,4)] by simp
next
  case drained
  show ?thesis
    by (rule catching_ends [OF inv])
      (use drained in \<open>auto simp: fetching_def Let_def split: bnb_fetcher.splits\<close>)
qed

lemma bnb_catchup_reaches_catching:
  assumes "bnb_catchup_reaches quit r target k k'" and "catching r t s0 full target k"
    and "bnb_observed r" and "bnb_client_lawful (bnbLib r) (bnbClient r)" and "unat target + 100 < 2 ^ 64"
    and "\<And>w. full \<Longrightarrow> \<not> quit w" and "\<And>i j w e w'. full \<Longrightarrow> i \<le> j \<Longrightarrow> j \<le> target \<Longrightarrow> RangeHeaders (bnbClient r) i j w \<noteq> (Err e, w')"
  shows "catching r t s0 full target k'"
proof (rule bnb_runs.keeps [where I = "catching r t s0 full target", OF assms(1)])
  fix k1 k2 assume "catching r t s0 full target k1" and "bnb_catchup_step quit r target k1 k2"
  from bnb_catchup_step_catching [OF assms(3-5) this(2,1)] show "catching r t s0 full target k2"
    using assms(6,7) by blast
qed (rule assms(2))

lemma bnbCatchupStart_catching:
  assumes "lorenzoTip s = Some t" and "Number t = Some (int n)" and n: "n \<le> unat target"
    and room: "unat target + 100 < 2 ^ 64"
  shows "catching r t s full target (bnbCatchupStart (Uint64 (int n)) s)"
proof (rule catchingI [of _ _ _ _ n])
  show "continues r t s (bnbRep (bnbCatchupStart (Uint64 (int n)) s)) n"
    using assms(1,2) unfolding continues_def
    by (intro exI [of _ "[]"]) (simp add: bnbCatchupStart_def)
  have "unat (Uint64 (int n) + 1) = n + 1"
    using n room unat_Uint64 [of "int n"] by (subst unat_plus1_u64) simp_all
  then show "fetching (bnbLib r) full target n (bnbCatchupStart (Uint64 (int n)) s)"
    using n by (simp add: fetching_def bnbCatchupStart_def)
qed (use n in \<open>simp_all add: bnbCatchupStart_def\<close>)

end
