(* ===== verification/Bnb_Encoding.thy ===== *)
theory Bnb_Encoding
  imports Bnb_Types
begin

text \<open>
  What the two encodings of a BNB header keep of it: RLP, of which the block hash is made, and JSON.
  The encoders themselves are go-ethereum's; what they are documented to do is \<open>rlp_lawful\<close> and
  \<open>json_lawful\<close>.
\<close>

section \<open>Integers as byte strings\<close>

definition bytesValue :: "bytes \<Rightarrow> nat" where
  "bytesValue bs = foldl (\<lambda>v b. 256 * v + unat b) 0 bs"

text \<open>The \<open>n\<close> low bytes of a number, and all of its bytes from the first that is not zero.\<close>

primrec bigEndian :: "nat \<Rightarrow> nat \<Rightarrow> bytes" where
  "bigEndian 0 x = []"
| "bigEndian (Suc n) x = bigEndian n (x div 256) @ [of_nat x]"

fun shortest :: "nat \<Rightarrow> bytes" where
  "shortest x = (if x = 0 then [] else shortest (x div 256) @ [of_nat x])"

declare shortest.simps [simp del]

lemma bytesValue_snoc: "bytesValue (bs @ [b]) = 256 * bytesValue bs + unat b"
  by (simp add: bytesValue_def)

lemma unat_byte: "unat (of_nat x :: 8 word) = x mod 256"
  by (simp add: unat_of_nat)

lemma bytesValue_bigEndian: "bytesValue (bigEndian n x) = x mod 256 ^ n"
  by (induction n arbitrary: x)
    (simp_all add: bytesValue_snoc unat_byte mod_mult2_eq bytesValue_def [of "[]"])

lemma bytesValue_shortest: "bytesValue (shortest x) = x"
proof (induction x rule: shortest.induct)
  case (1 x)
  then show ?case
    by (subst shortest.simps) (simp add: bytesValue_snoc unat_byte bytesValue_def [of "[]"])
qed

lemma length_bigEndian [simp]: "length (bigEndian n x) = n"
  by (induction n arbitrary: x) simp_all

lemma shortest_eq_iff: "shortest x = shortest y \<longleftrightarrow> x = y"
  by (metis bytesValue_shortest)

lemma bigEndian_eq_iff: "x < 256 ^ n \<Longrightarrow> y < 256 ^ n \<Longrightarrow> bigEndian n x = bigEndian n y \<longleftrightarrow> x = y"
  by (metis bytesValue_bigEndian mod_less)

text \<open>The fixed-size arrays.\<close>

lemma bigEndian_words:
  "bigEndian 32 (unat g) = bigEndian 32 (unat h) \<longleftrightarrow> g = h"
  "bigEndian 20 (unat a) = bigEndian 20 (unat b) \<longleftrightarrow> a = b"
  "bigEndian 8 (unat m) = bigEndian 8 (unat n) \<longleftrightarrow> m = n"
  for g h :: hash and a b :: address and m n :: u64
proof -
  have "unat x < 256 ^ 32" for x :: hash using unsigned_less [of x, where ?'a = nat] by simp
  then show "bigEndian 32 (unat g) = bigEndian 32 (unat h) \<longleftrightarrow> g = h"
    using bigEndian_eq_iff [of "unat g" 32 "unat h"] by (simp add: word_unat_eq_iff)
  have "unat x < 256 ^ 20" for x :: address using unsigned_less [of x, where ?'a = nat] by simp
  then show "bigEndian 20 (unat a) = bigEndian 20 (unat b) \<longleftrightarrow> a = b"
    using bigEndian_eq_iff [of "unat a" 20 "unat b"] by (simp add: word_unat_eq_iff)
  have "unat x < 256 ^ 8" for x :: u64 using unsigned_less [of x, where ?'a = nat] by simp
  then show "bigEndian 8 (unat m) = bigEndian 8 (unat n) \<longleftrightarrow> m = n"
    using bigEndian_eq_iff [of "unat m" 8 "unat n"] by (simp add: word_unat_eq_iff)
qed

section \<open>RLP\<close>

text \<open>
  The byte string of a write: an array's bytes; of an integer its bytes without leading zeros, so that
  zero is the empty string. RLP's code of a list of strings can be decoded, so two lists of writes have
  the same bytes exactly when they are the same strings.
\<close>

fun rlpString :: "rlp_write \<Rightarrow> bytes" where
  "rlpString (WriteHash h) = bigEndian 32 (unat h)"
| "rlpString (WriteAddress a) = bigEndian 20 (unat a)"
| "rlpString (WriteBytes bs) = bs"
| "rlpString (WriteBigInt n) = shortest (nat n)"
| "rlpString (WriteUint64 n) = shortest (unat n)"
| "rlpString (WriteNonce n) = bigEndian 8 (unat n)"
| "rlpString WriteEmptyString = []"

definition rlp_lawful :: "rlp_lib \<Rightarrow> bool" where
  "rlp_lawful lib \<longleftrightarrow>
     (\<forall>vs ws. rlp_flush lib vs = rlp_flush lib ws \<longleftrightarrow> map rlpString vs = map rlpString ws)"

text \<open>
  What RLP keeps of a header: a nil big integer reads as zero, and so does an absent optional number
  before an optional field that is there. \<open>optionals h\<close> is the number of optional fields written.
\<close>

definition orZero :: "'a option \<Rightarrow> 'a::zero" where
  "orZero x = (case x of None \<Rightarrow> 0 | Some v \<Rightarrow> v)"

lemma orZero_simps [simp]: "orZero None = 0" "orZero (Some v) = v"
  by (simp_all add: orZero_def)

definition optionals :: "bnb_header \<Rightarrow> nat" where
  "optionals h = (if ParentBeaconRoot h \<noteq> None then 5 else if ExcessBlobGas h \<noteq> None then 4
     else if BlobGasUsed h \<noteq> None then 3 else if WithdrawalsHash h \<noteq> None then 2
     else if BaseFee h \<noteq> None then 1 else 0)"

definition rlpView :: "bnb_header \<Rightarrow> bnb_header" where
  "rlpView h = h\<lparr>Difficulty := Some (orZero (Difficulty h)), Number := Some (orZero (Number h)),
     BaseFee := (if 0 < optionals h then Some (orZero (BaseFee h)) else None),
     BlobGasUsed := (if 2 < optionals h then Some (orZero (BlobGasUsed h)) else None),
     ExcessBlobGas := (if 3 < optionals h then Some (orZero (ExcessBlobGas h)) else None)\<rparr>"

text \<open>A header whose big integers RLP can encode.\<close>

definition encodable :: "bnb_header \<Rightarrow> bool" where
  "encodable h \<longleftrightarrow> 0 \<le> orZero (Difficulty h) \<and> 0 \<le> orZero (Number h) \<and> 0 \<le> orZero (BaseFee h)"

text \<open>The strings of a header.\<close>

definition hashString :: "hash option \<Rightarrow> bytes" where
  "hashString x = (case x of None \<Rightarrow> [] | Some g \<Rightarrow> bigEndian 32 (unat g))"

definition optionalStrings :: "bnb_header \<Rightarrow> bytes list" where
  "optionalStrings h = [shortest (nat (orZero (BaseFee h))), hashString (WithdrawalsHash h),
     shortest (unat (orZero (BlobGasUsed h))), shortest (unat (orZero (ExcessBlobGas h))),
     hashString (ParentBeaconRoot h)]"

definition rlpStrings :: "bnb_header \<Rightarrow> bytes list" where
  "rlpStrings h =
     [bigEndian 32 (unat (ParentHash h)), bigEndian 32 (unat (UncleHash h)), bigEndian 20 (unat (Coinbase h)),
      bigEndian 32 (unat (Root h)), bigEndian 32 (unat (TxHash h)), bigEndian 32 (unat (ReceiptHash h)),
      Bloom h, shortest (nat (orZero (Difficulty h))), shortest (nat (orZero (Number h))),
      shortest (unat (GasLimit h)), shortest (unat (GasUsed h)), shortest (unat (Time h)), Extra h,
      bigEndian 32 (unat (MixDigest h)), bigEndian 8 (unat (Nonce h))]
     @ take (optionals h) (optionalStrings h)"

lemma writeBig_string: "writeBig x = Ok ws \<Longrightarrow> map rlpString ws = [shortest (nat (orZero x))]"
  by (auto simp: writeBig_def shortest.simps [of 0] split: option.splits if_splits)

lemma writeOpt_strings:
  "map rlpString (writeOpt WriteHash y) = [hashString y]"
  "map rlpString (writeOpt WriteUint64 z) = [shortest (unat (orZero z))]"
  by (simp_all add: writeOpt_def hashString_def shortest.simps [of 0] split: option.split)

lemma rlpOptionals_strings:
  assumes "rlpOptionals h = Ok ws"
  shows "map rlpString ws = take (optionals h) (optionalStrings h)"
  using assms
  by (auto simp: rlpOptionals_def Let_def thenOk_Ok_iff optionals_def optionalStrings_def
      writeOpt_strings dest!: writeBig_string split: if_splits)

lemma rlpWrites_strings:
  assumes "rlpWrites h = Ok ws"
  shows "map rlpString ws = rlpStrings h"
  using assms
  by (auto simp: rlpWrites_def thenOk_Ok_iff rlpStrings_def dest!: writeBig_string rlpOptionals_strings)

lemma writeBig_Ok_iff: "(\<exists>ws. writeBig x = Ok ws) \<longleftrightarrow> 0 \<le> orZero x"
  by (auto simp: writeBig_def split: option.splits)

lemma rlpWrites_Ok_iff: "(\<exists>ws. rlpWrites h = Ok ws) \<longleftrightarrow> encodable h"
proof -
  have "(\<exists>ws. rlpOptionals h = Ok ws) \<longleftrightarrow> 0 \<le> orZero (BaseFee h)"
    by (cases "BaseFee h") (auto simp: rlpOptionals_def Let_def thenOk_Ok_iff writeBig_def)
  then show ?thesis
    unfolding encodable_def writeBig_Ok_iff [symmetric] by (auto simp: rlpWrites_def thenOk_Ok_iff)
qed

text \<open>The strings are those of the view, and they determine it.\<close>

lemma rlpStrings_view: "rlpStrings (rlpView h) = rlpStrings h"
  by (simp add: rlpStrings_def optionalStrings_def optionals_def rlpView_def)

lemma hashString_eq_iff: "hashString x = hashString y \<longleftrightarrow> x = y"
proof -
  have "bigEndian 32 n \<noteq> []" for n by (metis length_bigEndian list.size(3) zero_neq_numeral)
  then show ?thesis by (auto simp: hashString_def bigEndian_words split: option.split) metis+
qed

lemma optionalStrings_inj:
  assumes "take (optionals g) (optionalStrings g) = take (optionals h) (optionalStrings h)"
    and "0 \<le> orZero (BaseFee g)" "0 \<le> orZero (BaseFee h)"
  shows "optionals g = optionals h" and "0 < optionals h \<Longrightarrow> orZero (BaseFee g) = orZero (BaseFee h)"
    and "WithdrawalsHash g = WithdrawalsHash h"
    and "2 < optionals h \<Longrightarrow> orZero (BlobGasUsed g) = orZero (BlobGasUsed h)"
    and "3 < optionals h \<Longrightarrow> orZero (ExcessBlobGas g) = orZero (ExcessBlobGas h)"
    and "ParentBeaconRoot g = ParentBeaconRoot h"
proof -
  have len: "length (optionalStrings k) = 5" "optionals k \<le> 5" for k
    by (simp_all add: optionalStrings_def optionals_def)
  show eq: "optionals g = optionals h"
    using arg_cong [OF assms(1), of length] by (simp add: len)
  have nth: "optionalStrings g ! i = optionalStrings h ! i" if "i < optionals h" for i
    using that arg_cong [OF assms(1), of "\<lambda>xs. xs ! i"] eq by simp
  have none: "optionals k \<le> 1 \<Longrightarrow> WithdrawalsHash k = None" "optionals k \<le> 4 \<Longrightarrow> ParentBeaconRoot k = None" for k
    by (simp_all add: optionals_def split: if_splits)
  show "orZero (BaseFee g) = orZero (BaseFee h)" if "0 < optionals h"
    using nth [of 0] that assms(2,3) by (simp add: optionalStrings_def shortest_eq_iff)
  show "WithdrawalsHash g = WithdrawalsHash h"
    using nth [of 1] none(1) eq by (cases "optionals h \<le> 1") (simp_all add: optionalStrings_def hashString_eq_iff)
  show "orZero (BlobGasUsed g) = orZero (BlobGasUsed h)" if "2 < optionals h"
    using nth [of 2] that by (simp add: optionalStrings_def shortest_eq_iff word_unat_eq_iff)
  show "orZero (ExcessBlobGas g) = orZero (ExcessBlobGas h)" if "3 < optionals h"
    using nth [of 3] that by (simp add: optionalStrings_def shortest_eq_iff word_unat_eq_iff)
  show "ParentBeaconRoot g = ParentBeaconRoot h"
    using nth [of 4] none(2) eq by (cases "optionals h \<le> 4") (simp_all add: optionalStrings_def hashString_eq_iff)
qed

lemma rlpStrings_eq_iff:
  assumes "encodable g" and "encodable h"
  shows "rlpStrings g = rlpStrings h \<longleftrightarrow> rlpView g = rlpView h"
proof
  assume eq: "rlpStrings g = rlpStrings h"
  have opt: "take (optionals g) (optionalStrings g) = take (optionals h) (optionalStrings h)"
    using eq by (simp add: rlpStrings_def)
  note o = optionalStrings_inj [OF opt]
  show "rlpView g = rlpView h"
    using eq o assms
    by (intro bnb_header.equality)
      (auto simp: rlpStrings_def rlpView_def encodable_def bigEndian_words shortest_eq_iff word_unat_eq_iff [symmetric])
next
  assume "rlpView g = rlpView h"
  then show "rlpStrings g = rlpStrings h" by (metis rlpStrings_view)
qed

lemma EncodeRLP_eq_iff:
  assumes "rlp_lawful lib" and "EncodeRLP lib g = Ok a" and "EncodeRLP lib h = Ok b"
  shows "a = b \<longleftrightarrow> rlpView g = rlpView h"
proof -
  obtain vs ws where w: "rlpWrites g = Ok vs" "a = rlp_flush lib vs" "rlpWrites h = Ok ws" "b = rlp_flush lib ws"
    using assms(2,3) by (auto simp: EncodeRLP_def thenOk_Ok_iff)
  then have "a = b \<longleftrightarrow> rlpStrings g = rlpStrings h"
    using assms(1) by (simp add: rlp_lawful_def rlpWrites_strings)
  then show ?thesis using rlpStrings_eq_iff rlpWrites_Ok_iff w by blast
qed

lemma EncodeRLP_Ok_iff: "(\<exists>b. EncodeRLP lib h = Ok b) \<longleftrightarrow> encodable h"
  by (simp add: EncodeRLP_def thenOk_Ok_iff rlpWrites_Ok_iff)

section \<open>JSON\<close>

text \<open>
  The documented behaviour of \<^verbatim>\<open>encoding/json\<close> with \<^verbatim>\<open>hexutil.Big\<close>: negative integers are not supported
  (they are refused when they are written, or what is written is refused when it is read), those above 256
  bits are refused when they are read, and everything else comes back as it was, an absent field as null.
  A bloom filter has 256 bytes.
\<close>

definition jsonBigs :: "json_header \<Rightarrow> int set" where
  "jsonBigs dec = {x. Some x \<in> {j_difficulty dec, j_number dec, j_baseFeePerGas dec}}"

definition json_lawful :: "'text json_lib \<Rightarrow> bool" where
  "json_lawful j \<longleftrightarrow> (\<forall>dec hash. (\<forall>bs. j_logsBloom dec = Some bs \<longrightarrow> length bs = 256) \<longrightarrow>
     (if \<exists>x \<in> jsonBigs dec. x < 0
      then (\<exists>e. json_Marshal j (dec, hash) = Err e)
        \<or> (\<exists>text e. json_Marshal j (dec, hash) = Ok text \<and> json_Unmarshal j text = Err e)
      else \<exists>text. json_Marshal j (dec, hash) = Ok text
        \<and> (if \<exists>x \<in> jsonBigs dec. 2 ^ 256 \<le> x then \<exists>e. json_Unmarshal j text = Err e
           else json_Unmarshal j text = Ok dec)))"

lemma assigned_Some: "assigned (Some v) put g = (Ok (), put v g)"
  by (simp add: assigned_def)

lemma assigned_optionals:
  "BaseFee g = None \<Longrightarrow> assigned x (\<lambda>v h. h\<lparr>BaseFee := Some v\<rparr>) g = (Ok (), g\<lparr>BaseFee := x\<rparr>)"
  "WithdrawalsHash g = None \<Longrightarrow>
    assigned y (\<lambda>v h. h\<lparr>WithdrawalsHash := Some v\<rparr>) g = (Ok (), g\<lparr>WithdrawalsHash := y\<rparr>)"
  "BlobGasUsed g = None \<Longrightarrow>
    assigned z (\<lambda>v h. h\<lparr>BlobGasUsed := Some v\<rparr>) g = (Ok (), g\<lparr>BlobGasUsed := z\<rparr>)"
  "ExcessBlobGas g = None \<Longrightarrow>
    assigned z (\<lambda>v h. h\<lparr>ExcessBlobGas := Some v\<rparr>) g = (Ok (), g\<lparr>ExcessBlobGas := z\<rparr>)"
  "ParentBeaconRoot g = None \<Longrightarrow>
    assigned y (\<lambda>v h. h\<lparr>ParentBeaconRoot := Some v\<rparr>) g = (Ok (), g\<lparr>ParentBeaconRoot := y\<rparr>)"
  by (simp_all add: assigned_def bnb_header.equality split: option.split)

lemma runAll_jsonOf:
  assumes "Difficulty h \<noteq> None" and "Number h \<noteq> None"
  shows "runAll (jsonFields (jsonOf h)) zeroHeader = (Ok (), h)"
proof -
  obtain d n where dn: "Difficulty h = Some d" "Number h = Some n" using assms by auto
  have "runAll (jsonFields (jsonOf h)) zeroHeader = (Ok (), h\<lparr>Difficulty := Some d, Number := Some n\<rparr>)"
    by (simp add: jsonFields_def jsonOf_def andThen_def required_def assigned_Some
        assigned_optionals dn zeroHeader_def)
  then show ?thesis by (simp flip: dn)
qed

lemma runAll_jsonOf_missing:
  assumes "Difficulty h = None \<or> Number h = None"
  shows "\<exists>e h'. runAll (jsonFields (jsonOf h)) zeroHeader = (Err e, h')"
  using assms
  by (cases "Difficulty h") (auto simp: jsonFields_def jsonOf_def andThen_def required_def assigned_Some)

text \<open>A header through JSON and back.\<close>

lemma UnmarshalJSON_MarshalJSON:
  assumes law: "json_lawful j" and bloom: "length (Bloom h) = 256"
  shows "if \<exists>x \<in> jsonBigs (jsonOf h). x < 0
    then (\<exists>e. MarshalJSON lib j h = Err e)
      \<or> (\<exists>text e. MarshalJSON lib j h = Ok text \<and> UnmarshalJSON j text zeroHeader = (Err e, zeroHeader))
    else \<exists>text. MarshalJSON lib j h = Ok text
      \<and> (if \<exists>x \<in> jsonBigs (jsonOf h). 2 ^ 256 \<le> x then \<exists>e. UnmarshalJSON j text zeroHeader = (Err e, zeroHeader)
         else if Difficulty h = None \<or> Number h = None then \<exists>e h'. UnmarshalJSON j text zeroHeader = (Err e, h')
         else UnmarshalJSON j text zeroHeader = (Ok (), h))"
proof -
  have "\<forall>bs. j_logsBloom (jsonOf h) = Some bs \<longrightarrow> length bs = 256" using bloom by (simp add: jsonOf_def)
  then have io: "if \<exists>x \<in> jsonBigs (jsonOf h). x < 0
    then (\<exists>e. MarshalJSON lib j h = Err e)
      \<or> (\<exists>text e. MarshalJSON lib j h = Ok text \<and> json_Unmarshal j text = Err e)
    else \<exists>text. MarshalJSON lib j h = Ok text
      \<and> (if \<exists>x \<in> jsonBigs (jsonOf h). 2 ^ 256 \<le> x then \<exists>e. json_Unmarshal j text = Err e
         else json_Unmarshal j text = Ok (jsonOf h))"
    using law unfolding json_lawful_def MarshalJSON_def by blast
  have read: "UnmarshalJSON j t zeroHeader = (case json_Unmarshal j t of
      Ok dec \<Rightarrow> runAll (jsonFields dec) zeroHeader | e \<Rightarrow> (reraise e, zeroHeader))" for t
    by (simp add: UnmarshalJSON_def andThen_def lift_def split: outcome.split)
  show ?thesis
    using io runAll_jsonOf [of h] runAll_jsonOf_missing [of h] by (auto simp: read split: if_splits)
qed

lemma required_Ok_iff: "required name x put h = (Ok u, h') \<longleftrightarrow> (\<exists>v. x = Some v \<and> h' = put v h)"
  by (cases u) (auto simp: required_def split: option.split)

lemma assigned_Ok_iff:
  "assigned x put h = (Ok u, h') \<longleftrightarrow> (case x of None \<Rightarrow> h' = h | Some v \<Rightarrow> h' = put v h)"
  by (cases u) (auto simp: assigned_def split: option.split)

lemma runAll_keeps:
  assumes "\<And>m h u h'. m \<in> set ms \<Longrightarrow> m h = (Ok u, h') \<Longrightarrow> Q h \<Longrightarrow> Q h'"
    and "runAll ms h = (Ok u, h')" and "Q h"
  shows "Q h'"
  using assms
proof (induction ms arbitrary: h)
  case (Cons m ms)
  from Cons.prems(2) obtain v h1 where "m h = (Ok v, h1)" "runAll ms h1 = (Ok u, h')"
    by (auto simp: andThen_Ok_iff)
  then show ?case using Cons.prems(1,3) Cons.IH [of h1] by (metis list.set_intros)
qed simp

lemma runAll_establishes:
  assumes "runAll (ms @ m # ns) h = (Ok u, h')"
    and "\<And>h u h'. m h = (Ok u, h') \<Longrightarrow> Q h'"
    and "\<And>m h u h'. m \<in> set ns \<Longrightarrow> m h = (Ok u, h') \<Longrightarrow> Q h \<Longrightarrow> Q h'"
  shows "Q h'"
  using assms(1)
proof (induction ms arbitrary: h)
  case Nil
  then obtain v h1 where "m h = (Ok v, h1)" "runAll ns h1 = (Ok u, h')" by (auto simp: andThen_Ok_iff)
  then show ?case using runAll_keeps [of ns Q h1 u h'] assms(2,3) by blast
next
  case (Cons m' ms)
  then show ?case by (auto simp: andThen_Ok_iff)
qed

lemma UnmarshalJSON_required:
  assumes "UnmarshalJSON j input h = (Ok u, h')"
  shows "Difficulty h' \<noteq> None" and "Number h' \<noteq> None"
proof -
  obtain dec where run: "runAll (jsonFields dec) h = (Ok u, h')"
    using assms by (auto simp: UnmarshalJSON_def andThen_Ok_iff)
  have split: "runAll (take i (jsonFields dec) @ jsonFields dec ! i # drop (Suc i) (jsonFields dec)) h = (Ok u, h')"
    if "i < length (jsonFields dec)" for i
    using run that by (simp add: id_take_nth_drop [symmetric])
  show "Difficulty h' \<noteq> None"
    by (rule runAll_establishes [OF split [of 7]])
      (auto simp: jsonFields_def required_Ok_iff assigned_Ok_iff split: option.splits)
  show "Number h' \<noteq> None"
    by (rule runAll_establishes [OF split [of 8]])
      (auto simp: jsonFields_def required_Ok_iff assigned_Ok_iff split: option.splits)
qed

end
