(* ===== verification/Bnb_Samples.thy ===== *)
theory Bnb_Samples
  imports Bnb_Reporter Bnb_Encoding
begin

text \<open>
  Concrete instances of the external code of the BNB part: headers whose hash is their number, a
  library whose encoding of a header is its number in one byte, a node with the headers up to
  150, a Lorenzo with a given header, and the reporter over them, observed.
\<close>

definition sampleBnb :: "int \<Rightarrow> bnb_header" where
  "sampleBnb n = zeroHeader\<lparr>ParentHash := word_of_int (n - 1), Difficulty := Some 1, Number := Some n\<rparr>"

fun bigOf :: "rlp_write \<Rightarrow> int option" where
  "bigOf (WriteBigInt n) = Some n" | "bigOf _ = None"

definition sampleLib :: rlp_lib where
  "sampleLib = \<lparr>rlp_flush = (\<lambda>ws. [word_of_int (case bigOf (ws ! 8) of Some n \<Rightarrow> n | None \<Rightarrow> 255)]),
     rlp_decode = (\<lambda>b. if b = [] then Err (ErrExternal ''EOF'') else Ok (sampleBnb (uint (hd b)))),
     keccak256 = (\<lambda>b. if b = [] then 255 else ucast (hd b))\<rparr>"

definition sampleNum :: "hash \<Rightarrow> int" where
  "sampleNum g = (if uint g < 200 then uint g else - 1)"

definition sampleRpc :: "unit bnb_rpc" where
  "sampleRpc =
     \<lparr>eth_getBlockByNumber = (\<lambda>k w. (Ok (if k \<le> 150 then Some (sampleBnb (uint k)) else None), w)),
      eth_getBlockByHash = (\<lambda>g w. (Ok (if uint g \<le> 150 then Some (sampleBnb (uint g)) else None), w)),
      eth_blockNumber = (\<lambda>w. (Ok 150, w))\<rparr>"

definition sampleBnbLorenzo :: "unit bnb_lorenzo_client" where
  "sampleBnbLorenzo =
     \<lparr>bnb_MustGetAddr = (\<lambda>w. (Ok ''lrz1relayer'', w)), BNBUploadHeaders = (\<lambda>msg w. (Ok 0, w)),
      BNBLatestHeader = (\<lambda>w. (Ok \<lparr>RawHeader = [7], lb_Number = 7, lb_Hash = 7, lb_ParentHash = 6,
        lb_ReceiptRoot = 0\<rparr>, w))\<rparr>"

type_synonym bnb_world = "unit \<times> msg_upload_headers list"

definition sampleBnbReporter :: "bnb_world bnb_reporter" where
  "sampleBnbReporter = \<lparr>bnbDelayBlocks = 15, cfg_BaseHeight = 5, bnbLorenzo = bnb_logging sampleBnbLorenzo,
     bnbClient = bnb_watching (bnb_client_of sampleRpc), bnbLib = sampleLib\<rparr>"

definition sampleBnbState :: "int \<Rightarrow> bnb_world bnb_state" where
  "sampleBnbState n = \<lparr>lorenzoTip = Some (sampleBnb n), bnbOutside = ((), [])\<rparr>"

lemma sampleBnb_simps [simp]:
  "Number (sampleBnb n) = Some n" "ParentHash (sampleBnb n) = word_of_int (n - 1)"
  "Difficulty (sampleBnb n) = Some 1" "BaseFee (sampleBnb n) = None"
  by (simp_all add: sampleBnb_def zeroHeader_def)

lemma sampleBnb_encoded:
  assumes "0 \<le> n"
  shows "EncodeRLP sampleLib (sampleBnb n) = Ok [word_of_int n]"
proof -
  have "rlpOptionals (sampleBnb n) = Ok []"
    by (simp add: rlpOptionals_def Let_def sampleBnb_def zeroHeader_def)
  then show ?thesis
    using assms by (simp add: EncodeRLP_def rlpWrites_def writeBig_def sampleLib_def)
qed

lemma sampleBnb_hash:
  assumes "0 \<le> n" "n < 200"
  shows "HeaderHash sampleLib (sampleBnb n) = word_of_int n" and "sampleNum (word_of_int n) = n"
    and "sampleNum (word_of_int n - 1) = n - 1"
proof -
  have "uint (word_of_int n :: 8 word) = n"
    using assms by (simp add: uint_word_of_int)
  then have "(ucast (word_of_int n :: 8 word) :: 256 word) = word_of_int n"
    by (metis word_of_int_uint ucast_eq)
  then show "HeaderHash sampleLib (sampleBnb n) = word_of_int n"
    using assms by (simp add: HeaderHash_def sampleBnb_encoded) (simp add: sampleLib_def)
  show "sampleNum (word_of_int n) = n"
    using assms by (simp add: sampleNum_def uint_word_of_int)
  show "sampleNum (word_of_int n - 1) = n - 1"
  proof (cases "n = 0")
    case True
    have "uint (- 1 :: 256 word) = 2 ^ 256 - 1" by (simp add: unsigned_minus_1_eq_mask mask_eq_exp_minus_1)
    then show ?thesis using True by (simp add: sampleNum_def)
  next
    case False
    then have "uint (word_of_int (n - 1) :: 256 word) = n - 1"
      using assms by (simp only: uint_word_of_int) simp
    then have "uint (word_of_int n - 1 :: 256 word) = n - 1" by simp
    then show ?thesis using assms by (simp add: sampleNum_def)
  qed
qed

lemma sampleBnb_on_node: "0 \<le> n \<Longrightarrow> n < 200 \<Longrightarrow> bnb_on_node sampleLib sampleNum (sampleBnb n)"
  by (simp add: bnb_on_node_def sampleBnb_hash)

lemma sampleRpc_lawful: "bnb_lawful sampleLib sampleNum sampleRpc"
proof -
  have n: "uint k < 200" if "k \<le> 150" for k :: u64
    using that by (simp add: word_le_def)
  show ?thesis
    unfolding bnb_lawful_def
    by (auto simp: sampleRpc_def sampleBnb_on_node n sampleBnb_hash split: if_splits)
qed

lemma sampleBnbReporter_observed: "bnb_observed sampleBnbReporter"
  by (auto simp: bnb_observed_def sampleBnbReporter_def)

lemma sampleBnbReporter_knows: "lorenzo_knows sampleBnbReporter"
  by (auto simp: lorenzo_knows_def sampleBnbReporter_def bnb_logging_def logged_def sampleBnbLorenzo_def)

lemma sampleBnbReporter_lawful:
  "bnb_client_lawful (bnbLib sampleBnbReporter) (bnbClient sampleBnbReporter)"
  using bnb_watching_lawful [OF bnb_client_of_lawful [OF sampleRpc_lawful]]
  by (simp add: sampleBnbReporter_def)

text \<open>An encoder that frames the byte strings, and a JSON codec whose text is the struct.\<close>

definition framed :: "bytes \<Rightarrow> bytes" where
  "framed bs = concat (map (\<lambda>b. [1, b]) bs) @ [0]"

definition framedLib :: rlp_lib where
  "framedLib = sampleLib\<lparr>rlp_flush := (\<lambda>ws. concat (map (framed \<circ> rlpString) ws))\<rparr>"

lemma framed_append_iff: "framed a @ x = framed b @ y \<longleftrightarrow> a = b \<and> x = y"
proof (induction a arbitrary: b)
  case Nil
  then show ?case by (cases b) (simp_all add: framed_def)
next
  case (Cons c a)
  then show ?case by (cases b) (simp_all add: framed_def)
qed

lemma concat_framed_iff: "concat (map framed xs) = concat (map framed ys) \<longleftrightarrow> xs = ys"
proof (induction xs arbitrary: ys)
  case Nil
  then show ?case by (cases ys) (simp_all add: framed_def)
next
  case (Cons x xs)
  show ?case
  proof (cases ys)
    case (Cons y zs)
    then show ?thesis using Cons.IH by (simp add: framed_append_iff)
  qed (simp add: framed_def)
qed

lemma framedLib_lawful: "rlp_lawful framedLib"
  using concat_framed_iff [of "map rlpString vs" "map rlpString ws" for vs ws]
  by (simp add: rlp_lawful_def framedLib_def)

definition sampleJson :: "json_header json_lib" where
  "sampleJson =
     \<lparr>json_Marshal = (\<lambda>(dec, hash). Ok dec),
      json_Unmarshal = (\<lambda>dec.
        if \<exists>x \<in> jsonBigs dec. x < 0 then Err (ErrExternal ''hex string without 0x prefix'')
        else if \<exists>x \<in> jsonBigs dec. 2 ^ 256 \<le> x then Err (ErrExternal ''hex number > 256 bits'')
        else Ok dec)\<rparr>"

lemma sampleJson_lawful: "json_lawful sampleJson"
  by (simp add: json_lawful_def sampleJson_def)

end
