(* ===== verification/Properties_Bnb.thy ===== *)
theory Properties_Bnb
  imports Bnb_Catch_Up Bnb_Samples
begin

text \<open>
  The properties of the BNB part: what its reporter uploads, its catch-up and its bootstrap, the
  ranges its client returns and the encodings of its headers, each with an application to a
  concrete input.
\<close>

section \<open>Uploads\<close>

text \<open>
  C33: one turn of the main loop uploads nothing, or one message that continues the chain at the tip
  without a gap, with at most 100 headers, all of them \<^verbatim>\<open>delayBlocks\<close> below the node's latest; the
  last header uploaded is the new tip.
\<close>

theorem main_loop_advances:
  assumes "bnb_observed r" and "lorenzo_knows r" and "bnb_client_lawful (bnbLib r) (bnbClient r)"
    and "lorenzoTip s = Some t" and "Number t = Some n" and "0 \<le> n"
    and "n + int (unat (bnbDelayBlocks r)) + 1 < 2 ^ 64"
  shows "\<exists>sent. uploaded (snd (mainIteration r s)) = uploaded s @ sent
    \<and> (sent = [] \<or> advance r t (snd (mainIteration r s)) sent)"
  using assms by (rule mainIteration_log)

theorem main_loop_advances_witness:
  "\<exists>sent. uploaded (snd (mainIteration sampleBnbReporter (sampleBnbState 7))) = sent
    \<and> (sent = [] \<or> advance sampleBnbReporter (sampleBnb 7) (snd (mainIteration sampleBnbReporter (sampleBnbState 7))) sent)"
proof -
  have e: "uploaded (sampleBnbState 7) = []" by (simp add: sampleBnbState_def)
  have "\<exists>sent. uploaded (snd (mainIteration sampleBnbReporter (sampleBnbState 7)))
      = uploaded (sampleBnbState 7) @ sent
    \<and> (sent = [] \<or> advance sampleBnbReporter (sampleBnb 7) (snd (mainIteration sampleBnbReporter (sampleBnbState 7))) sent)"
    by (rule main_loop_advances [OF sampleBnbReporter_observed sampleBnbReporter_knows sampleBnbReporter_lawful,
          of _ _ 7])
      (simp_all add: sampleBnbState_def sampleBnbReporter_def)
  then show ?thesis by (simp add: e)
qed

text \<open>
  C34: in every state the BNB catch-up reaches, whatever the node answers and whenever it is asked to
  quit, the messages uploaded so far continue the chain at the old tip without a gap, and the tip is
  the last header uploaded, not above the target.
\<close>

theorem bnb_catch_up_uploads_chain:
  assumes obs: "bnb_observed r" and client: "bnb_client_lawful (bnbLib r) (bnbClient r)"
    and room: "unat target + 100 < 2 ^ 64"
    and t: "lorenzoTip s = Some t" "Number t = Some (int n)" "n \<le> unat target"
    and reach: "bnb_catchup_reaches quit r target (bnbCatchupStart (Uint64 (int n)) s) k"
  shows "\<exists>m. continues r t s (bnbRep k) m \<and> m \<le> unat target"
proof -
  have "catching r t s False target k"
    by (rule bnb_catchup_reaches_catching [OF reach bnbCatchupStart_catching [OF t room] obs client room])
      simp_all
  then show ?thesis by (auto simp: catching_def)
qed

text \<open>
  C9: when no quit is signalled and no fetch fails, the BNB catch-up returns without an error only
  once every header up to the target has been uploaded: unlike the Bitcoin catch-up it leaves no
  batch behind.
\<close>

theorem bnb_catch_up_is_complete:
  assumes obs: "bnb_observed r" and client: "bnb_client_lawful (bnbLib r) (bnbClient r)"
    and room: "unat target + 100 < 2 ^ 64"
    and t: "lorenzoTip s = Some t" "Number t = Some (int n)" "n \<le> unat target"
    and reach: "bnb_catchup_reaches quit r target (bnbCatchupStart (Uint64 (int n)) s) k"
    and quit: "\<And>w. \<not> quit w"
    and fetches: "\<And>i j w e w'. i \<le> j \<Longrightarrow> j \<le> target \<Longrightarrow> RangeHeaders (bnbClient r) i j w \<noteq> (Err e, w')"
    and returned: "outcomeOf k = Some (Ok ())"
  shows "continues r t s (bnbRep k) (unat target)"
proof -
  have "catching r t s True target k"
    by (rule bnb_catchup_reaches_catching [OF reach bnbCatchupStart_catching [OF t room] obs client room])
      (use quit fetches in auto)
  then show ?thesis using returned by (auto simp: catching_def)
qed

lemma sampleRpc_walk:
  "int n \<le> m + 1 \<Longrightarrow> m \<le> 150 \<Longrightarrow> \<exists>hs. rangeLoop sampleRpc n (word_of_int m) acc () = (Ok hs, ())"
proof (induction n arbitrary: m acc)
  case 0
  then show ?case by simp
next
  case (Suc n)
  then have m: "0 \<le> m" "m \<le> 150" by simp_all
  then have "uint (word_of_int m :: hash) = m" by (simp add: uint_word_of_int)
  then have "client_HeaderByHash sampleRpc (word_of_int m) () = (Ok (sampleBnb m), ())"
    using m by (simp add: client_HeaderByHash_def found_def andThen_def sampleRpc_def)
  moreover have "\<exists>hs. rangeLoop sampleRpc n (word_of_int (m - 1)) (sampleBnb m # acc) () = (Ok hs, ())"
    using Suc.prems by (intro Suc.IH) simp_all
  ultimately show ?case by (simp add: andThen_def)
qed

lemma sampleRpc_range:
  assumes "i \<le> j" and "j \<le> (8 :: u64)"
  shows "\<exists>hs. client_RangeHeaders sampleRpc i j () = (Ok hs, ())"
proof -
  have j: "uint j \<le> 8" "uint i \<le> uint j" using assms by (simp_all add: word_le_def)
  have n: "unat (j - i + 1) - 1 = unat j - unat i" "unat (j - i + 1) = unat j - unat i + 1"
    using assms unat_plus1_u64 [of "j - i"] by (simp_all add: unat_sub word_le_nat_alt)
  have "client_HeaderByNumber sampleRpc j () = (Ok (sampleBnb (uint j)), ())"
    using assms(2) by (simp add: client_HeaderByNumber_def found_def andThen_def sampleRpc_def word_le_def)
  moreover have "\<exists>hs. rangeLoop sampleRpc (unat j - unat i) (word_of_int (uint j - 1)) [sampleBnb (uint j)] () = (Ok hs, ())"
    using j by (intro sampleRpc_walk) (simp_all add: of_nat_diff word_le_nat_alt)
  moreover have "\<not> makeslice_panics (j - i + 1)" "j - i + 1 \<noteq> 0"
    using n(2) j assms by (auto simp: makeslice_panics_def word_le_nat_alt)
  ultimately show ?thesis
    using assms(1) n(1) by (simp add: client_RangeHeaders_def andThen_def Let_def)
qed

lemma sampleBnb_fetch:
  "ask (RangeHeaders (bnbClient sampleBnbReporter) 8 8) s = (Ok [sampleBnb 8], s)"
proof -
  have s: "s\<lparr>bnbOutside := ((), uploaded s)\<rparr> = s"
    by (cases s) (auto simp: prod_eq_iff)
  have "client_RangeHeaders sampleRpc 8 8 () = (Ok [sampleBnb 8], ())"
    by (simp add: client_RangeHeaders_def client_HeaderByNumber_def found_def andThen_def sampleRpc_def
        Let_def makeslice_panics_def)
  then show ?thesis
    by (simp add: ask_def sampleBnbReporter_def bnb_watching_def bnb_client_of_def logged_def s)
qed

lemma sampleBnb_handle: "\<exists>s'. handleHeaders sampleBnbReporter [sampleBnb 8] (sampleBnbState 7) = (Ok (), s')"
proof -
  have n: "numberOf (sampleBnb 8) = Ok 8" "numberOf (sampleBnb 7) = Ok 7"
    by (simp_all add: numberOf_def Uint64_def)
  have "checkNext sampleBnbReporter (sampleBnb 8) (sampleBnbState 7) = (Ok (), sampleBnbState 7)"
    by (simp add: checkNext_def andThen_def n tipNumber_def tip_def sampleBnbState_def
        sampleBnbReporter_def sampleBnb_hash)
  moreover have "ConvertBNBHeaderToLorenzoBNBHeaders sampleLib [sampleBnb 8]
      = Ok [\<lparr>RawHeader = [8], lb_Number = 8, lb_Hash = 8, lb_ParentHash = 7, lb_ReceiptRoot = 0\<rparr>]"
    by (simp add: sampleBnb_encoded n sampleBnb_hash) (simp add: sampleBnb_def zeroHeader_def)
  ultimately show ?thesis
    by (simp add: handleHeaders_def deferredNumbers_def andThen_def uploadHeaders_def setTip_def
        sampleBnbReporter_def ask_def bnb_logging_def logged_def sampleBnbLorenzo_def split: prod.split)
qed

lemma sampleBnb_run:
  "\<exists>k. bnb_catchup_reaches (\<lambda>w. False) sampleBnbReporter 8 (bnbCatchupStart (Uint64 (int 7)) (sampleBnbState 7)) k
    \<and> outcomeOf k = Some (Ok ())"
proof -
  let ?step = "bnb_catchup_step (\<lambda>w. False) sampleBnbReporter 8"
  obtain s' where h: "handleHeaders sampleBnbReporter [sampleBnb 8] (sampleBnbState 7) = (Ok (), s')"
    using sampleBnb_handle by blast
  let ?k0 = "bnbCatchupStart (Uint64 (int 7)) (sampleBnbState 7)"
  let ?k1 = "?k0\<lparr>bnbFetcher := SendFrom 8 [sampleBnb 8], bnbRep := sampleBnbState 7\<rparr>"
  let ?k2 = "?k1\<lparr>bnbFetcher := FetchAt 108, batchHeaderCh := [[sampleBnb 8]]\<rparr>"
  let ?k3 = "?k2\<lparr>bnbFetcher := Finished, chClosed := True\<rparr>"
  let ?k4 = "?k3\<lparr>receiving := True\<rparr>"
  let ?k5 = "takeHeaders sampleBnbReporter [sampleBnb 8] (?k4\<lparr>batchHeaderCh := []\<rparr>)"
  let ?k6 = "?k5\<lparr>receiving := True\<rparr>"
  let ?k7 = "?k6\<lparr>outcomeOf := Some (Ok ())\<rparr>"
  have e: "batchEnd 8 8 = 8" by (simp add: batchEnd_def FetchBNBHeaderBatchSize_def Let_def)
  have "?step ?k0 ?k1"
    by (rule bnb_catchup_step.fetch) (simp_all add: bnbCatchupStart_def Uint64_def e sampleBnb_fetch)
  moreover have "?step ?k1 ?k2"
    using bnb_catchup_step.send [of ?k1 8 "[sampleBnb 8]"]
    by (simp add: bnbCatchupStart_def batchChCapacity_def FetchBNBHeaderBatchSize_def)
  moreover have "?step ?k2 ?k3" by (rule bnb_catchup_step.fetched [of _ 108]) simp_all
  moreover have "?step ?k3 ?k4" by (rule bnb_catchup_step.poll) (simp_all add: bnbCatchupStart_def)
  moreover have "?step ?k4 ?k5" by (rule bnb_catchup_step.receive) (simp_all add: bnbCatchupStart_def)
  moreover have "?step ?k5 ?k6"
    by (rule bnb_catchup_step.poll) (simp_all add: bnbCatchupStart_def takeHeaders_def h)
  moreover have "?step ?k6 ?k7"
    by (rule bnb_catchup_step.drained) (simp_all add: bnbCatchupStart_def takeHeaders_def h)
  ultimately have "bnb_catchup_reaches (\<lambda>w. False) sampleBnbReporter 8 ?k0 ?k7"
    by (meson bnb_catchup_reaches.intros)
  then show ?thesis by (intro exI [of _ ?k7]) simp
qed

theorem bnb_catch_up_is_complete_witness:
  "\<exists>s'. continues sampleBnbReporter (sampleBnb 7) (sampleBnbState 7) s' 8"
proof -
  obtain k where k: "bnb_catchup_reaches (\<lambda>w. False) sampleBnbReporter 8
      (bnbCatchupStart (Uint64 (int 7)) (sampleBnbState 7)) k" "outcomeOf k = Some (Ok ())"
    using sampleBnb_run by blast
  have ok: "RangeHeaders (bnbClient sampleBnbReporter) i j w \<noteq> (Err e, w')" if "i \<le> j" "j \<le> 8" for i j w e w'
    using sampleRpc_range [OF that]
    by (auto simp: sampleBnbReporter_def bnb_watching_def bnb_client_of_def logged_def)
  have "continues sampleBnbReporter (sampleBnb 7) (sampleBnbState 7) (bnbRep k) (unat (8 :: u64))"
    by (rule bnb_catch_up_is_complete [OF sampleBnbReporter_observed sampleBnbReporter_lawful _ _ _ _ k(1) _ ok k(2)])
      (simp_all add: sampleBnbState_def)
  then show ?thesis by auto
qed

theorem bnb_catch_up_uploads_chain_witness:
  "\<exists>(k :: bnb_world bnb_catchup) m. outcomeOf k = Some (Ok ())
    \<and> continues sampleBnbReporter (sampleBnb 7) (sampleBnbState 7) (bnbRep k) m \<and> m \<le> 8"
proof -
  obtain k where k: "bnb_catchup_reaches (\<lambda>w. False) sampleBnbReporter 8
      (bnbCatchupStart (Uint64 (int 7)) (sampleBnbState 7)) k" "outcomeOf k = Some (Ok ())"
    using sampleBnb_run by blast
  have "\<exists>m. continues sampleBnbReporter (sampleBnb 7) (sampleBnbState 7) (bnbRep k) m \<and> m \<le> unat (8 :: u64)"
    by (rule bnb_catch_up_uploads_chain [OF sampleBnbReporter_observed sampleBnbReporter_lawful _ _ _ _ k(1)])
      (simp_all add: sampleBnbState_def)
  then show ?thesis using k(2) by auto
qed

section \<open>The client and the bootstrap\<close>

text \<open>
  C35: over a node that answers as a BNB node does, \<^verbatim>\<open>RangeHeaders\<close> returns exactly the headers from the
  first to the last number asked for, each one the parent of the next.
\<close>

theorem RangeHeaders_returns_chain:
  assumes "bnb_lawful lib num c" and "client_RangeHeaders c start stop w = (Ok hs, w')"
  shows "length hs = unat stop - unat start + 1 \<and> successively (bnb_linked lib) hs
    \<and> Number (hd hs) = Some (uint start) \<and> Number (last hs) = Some (uint stop)"
  using client_RangeHeaders_chain [OF assms] by blast

theorem RangeHeaders_returns_chain_witness:
  "\<exists>hs. client_RangeHeaders sampleRpc 3 8 () = (Ok hs, ()) \<and> length hs = 6
    \<and> successively (bnb_linked sampleLib) hs"
proof -
  obtain hs where run: "client_RangeHeaders sampleRpc 3 8 () = (Ok hs, ())"
    using sampleRpc_range [of 3 8] by auto
  then show ?thesis using RangeHeaders_returns_chain [OF sampleRpc_lawful run] by simp
qed

text \<open>
  C36: on a Lorenzo that has no BNB header yet, the bootstrap uploads the base header, bootstraps again
  and then dereferences the nil response of its first query: the process panics although the
  initialisation succeeded.
\<close>

theorem first_bnb_bootstrap_panics:
  assumes "ask (BNBLatestHeader (bnbLorenzo r)) s = (Err e, s1)" and "isHeaderNotFound e"
    and "uploadBaseHeader r s1 = (Ok u, s2)"
    and "ask (BNBLatestHeader (bnbLorenzo r)) s2 = (Ok header, s3)"
    and "rlp_decode (bnbLib r) (RawHeader header) = Ok h"
  shows "boostrap r s = (Panic NilDereference, s3\<lparr>lorenzoTip := Some h\<rparr>)"
  using assms by (rule boostrap_init_panics)

text \<open>A Lorenzo that has no header until one is uploaded; its state says whether it has one.\<close>

definition freshLorenzo :: "bool bnb_lorenzo_client" where
  "freshLorenzo =
     \<lparr>bnb_MustGetAddr = (\<lambda>w. (Ok ''lrz1relayer'', w)), BNBUploadHeaders = (\<lambda>msg w. (Ok 0, True)),
      BNBLatestHeader = (\<lambda>w. (if w then Ok \<lparr>RawHeader = [5], lb_Number = 5, lb_Hash = 5, lb_ParentHash = 4,
        lb_ReceiptRoot = 0\<rparr> else Err (ErrExternal ''latested header not found''), w))\<rparr>"

definition freshReporter :: "bool bnb_reporter" where
  "freshReporter = \<lparr>bnbDelayBlocks = 15, cfg_BaseHeight = 5, bnbLorenzo = freshLorenzo,
     bnbClient = \<lparr>BlockNumber = (\<lambda>w. (Ok 150, w)), LatestHeader = (\<lambda>w. (Ok (sampleBnb 150), w)),
       RangeHeaders = (\<lambda>i j w. (Ok [], w)), HeaderByNumber = (\<lambda>n w. (Ok (sampleBnb (uint n)), w)),
       HeaderByHash = (\<lambda>h w. (Ok (sampleBnb (uint h)), w))\<rparr>,
     bnbLib = sampleLib\<rparr>"

theorem first_bnb_bootstrap_panics_witness:
  "fst (boostrap freshReporter \<lparr>lorenzoTip = None, bnbOutside = False\<rparr>) = Panic NilDereference"
proof -
  let ?e = "ErrExternal ''latested header not found''"
  let ?h = "\<lparr>RawHeader = [5], lb_Number = 5, lb_Hash = 5, lb_ParentHash = 4, lb_ReceiptRoot = 0\<rparr>"
  let ?s = "\<lambda>b. \<lparr>lorenzoTip = None, bnbOutside = b\<rparr>"
  have first: "ask (BNBLatestHeader (bnbLorenzo freshReporter)) (?s False) = (Err ?e, ?s False)"
    and again: "ask (BNBLatestHeader (bnbLorenzo freshReporter)) (?s True) = (Ok ?h, ?s True)"
    by (simp_all add: ask_def freshReporter_def freshLorenzo_def)
  have e: "isHeaderNotFound ?e" by (simp add: isHeaderNotFound_def)
  have n: "numberOf (sampleBnb 5) = Ok 5" by (simp add: numberOf_def Uint64_def)
  have base: "uploadBaseHeader freshReporter (?s False) = (Ok (), ?s True)"
    by (simp add: uploadBaseHeader_def uploadHeaders_def andThen_def ask_def freshReporter_def
        freshLorenzo_def sampleBnb_encoded n)
  have dec: "rlp_decode (bnbLib freshReporter) (RawHeader ?h) = Ok (sampleBnb 5)"
    by (simp add: freshReporter_def sampleLib_def)
  show ?thesis by (simp add: first_bnb_bootstrap_panics [OF first e base again dec])
qed

section \<open>Encodings\<close>



text \<open>
  C38: what becomes of a header written as JSON and read back into a new one, over \<^verbatim>\<open>hexutil\<close>'s documented
  conversions. A negative big integer is refused, when it is written or when it is read; one above 256 bits
  is refused when it is read; nothing is assigned then. A header without a difficulty or a number is
  refused when it is read, too. Every other header comes back as it was, optional fields included.
\<close>

theorem json_round_trip:
  assumes "json_lawful j" and "length (Bloom h) = 256"
  shows "if \<exists>x. Some x \<in> {Difficulty h, Number h, BaseFee h} \<and> x < 0
    then (\<exists>e. MarshalJSON lib j h = Err e)
      \<or> (\<exists>text e. MarshalJSON lib j h = Ok text \<and> UnmarshalJSON j text zeroHeader = (Err e, zeroHeader))
    else \<exists>text. MarshalJSON lib j h = Ok text \<and>
      (if \<exists>x. Some x \<in> {Difficulty h, Number h, BaseFee h} \<and> 2 ^ 256 \<le> x
       then \<exists>e. UnmarshalJSON j text zeroHeader = (Err e, zeroHeader)
       else if Difficulty h = None \<or> Number h = None
       then \<exists>e h'. UnmarshalJSON j text zeroHeader = (Err e, h')
       else UnmarshalJSON j text zeroHeader = (Ok (), h))"
proof -
  have "(\<exists>x \<in> jsonBigs (jsonOf h). P x) \<longleftrightarrow> (\<exists>x. Some x \<in> {Difficulty h, Number h, BaseFee h} \<and> P x)" for P
    by (simp add: jsonBigs_def jsonOf_def)
  then show ?thesis using UnmarshalJSON_MarshalJSON [OF assms, of lib] by (simp only:)
qed

theorem json_round_trip_witness:
  "(\<exists>text. MarshalJSON sampleLib sampleJson ((sampleBnb 9)\<lparr>BlobGasUsed := Some 3\<rparr>) = Ok text
      \<and> UnmarshalJSON sampleJson text zeroHeader = (Ok (), (sampleBnb 9)\<lparr>BlobGasUsed := Some 3\<rparr>))
   \<and> (\<exists>text e. MarshalJSON sampleLib sampleJson (sampleBnb (- 1)) = Ok text
      \<and> UnmarshalJSON sampleJson text zeroHeader = (Err e, zeroHeader))
   \<and> (\<exists>text e. MarshalJSON sampleLib sampleJson (sampleBnb (2 ^ 256)) = Ok text
      \<and> UnmarshalJSON sampleJson text zeroHeader = (Err e, zeroHeader))"
proof (intro conjI)
  have b: "length (Bloom (sampleBnb n)) = 256" for n
    by (simp add: sampleBnb_def zeroHeader_def zeroBloom_def)
  note trip = json_round_trip [OF sampleJson_lawful, where lib = sampleLib]
  show "\<exists>text. MarshalJSON sampleLib sampleJson ((sampleBnb 9)\<lparr>BlobGasUsed := Some 3\<rparr>) = Ok text
      \<and> UnmarshalJSON sampleJson text zeroHeader = (Ok (), (sampleBnb 9)\<lparr>BlobGasUsed := Some 3\<rparr>)"
  proof -
    let ?h = "(sampleBnb 9)\<lparr>BlobGasUsed := Some 3\<rparr>"
    have "\<not> (\<exists>x. Some x \<in> {Difficulty ?h, Number ?h, BaseFee ?h} \<and> x < 0)"
      and "\<not> (\<exists>x. Some x \<in> {Difficulty ?h, Number ?h, BaseFee ?h} \<and> 2 ^ 256 \<le> x)"
      and "\<not> (Difficulty ?h = None \<or> Number ?h = None)" by auto
    then show ?thesis using trip [of ?h] b [of 9] by (simp only: if_False) simp
  qed
  show "\<exists>text e. MarshalJSON sampleLib sampleJson (sampleBnb (- 1)) = Ok text
      \<and> UnmarshalJSON sampleJson text zeroHeader = (Err e, zeroHeader)"
  proof -
    have "\<exists>x. Some x \<in> {Difficulty (sampleBnb (- 1)), Number (sampleBnb (- 1)), BaseFee (sampleBnb (- 1))} \<and> x < 0"
      by (rule exI [of _ "- 1"]) simp
    moreover have "MarshalJSON sampleLib sampleJson h \<noteq> Err e" for h e by (simp add: MarshalJSON_def sampleJson_def)
    ultimately show ?thesis using trip [OF b, of "- 1"] by (simp only: if_True) blast
  qed
  show "\<exists>text e. MarshalJSON sampleLib sampleJson (sampleBnb (2 ^ 256)) = Ok text
      \<and> UnmarshalJSON sampleJson text zeroHeader = (Err e, zeroHeader)"
  proof -
    let ?h = "sampleBnb (2 ^ 256)"
    have "\<not> (\<exists>x. Some x \<in> {Difficulty ?h, Number ?h, BaseFee ?h} \<and> x < 0)"
      and "\<exists>x. Some x \<in> {Difficulty ?h, Number ?h, BaseFee ?h} \<and> 2 ^ 256 \<le> x" by auto
    then show ?thesis using trip [OF b, of "2 ^ 256"] by (simp only: if_True if_False) blast
  qed
qed

end
