(* ===== verification/Utxo.thy ===== *)
theory Utxo
  imports Hex
begin

text \<open>
  The UTXO of \<^verbatim>\<open>types/utxo.go\<close>. The parsers of btcd's hash, address and amount types are a parameter,
  over opaque addresses \<open>'a\<close> and the JSON number \<open>'f\<close> of the amount.
\<close>

type_synonym btc_amount = "64 word"

record 'f list_unspent_result =
  res_TxID :: string
  res_Vout :: u32
  res_Address :: string
  res_ScriptPubKey :: string
  res_Amount :: 'f

record 'a utxo =
  TxID :: hash
  Vout :: u32
  ScriptPK :: string
  Amount :: btc_amount
  Addr :: 'a

record ('f, 'a) btcutil =
  util_NewHashFromStr :: "string \<Rightarrow> hash outcome"
  DecodeAddress :: "string \<Rightarrow> 'a outcome"
  NewAmount :: "'f \<Rightarrow> btc_amount outcome"

definition NewUTXO :: "('f, 'a) btcutil \<Rightarrow> 'f list_unspent_result \<Rightarrow> 'a utxo outcome" where
  "NewUTXO lib r =
     thenOk (DecodeString (res_ScriptPubKey r)) (\<lambda>prevPKScript.
     thenOk (util_NewHashFromStr lib (res_TxID r)) (\<lambda>txID.
     thenOk (DecodeAddress lib (res_Address r)) (\<lambda>prevAddr.
     thenOk (NewAmount lib (res_Amount r)) (\<lambda>amount.
     Ok \<lparr>TxID = txID, Vout = res_Vout r, ScriptPK = prevPKScript, Amount = amount, Addr = prevAddr\<rparr>))))"

definition GetOutPoint :: "'a utxo \<Rightarrow> hash \<times> u32" where
  "GetOutPoint u = (TxID u, Vout u)"

text \<open>The script is the bytes that the node wrote in hexadecimal.\<close>

lemma NewUTXO_script:
  assumes "NewUTXO lib r = Ok u" and "res_ScriptPubKey r = EncodeToString script"
  shows "ScriptPK u = script"
  using assms by (auto simp: NewUTXO_def thenOk_Ok_iff)

end
