(* ===== verification/Notifier.thy ===== *)
theory Notifier
  imports Config
begin

text \<open>
  The types of \<^verbatim>\<open>btcclient/notifier.go\<close>, which no other part of the program uses: the configuration of a
  node backend, and the disabled hint cache. Requests are lnd's, a type parameter.
\<close>

record btcd_backend =
  bd_RPCHost :: string
  bd_RPCUser :: string
  bd_RPCPass :: string
  bd_RPCCert :: string
  bd_RawCert :: string
  bd_DisableTLS :: bool
  bd_BlockCacheSize :: u64

record bitcoind_backend =
  bc_RPCHost :: string
  bc_RPCUser :: string
  bc_RPCPass :: string
  ZMQPubRawBlock :: string
  ZMQPubRawTx :: string
  ZMQReadDeadline :: i64
  EstimateMode :: string
  PrunedNodeMaxPeers :: i64
  RPCPolling :: bool
  BlockPollingInterval :: i64
  TxPollingInterval :: i64
  bc_BlockCacheSize :: u64

record btc_node_backend_config =
  nb_Btcd :: "btcd_backend option"
  nb_Bitcoind :: "bitcoind_backend option"
  ActiveNodeBackend :: string

section \<open>The disabled hint cache\<close>

text \<open>
  A hint cache keeps, for a request, a height below which it need not be looked for. A client commits
  hints, asks for them and purges them; a cache is sound when a hint it gives is one of those
  committed for the request, or 0, from where everything is searched.
\<close>

datatype 'q hint_call = Commit u32 "'q list" | Purge "'q list"

locale hint_cache =
  fixes commit :: "u32 \<Rightarrow> 'q list \<Rightarrow> ('c, unit) action"
    and query :: "'q \<Rightarrow> ('c, u32) action"
    and purge :: "'q list \<Rightarrow> ('c, unit) action"
    and empty :: 'c
    and hints :: "'c \<Rightarrow> 'q \<Rightarrow> u32 set"
  assumes new_cache: "hints empty q = {0}"
    and commits: "hints (snd (commit h qs c)) q \<subseteq> (if q \<in> set qs then insert h (hints c q) else hints c q)"
    and purges: "hints (snd (purge qs c)) q \<subseteq> hints c q"
    and answers_hint: "query q c = (Ok h, c') \<Longrightarrow> h \<in> hints c q"
begin

fun run_calls :: "'q hint_call list \<Rightarrow> 'c \<Rightarrow> 'c" where
  "run_calls [] c = c"
| "run_calls (Commit h qs # cs) c = run_calls cs (snd (commit h qs c))"
| "run_calls (Purge qs # cs) c = run_calls cs (snd (purge qs c))"

lemma run_calls_hints:
  "hints (run_calls cs c) q \<subseteq> hints c q \<union> {h. \<exists>qs. Commit h qs \<in> set cs \<and> q \<in> set qs}"
proof (induction cs c rule: run_calls.induct)
  case (2 h qs cs c)
  then show ?case using commits [of h qs c q] by (auto split: if_splits)
next
  case (3 qs cs c)
  then show ?case using purges [of qs c q] by auto
qed simp

lemma query_sound:
  assumes "query q (run_calls cs empty) = (Ok h, c')"
  shows "h = 0 \<or> (\<exists>qs. Commit h qs \<in> set cs \<and> q \<in> set qs)"
  using answers_hint [OF assms] run_calls_hints [of cs empty q] by (auto simp: new_cache)

end

text \<open>\<^verbatim>\<open>EmptyHintCache\<close> has no fields: its methods do nothing and answer 0, for spends as for confirmations.\<close>

definition CommitSpendHint :: "u32 \<Rightarrow> 'q list \<Rightarrow> (unit, unit) action" where
  "CommitSpendHint height spendRequests = lift (Ok ())"

definition QuerySpendHint :: "'q \<Rightarrow> (unit, u32) action" where
  "QuerySpendHint spendRequest = lift (Ok 0)"

definition PurgeSpendHint :: "'q list \<Rightarrow> (unit, unit) action" where
  "PurgeSpendHint spendRequests = lift (Ok ())"

definition CommitConfirmHint :: "u32 \<Rightarrow> 'q list \<Rightarrow> (unit, unit) action" where
  "CommitConfirmHint height confRequests = lift (Ok ())"

definition QueryConfirmHint :: "'q \<Rightarrow> (unit, u32) action" where
  "QueryConfirmHint confRequest = lift (Ok 0)"

definition PurgeConfirmHint :: "'q list \<Rightarrow> (unit, unit) action" where
  "PurgeConfirmHint confRequests = lift (Ok ())"

interpretation spend_hints: hint_cache CommitSpendHint QuerySpendHint PurgeSpendHint "()" "\<lambda>_ _. {0}"
  by unfold_locales (auto simp: CommitSpendHint_def QuerySpendHint_def PurgeSpendHint_def lift_def)

interpretation confirm_hints: hint_cache CommitConfirmHint QueryConfirmHint PurgeConfirmHint "()" "\<lambda>_ _. {0}"
  by unfold_locales (auto simp: CommitConfirmHint_def QueryConfirmHint_def PurgeConfirmHint_def lift_def)

end
