(* ===== verification/Spec2Isabelle.thy ===== *)
theory Spec2Isabelle
  imports Properties_Process Properties_Bnb Utxo Notifier
begin

text \<open>
  The Lorenzo relayer: a program in Go that reports the block headers of Bitcoin and of the BNB
  chain to the Lorenzo chain. This library models its packages as HOL functions and step relations,
  translated from the files under \<^verbatim>\<open>src/\<close>, and proves what makes them correct, and where they are not.

  \<^bold>\<open>The program.\<close> The Bitcoin reporter (package \<^verbatim>\<open>reporter\<close>) asks Lorenzo for its header tip, fetches
  from a Bitcoin node the blocks from below that tip on (the bootstrap), keeps the newest of them in a
  cache, submits the headers Lorenzo lacks, and then follows the node's events of connected and
  disconnected blocks; a reorganisation is collected in a reorg list until the new branch has more
  work. It reads the node through \<^verbatim>\<open>btcclient\<close>, whose events come over a WebSocket (btcd) or from the
  package \<^verbatim>\<open>zmq\<close> (bitcoind). The BNB reporter (package \<^verbatim>\<open>bnbreporter\<close>) is simpler: it uploads, in
  batches, the headers that \<^verbatim>\<open>bnbclient\<close> walks from a block back to its ancestors. The command line
  loads the configuration, makes the clients and one reporter, and registers interrupt handlers.

  \<^bold>\<open>How Go is modelled\<close> (\<open>Prelude\<close>). A call returns an \<open>outcome\<close>: \<open>Ok\<close>, \<open>Err\<close> for a returned error,
  \<open>Panic\<close> for what ends the process (a panic, as none is recovered, or \<open>LogFatal\<close>, the logger's \<^verbatim>\<open>Fatalf\<close>,
  which exits with status 1) or \<open>Hang\<close> for a loop or a wait that never ends. A call with effects is an \<open>action\<close>, a function from a state to an outcome and the state
  reached, which is kept when an error is returned. \<^verbatim>\<open>int32\<close>, \<^verbatim>\<open>uint64\<close> and the conversions between
  them are words of their width; slices are lists, with the panics of indexing and slicing written
  out; a nil pointer is \<open>None\<close> wherever the code can meet one. Goroutines that share a channel or a lock
  are step relations, one step for each atomic piece of the code.

  \<^bold>\<open>The theories.\<close>
  \<^item> \<open>Btc_Types\<close>: \<^verbatim>\<open>types/indexed_block.go\<close>, \<^verbatim>\<open>blockevent.go\<close>, \<^verbatim>\<open>btclightclient.go\<close>, \<^verbatim>\<open>errors.go\<close>; chains of blocks.
  \<^item> \<open>Block_Buffer\<close>, \<open>Btc_Cache\<close>: \<^verbatim>\<open>types/btccache.go\<close>, every method, as a bounded buffer. The locale
    \<open>block_buffer\<close> states what a bounded buffer promises and is interpreted on the cache.
  \<^item> \<open>Reorg_List\<close>: \<^verbatim>\<open>reporter/reorg_list.go\<close> and \<^verbatim>\<open>calculateBranchWork\<close>.
  \<^item> \<open>Parent_Walk\<close>, \<open>Btc_Client\<close>: \<^verbatim>\<open>btcclient/query.go\<close>, the interface, the subscription. The locale
    \<open>parent_walk\<close> is the walk from a block to its ancestors, interpreted on both clients; the locale
    \<open>block_source\<close> is what the reporter relies on, interpreted on the client over a lawful node and on
    every lawful client.
  \<^item> \<open>Submit\<close>: \<^verbatim>\<open>reporter/utils.go\<close>: what is missing, cutting into messages, submission and its metrics.
  \<^item> \<open>Block_Handler\<close>, \<open>Reorg_Run\<close>, \<open>No_Panic\<close>: \<^verbatim>\<open>reporter/block_handler.go\<close>, whole runs of a
    reorganisation, and the absence of panics.
  \<^item> \<open>Step_Runs\<close>: the locale \<open>stepping\<close>, a step relation and the states its runs reach, with the rules that
    carry an invariant of the steps to the runs; interpreted on five of the step relations below.
  \<^item> \<open>Bootstrap\<close>, \<open>Event_Loop\<close>, \<open>Catch_Up\<close>: \<^verbatim>\<open>reporter/bootstrapping.go\<close>, \<^verbatim>\<open>reporter/reporter.go\<close> and the
    loop of \<^verbatim>\<open>blockEventHandler\<close>; the catch-up's two goroutines are the relation \<open>catchup_step\<close>.
  \<^item> \<open>Catch_Up_Runs\<close>: what the runs of the catch-up submit, the catch-up as a whole (\<open>catchUpOutcome\<close>), and
    the invariant from the constructor through \<^verbatim>\<open>Start\<close>. \<open>Restart\<close>: concurrent \<^verbatim>\<open>Start\<close>, \<^verbatim>\<open>Stop\<close> and event
    handlers over the lock, the quit channels and the wait group, as the relation \<open>thread_step\<close>.
  \<^item> \<open>Submissions\<close>: what one call of the handlers, of the bootstrap and of \<^verbatim>\<open>Start\<close> makes Lorenzo accept.
    \<open>Exits\<close>: in what turns of the event loop the process exits.
    \<open>Process\<close>: the whole Bitcoin reporter as \<open>process_step\<close>: the node sending events, one turn of
    the event loop, signals, the interrupt handlers (the RPC client's shutdown, the closing of the event
    channel, the closing of the quit channel) and the exit.
  \<^item> \<open>Bnb_Types\<close>, \<open>Bnb_Client\<close>, \<open>Bnb_Reporter\<close>, \<open>Bnb_Catch_Up\<close>, \<open>Bnb_Life\<close>: packages \<^verbatim>\<open>bnbtypes\<close>,
    \<^verbatim>\<open>bnbclient\<close> and \<^verbatim>\<open>bnbreporter\<close>. \<open>Bnb_Encoding\<close>: RLP's byte strings, and what RLP and JSON keep of a header.
  \<^item> \<open>Hex\<close>, \<open>Zmq\<close>, \<open>Zmq_Runs\<close>, \<open>Subscriber\<close>: package \<^verbatim>\<open>zmq\<close> with its handler, its lock and \<^verbatim>\<open>Close\<close> as the
    relation \<open>zmq_step\<close>, and the constructor and \<^verbatim>\<open>Stop\<close> of the Bitcoin client.
  \<^item> \<open>Config\<close>, \<open>Commands\<close>, \<open>Interrupts\<close>: packages \<^verbatim>\<open>config\<close>, \<^verbatim>\<open>netparams\<close> and \<^verbatim>\<open>cmd\<close>, up to the whole
    command of the reporter, \<open>reporterCommand\<close>, and of the BNB reporter, \<open>bnbReporterCommand\<close>;
    \<open>Utxo\<close>: \<^verbatim>\<open>types/utxo.go\<close>.
  \<^item> \<open>Program\<close>: \<^verbatim>\<open>main.go\<close> and the command tree, \<open>main\<close>, with the exit status of each end. \<open>Logger\<close>:
    \<^verbatim>\<open>config/log.go\<close>, its levels as a \<open>linorder\<close>. \<open>Metrics_Server\<close>: \<^verbatim>\<open>metrics/prometheus.go\<close> and its
    address. \<open>Notifier\<close>: \<^verbatim>\<open>btcclient/notifier.go\<close>; the locale \<open>hint_cache\<close> states what btcd's notifier
    asks of a hint cache, and what it keeps.
  \<^item> \<open>Samples\<close>, \<open>Bnb_Samples\<close>: small nodes and reporters on which the witnesses are evaluated.
  \<^item> \<open>Properties_Process\<close>, \<open>Properties_Bitcoin\<close>, \<open>Properties_Reporter\<close>, \<open>Properties_Start\<close>,
    \<open>Properties_Bnb\<close>, \<open>Properties_Services\<close>: the properties, numbered by importance, with their witnesses.

  \<^bold>\<open>Parameters and what is assumed of them.\<close> Code outside \<^verbatim>\<open>src/\<close> is an argument of the definitions. Of
  btcd's RPC client \<open>node_lawful\<close> says that a block answered for a hash has that hash, and a height one
  above its parent's, in the range of \<^verbatim>\<open>int32\<close>; \<open>bnb_lawful\<close> says the same of the BNB node.
  \<open>client_lawful\<close> is the same promise at the reporter's interface and is proved of the client. Of the
  retry packages \<open>retry_lawful\<close> and \<open>boot_retry_lawful\<close> say that they run the given call, some times,
  and return what the last attempt returned (or that the context was cancelled). \<open>additive_work\<close> says
  that \<^verbatim>\<open>CumulativeWork\<close> adds. The Lorenzo client is any; \<open>observed\<close> says that it logs each message it
  accepts and that the Bitcoin client leaves that log alone, \<open>welcoming\<close> that it answers and accepts.
  \<open>parser_lawful\<close> says what cobra's parser runs for a command line. \<open>rlp_lawful\<close> says that RLP's code of a
  list of byte strings determines it, \<open>json_lawful\<close> which headers \<^verbatim>\<open>encoding/json\<close> and \<^verbatim>\<open>hexutil\<close> read back
  and which they refuse (negative integers and those above 256 bits). \<open>externals_spare\<close> says that the
  libraries do not exit the process themselves. An RPC client that was shut down refuses its queries with
  \<^verbatim>\<open>ErrClientShutdown\<close>; this is in the step relation (\<open>serving\<close>). Header hashing, Keccak, the ZMQ
  sockets, viper and the file system have no assumption but the types of their answers.

  \<^bold>\<open>Bounds and loops.\<close> No fuel is used. Loops over a list or a count are structural recursions; those
  that may not end (the binary search, the cutting into chunks, the waits, the ranges of the catch-up)
  are \<open>partial_function (option)\<close> with \<open>None\<close> for not ending, which the callers turn into \<open>Hang\<close>; where
  the code ends this is proved, and where it does not (\<^verbatim>\<open>chunkBy\<close> with size 0) that is proved too. The
  channel capacities are the code's: 10 batches in both catch-ups, 10000 events. Caches whose size does
  not fit the address space panic in \<^verbatim>\<open>make\<close>; the well-formedness of a cache bounds its size by \<^verbatim>\<open>2^63\<close>,
  beyond which \<^verbatim>\<open>int(maxEntries)\<close> would be negative.

  \<^bold>\<open>What the lemmas show.\<close> The cache is a sliding window and its searches agree with linear ones; the
  clients refine the interface their reporter uses; \<^verbatim>\<open>ProcessHeaders\<close> submits exactly the contiguous run
  Lorenzo lacks; a reorganisation delivers the new branch once it has more work, and nothing before;
  from the command through the start to every state of the event loop the cache is a chain of the
  node's blocks and the reorg list's work exact; the Bitcoin catch-up submits one gap-free chain; a
  bootstrap that succeeds has checked the block at the confirmed height and submitted what Lorenzo lacked
  above it; an event is handled only in the state in which the node was found far enough ahead; the BNB catch-up is
  complete; the ZMQ handler turns bitcoind's messages into events one by one and in order. They also
  show where the code fails: an empty tail or the first BNB bootstrap panics, the Bitcoin catch-up may
  leave batches behind, a second ZMQ subscription holds its lock for ever, so that a bootstrap on
  bitcoind cannot be retried; a restart can wait for ever with the lock held, or leave two handlers.
  Of the whole life of the process, from the command line on: the invariant holds in every state
  reached; everything Lorenzo has accepted, from the catch-ups, the retried bootstraps and the handlers
  together, is gap-free pieces of the node's chains; the status 0 is reached only by an orderly
  shutdown, the status 1 only when the metrics server returns or a repeated bootstrap gives up; an
  interrupt can stop the program in order, and the closed event channel never crashes the event handler.
  Of the two encodings of a BNB header they show what is kept and what is not: RLP reads nil as zero.

  \<^bold>\<open>Not modelled.\<close> The text of log lines and where it is written; sleeping and times; what dialling and
  TLS do; the wait for the goroutines of btcd's RPC client when it is stopped, which is taken to return; cobra's own parsing and help; the serving of HTTP by the metrics server; the body of
  transactions; \<^verbatim>\<open>PushOrQuit\<close> and methods of the interfaces that nothing calls; the memory model below
  the atomic steps: a method that holds a lock for its whole body is one step, and in \<open>Process\<close> so is a
  turn of the event loop, which no other goroutine can observe half done.
\<close>

end
